(* ===== verification/Prelude.thy ===== *)
theory Prelude imports Main "HOL-Library.Char_ord" "HOL-Library.List_Lexorder" begin

text \<open>
  The vocabulary every component shares: text as JavaScript handles it, the
  insertion-ordered \<open>Set\<close> and \<open>Map\<close> of the language, and the generic lemmas about them.

  Text is a list of bytes. A string of the program stands for its UTF-8 bytes, so the
  few non-ASCII characters of the program's messages are their byte sequences. Letter case and
  white space are the ASCII ones: \<open>toLowerCase\<close> and \<open>trim\<close> of the source agree with
  the definitions below on ASCII text, which is what addresses, tier names, codes and
  identifiers are; SQLite's \<open>lower\<close> is ASCII-only by its documentation.
  Strings are ordered lexicographically by character, as \<open><\<close> and the default
  \<open>toSorted()\<close> of JavaScript order ASCII text, so \<open>toSorted()\<close> is \<open>sort\<close>.
\<close>

named_theorems text_simps \<open>facts about case mapping, trimming and number printing\<close>
named_theorems jsmap_simps \<open>lookup facts for insertion-ordered maps and sets\<close>

subsection \<open>Characters and case\<close>

definition code_of :: "char \<Rightarrow> nat" where
  "code_of c = of_char c"

definition lower_char :: "char \<Rightarrow> char" where
  "lower_char c = (if 65 \<le> code_of c \<and> code_of c \<le> 90 then char_of (code_of c + 32) else c)"

definition upper_char :: "char \<Rightarrow> char" where
  "upper_char c = (if 97 \<le> code_of c \<and> code_of c \<le> 122 then char_of (code_of c - 32) else c)"

definition toLowerCase :: "string \<Rightarrow> string" where
  "toLowerCase s = map lower_char s"

definition toUpperCase :: "string \<Rightarrow> string" where
  "toUpperCase s = map upper_char s"

definition is_space :: "char \<Rightarrow> bool" where
  "is_space c \<longleftrightarrow> code_of c = 32 \<or> (9 \<le> code_of c \<and> code_of c \<le> 13)"

definition is_digit :: "char \<Rightarrow> bool" where
  "is_digit c \<longleftrightarrow> 48 \<le> code_of c \<and> code_of c \<le> 57"

definition trim :: "string \<Rightarrow> string" where
  "trim s = rev (dropWhile is_space (rev (dropWhile is_space s)))"

lemma code_of_lower [text_simps]:
  "code_of (lower_char c) = (if 65 \<le> code_of c \<and> code_of c \<le> 90 then code_of c + 32 else code_of c)"
  by (simp add: lower_char_def code_of_def)

lemma lower_char_idem [simp]: "lower_char (lower_char c) = lower_char c"
proof (cases "65 \<le> code_of c \<and> code_of c \<le> 90")
  case True
  then show ?thesis using code_of_lower [of c] by (simp add: lower_char_def [of "lower_char c"])
next
  case False
  then have "lower_char c = c" unfolding lower_char_def by (rule if_not_P)
  then show ?thesis by simp
qed

lemma is_space_lower [simp]: "is_space (lower_char c) = is_space c"
  by (auto simp: is_space_def code_of_lower)

lemma is_digit_lower [simp]: "is_digit (lower_char c) = is_digit c"
  by (auto simp: is_digit_def code_of_lower)

lemma toLowerCase_idem [simp]: "toLowerCase (toLowerCase s) = toLowerCase s"
  by (simp add: toLowerCase_def)

lemma toLowerCase_Nil [simp]: "toLowerCase s = [] \<longleftrightarrow> s = []" "toLowerCase [] = []"
  by (simp_all add: toLowerCase_def)

lemma length_toLowerCase [simp]: "length (toLowerCase s) = length s"
  by (simp add: toLowerCase_def)

lemma toLowerCase_append [text_simps]: "toLowerCase (s @ t) = toLowerCase s @ toLowerCase t"
  by (simp add: toLowerCase_def)

lemma dropWhile_map_lower: "dropWhile is_space (map lower_char s) = map lower_char (dropWhile is_space s)"
  by (simp add: dropWhile_map o_def)

lemma trim_toLowerCase [text_simps]: "trim (toLowerCase s) = toLowerCase (trim s)"
  by (simp only: trim_def toLowerCase_def dropWhile_map_lower rev_map)

lemma dropWhile_idem_gen: "dropWhile P (dropWhile P xs) = dropWhile P xs"
  by (induction xs) auto

lemma trim_Nil [simp]: "trim [] = []"
  by (simp add: trim_def)

lemma trim_hd: "trim s \<noteq> [] \<Longrightarrow> \<not> is_space (hd (trim s))"
proof -
  let ?t = "dropWhile is_space s"
  assume "trim s \<noteq> []"
  then have ne: "dropWhile is_space (rev ?t) \<noteq> []" unfolding trim_def by (metis rev.simps(1))
  then obtain u where u: "rev ?t = u @ dropWhile is_space (rev ?t)"
    by (metis takeWhile_dropWhile_id)
  then have "?t = trim s @ rev u"
    by (metis trim_def rev_append rev_rev_ident)
  moreover have "?t \<noteq> []" using ne by (metis dropWhile.simps(1) rev.simps(1))
  ultimately show ?thesis
    using hd_dropWhile [of is_space s] \<open>trim s \<noteq> []\<close> by (metis hd_append2)
qed

lemma trim_idem [simp]: "trim (trim s) = trim s"
proof (cases "trim s = []")
  case True
  then show ?thesis by simp
next
  case False
  then have 1: "dropWhile is_space (trim s) = trim s"
    using trim_hd [OF False] by (cases "trim s") auto
  have 2: "dropWhile is_space (rev (trim s)) = rev (trim s)"
    unfolding trim_def by (simp only: rev_rev_ident dropWhile_idem_gen)
  show ?thesis
    by (simp only: trim_def [of "trim s"] 1 2 rev_rev_ident)
qed

subsection \<open>Optional text, prefixes and numbers as text\<close>

text \<open>JavaScript treats the empty string as false: the two readings of a nullable text.\<close>

definition nonempty :: "string option \<Rightarrow> string option" where
  "nonempty t = (case t of Some s \<Rightarrow> if s = [] then None else Some s | None \<Rightarrow> None)"

definition text_or_empty :: "string option \<Rightarrow> string" where
  "text_or_empty t = (case t of Some s \<Rightarrow> s | None \<Rightarrow> [])"

lemma nonempty_Some [simp]: "nonempty t = Some s \<longleftrightarrow> t = Some s \<and> s \<noteq> []"
  by (auto simp: nonempty_def split: option.splits)

lemma nonempty_simps [simp]: "nonempty None = None" "nonempty (Some []) = None"
  "nonempty (Some (c # s)) = Some (c # s)"
  by (simp_all add: nonempty_def)

lemma nonempty_ne [simp]: "s \<noteq> [] \<Longrightarrow> nonempty (Some s) = Some s"
  by simp

lemma nonempty_idem [simp]: "nonempty (nonempty t) = nonempty t"
  by (auto simp: nonempty_def split: option.splits)

lemma text_or_empty_simps [simp]: "text_or_empty None = []" "text_or_empty (Some s) = s"
  by (simp_all add: text_or_empty_def)

definition starts_with :: "string \<Rightarrow> string \<Rightarrow> bool" where
  "starts_with p s \<longleftrightarrow> take (length p) s = p"

lemma starts_with_append [simp]: "starts_with p (p @ s)"
  by (simp add: starts_with_def)

definition digit_char :: "nat \<Rightarrow> char" where
  "digit_char d = char_of (48 + d)"

fun show_nat :: "nat \<Rightarrow> string" where
  "show_nat n = (if n < 10 then [digit_char n] else show_nat (n div 10) @ [digit_char (n mod 10)])"

declare show_nat.simps [simp del]

definition show_int :: "int \<Rightarrow> string" where
  "show_int i = (if i < 0 then CHR ''-'' # show_nat (nat (- i)) else show_nat (nat i))"

definition digit_val :: "char \<Rightarrow> nat" where
  "digit_val c = code_of c - 48"

definition read_nat :: "string \<Rightarrow> nat" where
  "read_nat s = foldl (\<lambda>n c. 10 * n + digit_val c) 0 s"

lemma code_digit_char [simp]: "d < 10 \<Longrightarrow> code_of (digit_char d) = 48 + d"
  by (simp add: code_of_def digit_char_def)

lemma is_digit_digit_char [simp]: "d < 10 \<Longrightarrow> is_digit (digit_char d)"
  by (simp add: is_digit_def)

lemma digit_val_digit_char [simp]: "d < 10 \<Longrightarrow> digit_val (digit_char d) = d"
  by (simp add: digit_val_def)

lemma show_nat_digits [text_simps]: "list_all is_digit (show_nat n)"
  by (induction n rule: show_nat.induct) (subst show_nat.simps, simp)

lemma show_nat_nonempty [simp]: "show_nat n \<noteq> []"
  by (subst show_nat.simps) simp

lemma read_nat_snoc: "read_nat (s @ [c]) = 10 * read_nat s + digit_val c"
  by (simp add: read_nat_def)

lemma read_show_nat [text_simps]: "read_nat (show_nat n) = n"
proof (induction n rule: show_nat.induct)
  case (1 n)
  show ?case
  proof (cases "n < 10")
    case True
    then show ?thesis by (subst show_nat.simps) (simp add: read_nat_def)
  next
    case False
    with 1 show ?thesis by (subst show_nat.simps) (simp add: read_nat_snoc)
  qed
qed

definition newline :: string where
  "newline = [CHR 10]"

definition em_dash :: string where
  \<comment> \<open>the UTF-8 bytes of U+2014\<close>
  "em_dash = [CHR 0xE2, CHR 0x80, CHR 0x94]"

definition joined :: "string \<Rightarrow> string list \<Rightarrow> string" where
  \<comment> \<open>\<open>texts.join(sep)\<close>\<close>
  "joined sep texts = (case texts of [] \<Rightarrow> [] | t # ts \<Rightarrow> t @ concat (map (\<lambda>u. sep @ u) ts))"

definition option_text :: "string \<Rightarrow> string option \<Rightarrow> string" where
  \<comment> \<open>\<open>t ?? dflt\<close>\<close>
  "option_text dflt t = (case t of Some s \<Rightarrow> s | None \<Rightarrow> dflt)"

subsection \<open>Insertion-ordered sets and maps\<close>

text \<open>
  \<open>new Set(xs)\<close> iterates in the order of first insertion; \<open>new Map(es)\<close> keeps the
  position a key was first inserted at and the value last written. Both are lists here, with
  distinct elements or keys; \<open>map_of\<close> is the map's \<open>get\<close>.
\<close>

definition js_set :: "'a list \<Rightarrow> 'a list" where
  "js_set xs = rev (remdups (rev xs))"

fun map_put :: "'k \<Rightarrow> 'v \<Rightarrow> ('k \<times> 'v) list \<Rightarrow> ('k \<times> 'v) list" where
  "map_put k v [] = [(k, v)]"
| "map_put k v ((k', v') # m) = (if k' = k then (k, v) # m else (k', v') # map_put k v m)"

definition js_map :: "('k \<times> 'v) list \<Rightarrow> ('k \<times> 'v) list" where
  "js_map es = fold (\<lambda>(k, v) m. map_put k v m) es []"

definition map_del :: "'k \<Rightarrow> ('k \<times> 'v) list \<Rightarrow> ('k \<times> 'v) list" where
  "map_del k m = filter (\<lambda>(k', _). k' \<noteq> k) m"

definition distinct_keys :: "('k \<times> 'v) list \<Rightarrow> bool" where
  "distinct_keys m \<longleftrightarrow> distinct (map fst m)"

lemma set_js_set [simp]: "set (js_set xs) = set xs"
  by (simp add: js_set_def)

lemma distinct_js_set [simp]: "distinct (js_set xs)"
  by (simp add: js_set_def)

lemma js_set_Nil [simp]: "js_set [] = []" "js_set xs = [] \<longleftrightarrow> xs = []"
  by (simp_all add: js_set_def)

lemma js_set_distinct [simp]: "distinct xs \<Longrightarrow> js_set xs = xs"
  by (simp add: js_set_def distinct_remdups_id)

lemma js_set_snoc: "js_set (xs @ [x]) = (if x \<in> set xs then js_set xs else js_set xs @ [x])"
  by (simp add: js_set_def)

lemma map_of_map_put [jsmap_simps, simp]: "map_of (map_put k v m) = (map_of m)(k \<mapsto> v)"
  by (induction k v m rule: map_put.induct) auto

lemma keys_map_put: "fst ` set (map_put k v m) = insert k (fst ` set m)"
  by (induction k v m rule: map_put.induct) auto

lemma set_map_put: "set (map_put k v m) \<subseteq> insert (k, v) (set m)"
  by (induction k v m rule: map_put.induct) auto

lemma distinct_keys_put [simp]: "distinct_keys m \<Longrightarrow> distinct_keys (map_put k v m)"
  by (induction k v m rule: map_put.induct) (auto simp: distinct_keys_def keys_map_put)

lemma map_put_notin: "k \<notin> fst ` set m \<Longrightarrow> map_put k v m = m @ [(k, v)]"
  by (induction k v m rule: map_put.induct) auto

lemma map_of_map_del [jsmap_simps, simp]: "map_of (map_del k m) = (map_of m)(k := None)"
  by (induction m) (auto simp: map_del_def)

lemma distinct_keys_del [simp]: "distinct_keys m \<Longrightarrow> distinct_keys (map_del k m)"
  by (induction m) (auto simp: distinct_keys_def map_del_def)

lemma distinct_keys_Nil [simp]: "distinct_keys []"
  by (simp add: distinct_keys_def)

lemma js_map_Nil [simp]: "js_map [] = []"
  by (simp add: js_map_def)

lemma js_map_snoc [simp]: "js_map (es @ [(k, v)]) = map_put k v (js_map es)"
  by (simp add: js_map_def)

lemma distinct_keys_js_map [simp]: "distinct_keys (js_map es)"
  by (induction es rule: rev_induct) (auto split: prod.splits)

lemma map_of_js_map [jsmap_simps]: "map_of (js_map es) = map_of (rev es)"
  by (induction es rule: rev_induct) (auto split: prod.splits)

lemma set_js_map: "set (js_map es) \<subseteq> set es"
proof (induction es rule: rev_induct)
  case Nil
  then show ?case by simp
next
  case (snoc e es)
  obtain k v where "e = (k, v)" by (cases e)
  then show ?case using snoc set_map_put [of k v "js_map es"] by auto
qed

lemma keys_js_map: "fst ` set (js_map es) = fst ` set es"
proof (induction es rule: rev_induct)
  case Nil
  then show ?case by simp
next
  case (snoc e es)
  obtain k v where "e = (k, v)" by (cases e)
  then show ?case using snoc by (auto simp: keys_map_put)
qed

lemma js_map_distinct: "distinct_keys es \<Longrightarrow> js_map es = es"
proof (induction es rule: rev_induct)
  case Nil
  then show ?case by simp
next
  case (snoc e es)
  obtain k v where e: "e = (k, v)" by (cases e)
  with snoc have "js_map es = es" "k \<notin> fst ` set es" by (auto simp: distinct_keys_def)
  then show ?case by (simp add: e map_put_notin)
qed

lemma map_of_iff: "distinct_keys m \<Longrightarrow> map_of m k = Some v \<longleftrightarrow> (k, v) \<in> set m"
  by (simp add: distinct_keys_def)

lemma map_of_filter_keys:
  "map_of (filter (\<lambda>(k, v). P k) m) k = (if P k then map_of m k else None)"
  by (induction m) auto

subsection \<open>Lists\<close>

definition first_or_none :: "'a list \<Rightarrow> 'a option" where
  "first_or_none xs = (case xs of [] \<Rightarrow> None | x # _ \<Rightarrow> Some x)"

definition last_or_none :: "'a list \<Rightarrow> 'a option" where
  "last_or_none xs = (if xs = [] then None else Some (last xs))"

lemma last_or_none_simps [simp]: "last_or_none [] = None" "last_or_none (xs @ [x]) = Some x"
  by (simp_all add: last_or_none_def)

text \<open>\<open>options.flatMap(o => o === null ? [] : [o])\<close>: the values that are there.\<close>

definition somes :: "'a option list \<Rightarrow> 'a list" where
  "somes xs = List.map_filter (\<lambda>x. x) xs"

lemma set_somes [simp]: "x \<in> set (somes xs) \<longleftrightarrow> Some x \<in> set xs"
  by (induction xs) (auto simp: somes_def List.map_filter_def)

lemma somes_simps [simp]: "somes [] = []" "somes (Some x # xs) = x # somes xs"
  "somes (None # xs) = somes xs" "somes (xs @ ys) = somes xs @ somes ys"
  by (simp_all add: somes_def List.map_filter_def)

lemma find_in_set: "List.find P xs = Some x \<Longrightarrow> x \<in> set xs \<and> P x"
  by (induction xs) (auto split: if_splits)

lemma find_None: "List.find P xs = None \<longleftrightarrow> (\<forall>x\<in>set xs. \<not> P x)"
  by (induction xs) auto


lemma list_all2_right: "list_all2 (\<lambda>_. Q) xs ys \<Longrightarrow> y \<in> set ys \<Longrightarrow> Q y"
  by (induction rule: list_all2_induct) auto

end
