(* ===== verification/Effects.thy ===== *)
theory Effects imports Prelude begin

text \<open>
  How the asynchronous code of the program is modelled: a computation takes the state of the
  world and answers either an exception or a value, together with the state it left. What a
  computation did before it threw is kept, as in the program.

  The sequencing helpers of \<open>apps/stripe-bridge/src/sequence.ts\<close> are the loops
  of the program. Two calculi follow: \<open>wp\<close>, the weakest precondition of a computation
  for a normal and an exceptional outcome, and \<open>keeps\<close>, for relations between the
  first and the last state that every step keeps (stated once in the locale \<open>frame\<close>
  for every reflexive and transitive relation).
\<close>

named_theorems wp_simps \<open>weakest preconditions of the program constructs\<close>

datatype exn =
    Failure string          \<comment> \<open>a plain \<open>Error\<close>, or what an outside service rejected with\<close>
  | TypeErr string
  | RangeErr string
  | TierScopeEmpty string
  | PlexUnavailable string
  | HttpErr nat string      \<comment> \<open>\<open>httpError({ status, detail })\<close>\<close>
  | SqliteErr string

type_synonym ('s, 'a) io = "'s \<Rightarrow> (exn + 'a) \<times> 's"

subsection \<open>Sequencing\<close>

definition ret :: "'a \<Rightarrow> ('s, 'a) io" where
  "ret x = (\<lambda>s. (Inr x, s))"

definition throw :: "exn \<Rightarrow> ('s, 'a) io" where
  "throw e = (\<lambda>s. (Inl e, s))"

definition bindM :: "('s, 'a) io \<Rightarrow> ('a \<Rightarrow> ('s, 'b) io) \<Rightarrow> ('s, 'b) io" where
  "bindM m f = (\<lambda>s. case m s of (Inr x, t) \<Rightarrow> f x t | (Inl e, t) \<Rightarrow> (Inl e, t))"

definition andThen :: "('s, 'a) io \<Rightarrow> ('s, 'b) io \<Rightarrow> ('s, 'b) io" where
  "andThen m n = bindM m (\<lambda>_. n)"

definition catchM :: "('s, 'a) io \<Rightarrow> (exn \<Rightarrow> ('s, 'a) io) \<Rightarrow> ('s, 'a) io" where
  "catchM m h = (\<lambda>s. case m s of (Inr x, t) \<Rightarrow> (Inr x, t) | (Inl e, t) \<Rightarrow> h e t)"

definition outcome :: "('s, 'a) io \<Rightarrow> ('s, exn + 'a) io" where
  \<comment> \<open>\<open>.then(value => value, error => error)\<close>: what the computation came to, as a value\<close>
  "outcome m = (\<lambda>s. case m s of (r, t) \<Rightarrow> (Inr r, t))"

definition orElse :: "('s, 'a) io \<Rightarrow> 'a \<Rightarrow> ('s, 'a) io" where
  \<comment> \<open>\<open>.catch(() => fallback)\<close>\<close>
  "orElse m x = catchM m (\<lambda>_. ret x)"

definition whenM :: "bool \<Rightarrow> ('s, unit) io \<Rightarrow> ('s, unit) io" where
  "whenM b m = (if b then m else ret ())"

definition liftE :: "exn + 'a \<Rightarrow> ('s, 'a) io" where
  "liftE r = (case r of Inr x \<Rightarrow> ret x | Inl e \<Rightarrow> throw e)"

definition bothM :: "('s, 'a) io \<Rightarrow> ('s, 'b) io \<Rightarrow> ('s, 'a \<times> 'b) io" where
  \<comment> \<open>\<open>Promise.all([m, n])\<close>: both are started; the first rejection is the rejection\<close>
  "bothM m n = bindM (outcome m) (\<lambda>r. bindM (outcome n) (\<lambda>q.
     bindM (liftE r) (\<lambda>x. bindM (liftE q) (\<lambda>y. ret (x, y)))))"

fun eachInOrder :: "('a \<Rightarrow> ('s, unit) io) \<Rightarrow> 'a list \<Rightarrow> ('s, unit) io" where
  "eachInOrder run [] = ret ()"
| "eachInOrder run (x # xs) = andThen (run x) (eachInOrder run xs)"

fun mapInOrder :: "('a \<Rightarrow> ('s, 'b) io) \<Rightarrow> 'a list \<Rightarrow> ('s, 'b list) io" where
  "mapInOrder run [] = ret []"
| "mapInOrder run (x # xs) =
     bindM (run x) (\<lambda>y. bindM (mapInOrder run xs) (\<lambda>ys. ret (y # ys)))"

lemma bindM_ret [simp]: "bindM (ret x) f = f x" "bindM m ret = m"
  by (auto simp: bindM_def ret_def fun_eq_iff split: prod.splits sum.splits)

lemma bindM_assoc: "bindM (bindM m f) g = bindM m (\<lambda>x. bindM (f x) g)"
  by (auto simp: bindM_def fun_eq_iff split: prod.splits sum.splits)

lemma bindM_throw [simp]: "bindM (throw e) f = throw e"
  by (simp add: bindM_def throw_def)

lemma andThen_throw [simp]: "andThen (throw e) m = throw e"
  by (simp add: andThen_def)

lemma liftE_simps [simp]: "liftE (Inr x) = ret x" "liftE (Inl e) = throw e"
  by (simp_all add: liftE_def)

lemma run_simps: "ret x s = (Inr x, s)" "throw e s = (Inl e, s)"
  by (simp_all add: ret_def throw_def)

lemma eachInOrder_append:
  "eachInOrder run (xs @ ys) = andThen (eachInOrder run xs) (eachInOrder run ys)"
  by (induction xs) (simp_all add: andThen_def bindM_assoc)

lemma bindM_cases:
  assumes "bindM m f s = (r, u)"
  obtains (thrown) e where "m s = (Inl e, u)" "r = Inl e"
    | (normal) x t where "m s = (Inr x, t)" "f x t = (r, u)"
  using assms by (auto simp: bindM_def split: prod.splits sum.splits)

subsection \<open>Weakest preconditions\<close>

definition wp :: "('s, 'a) io \<Rightarrow> ('a \<Rightarrow> 's \<Rightarrow> bool) \<Rightarrow> (exn \<Rightarrow> 's \<Rightarrow> bool) \<Rightarrow> 's \<Rightarrow> bool" where
  "wp m Q E s = (case m s of (Inr x, t) \<Rightarrow> Q x t | (Inl e, t) \<Rightarrow> E e t)"

lemma wp_ret [wp_simps]: "wp (ret x) Q E = Q x"
  by (simp add: wp_def ret_def fun_eq_iff)

lemma wp_throw [wp_simps]: "wp (throw e) Q E = E e"
  by (simp add: wp_def throw_def fun_eq_iff)

lemma wp_bindM [wp_simps]: "wp (bindM m f) Q E = wp m (\<lambda>x. wp (f x) Q E) E"
  by (auto simp: wp_def bindM_def fun_eq_iff split: prod.splits sum.splits)

lemma wp_andThen [wp_simps]: "wp (andThen m n) Q E = wp m (\<lambda>_. wp n Q E) E"
  by (simp add: andThen_def wp_bindM)

lemma wp_catchM [wp_simps]: "wp (catchM m h) Q E = wp m Q (\<lambda>e. wp (h e) Q E)"
  by (auto simp: wp_def catchM_def fun_eq_iff split: prod.splits sum.splits)

lemma wp_outcome [wp_simps]: "wp (outcome m) Q E = wp m (\<lambda>x. Q (Inr x)) (\<lambda>e. Q (Inl e))"
  by (auto simp: wp_def outcome_def fun_eq_iff split: prod.splits sum.splits)

lemma wp_orElse [wp_simps]: "wp (orElse m x) Q E = wp m Q (\<lambda>_. Q x)"
  by (simp add: orElse_def wp_catchM wp_ret)

lemma wp_whenM [wp_simps]: "wp (whenM b m) Q E = (if b then wp m Q E else Q ())"
  by (simp add: whenM_def wp_ret)

lemma wp_liftE [wp_simps]: "wp (liftE r) Q E = (case r of Inr x \<Rightarrow> Q x | Inl e \<Rightarrow> E e)"
  by (simp add: liftE_def wp_simps split: sum.splits)

lemma wp_bothM [wp_simps]:
  "wp (bothM m n) Q E =
     wp m (\<lambda>x. wp n (\<lambda>y. Q (x, y)) E) (\<lambda>e. wp n (\<lambda>_. E e) (\<lambda>_. E e))"
  by (simp add: bothM_def wp_simps)

lemma wp_if [wp_simps]: "wp (if b then m else n) Q E = (if b then wp m Q E else wp n Q E)"
  by simp

lemma wp_cons:
  assumes "wp m Q E s" "\<And>x t. Q x t \<Longrightarrow> Q' x t" "\<And>e t. E e t \<Longrightarrow> E' e t"
  shows "wp m Q' E' s"
  using assms by (auto simp: wp_def split: prod.splits sum.splits)

lemma wp_bind_cons:
  assumes "wp m R E' s" "\<And>x t. R x t \<Longrightarrow> wp (f x) Q E t" "\<And>e t. E' e t \<Longrightarrow> E e t"
  shows "wp (bindM m f) Q E s"
  unfolding wp_bindM using assms by (rule wp_cons)

lemma wp_conj:
  assumes "wp m Q E s" "wp m Q' E' s"
  shows "wp m (\<lambda>x t. Q x t \<and> Q' x t) (\<lambda>e t. E e t \<and> E' e t) s"
  using assms by (auto simp: wp_def split: prod.splits sum.splits)

lemma wp_true: "wp m (\<lambda>_ _. True) (\<lambda>_ _. True) s"
  by (auto simp: wp_def split: prod.splits sum.splits)

lemma wpD_normal: "wp m Q E s \<Longrightarrow> m s = (Inr x, t) \<Longrightarrow> Q x t"
  by (simp add: wp_def)

lemma wpD_thrown: "wp m Q E s \<Longrightarrow> m s = (Inl e, t) \<Longrightarrow> E e t"
  by (simp add: wp_def)

lemma wpI:
  assumes "\<And>x t. m s = (Inr x, t) \<Longrightarrow> Q x t" "\<And>e t. m s = (Inl e, t) \<Longrightarrow> E e t"
  shows "wp m Q E s"
  using assms by (auto simp: wp_def split: prod.splits sum.splits)

text \<open>A loop keeps whatever each turn keeps.\<close>

lemma wp_eachInOrder_inv:
  assumes "\<And>x t. x \<in> set xs \<Longrightarrow> I t \<Longrightarrow> wp (run x) (\<lambda>_. I) E t" "I s"
  shows "wp (eachInOrder run xs) (\<lambda>_. I) E s"
  using assms
proof (induction xs arbitrary: s)
  case Nil
  then show ?case by (simp add: wp_simps)
next
  case (Cons x xs)
  have "wp (run x) (\<lambda>_. I) E s" using Cons.prems by simp
  then show ?case
    using Cons.IH Cons.prems(1) by (auto simp: wp_simps elim!: wp_cons)
qed

lemma wp_mapInOrder_inv:
  assumes "\<And>x t. x \<in> set xs \<Longrightarrow> I t \<Longrightarrow> wp (run x) (\<lambda>y t. I t \<and> P x y) E t" "I s"
  shows "wp (mapInOrder run xs) (\<lambda>ys t. I t \<and> list_all2 P xs ys) E s"
  using assms
proof (induction xs arbitrary: s)
  case Nil
  then show ?case by (simp add: wp_simps)
next
  case (Cons x xs)
  have rest: "wp (mapInOrder run xs) (\<lambda>ys t. I t \<and> list_all2 P (x # xs) (y # ys)) E t"
    if "I t \<and> P x y" for y t
  proof -
    have "wp (mapInOrder run xs) (\<lambda>ys t. I t \<and> list_all2 P xs ys) E t"
      using Cons.IH Cons.prems(1) that by simp
    then show ?thesis using that by (rule_tac wp_cons) auto
  qed
  have "wp (run x) (\<lambda>y t. I t \<and> P x y) E s" using Cons.prems by simp
  then show ?case
    by (simp add: wp_simps) (rule wp_cons, assumption, use rest in auto)
qed

subsection \<open>Computations that never throw\<close>

definition never_throws :: "('s, 'a) io \<Rightarrow> bool" where
  "never_throws m \<longleftrightarrow> (\<forall>s. wp m (\<lambda>_ _. True) (\<lambda>_ _. False) s)"

lemma never_throws_ret [simp]: "never_throws (ret x)"
  by (simp add: never_throws_def wp_simps)

lemma never_throws_outcome [simp]: "never_throws (outcome m)"
  by (simp add: never_throws_def wp_simps wp_true)

lemma never_throws_orElse [simp]: "never_throws (orElse m x)"
  by (simp add: never_throws_def wp_simps wp_true)

lemma never_throws_bindM:
  "never_throws m \<Longrightarrow> (\<And>x. never_throws (f x)) \<Longrightarrow> never_throws (bindM m f)"
  by (auto simp: never_throws_def wp_simps intro: wp_cons)

lemma never_throws_andThen: "never_throws m \<Longrightarrow> never_throws n \<Longrightarrow> never_throws (andThen m n)"
  by (simp add: andThen_def never_throws_bindM)

lemma never_throws_catchM: "(\<And>e. never_throws (h e)) \<Longrightarrow> never_throws (catchM m h)"
  by (auto simp: never_throws_def wp_simps intro: wp_cons wp_true)

lemma never_throws_whenM: "never_throws m \<Longrightarrow> never_throws (whenM b m)"
  by (simp add: whenM_def)

lemma never_throws_if: "never_throws m \<Longrightarrow> never_throws n \<Longrightarrow> never_throws (if b then m else n)"
  by simp

lemma never_throws_mapInOrder: "(\<And>x. never_throws (run x)) \<Longrightarrow> never_throws (mapInOrder run xs)"
  by (induction xs) (auto intro!: never_throws_bindM)

lemmas never_throws_intros = never_throws_ret never_throws_outcome never_throws_orElse
  never_throws_bindM never_throws_andThen never_throws_catchM never_throws_whenM
  never_throws_if never_throws_mapInOrder

lemma never_throwsD: "never_throws m \<Longrightarrow> \<exists>x t. m s = (Inr x, t)"
  by (cases "m s"; cases "fst (m s)") (auto simp: never_throws_def wp_def dest!: spec [of _ s])

subsection \<open>Frames\<close>

definition keeps :: "('s \<Rightarrow> 's \<Rightarrow> bool) \<Rightarrow> ('s, 'a) io \<Rightarrow> bool" where
  "keeps R m \<longleftrightarrow> (\<forall>s. R s (snd (m s)))"

lemma keeps_wp: "keeps R m \<longleftrightarrow> (\<forall>s. wp m (\<lambda>_. R s) (\<lambda>_. R s) s)"
  unfolding keeps_def wp_def by (rule iff_allI) (auto split: prod.splits sum.splits)

lemma keepsD: "keeps R m \<Longrightarrow> m s = (r, t) \<Longrightarrow> R s t"
  by (auto simp: keeps_def dest: spec [of _ s])

lemma keeps_mono: "keeps R m \<Longrightarrow> (\<And>s t. R s t \<Longrightarrow> R' s t) \<Longrightarrow> keeps R' m"
  by (auto simp: keeps_def)

locale frame =
  fixes R :: "'s \<Rightarrow> 's \<Rightarrow> bool"
  assumes R_refl: "R s s"
    and R_trans: "R s t \<Longrightarrow> R t u \<Longrightarrow> R s u"
begin

lemma k_ret: "keeps R (ret x)"
  by (simp add: keeps_def ret_def R_refl)

lemma k_throw: "keeps R (throw e)"
  by (simp add: keeps_def throw_def R_refl)

text \<open>Sequencing where the second half is only known to keep the frame after what the first half did.\<close>

lemma k_after:
  assumes "keeps R m" "\<And>x s t. m s = (Inr x, t) \<Longrightarrow> R t (snd (f x t))"
  shows "keeps R (bindM m f)"
  unfolding keeps_def
proof
  fix s
  have "R s (snd (m s))" using assms(1) by (simp add: keeps_def)
  then show "R s (snd (bindM m f s))"
    using assms(2) [of s] by (auto simp: bindM_def intro: R_trans split: prod.splits sum.splits)
qed

lemma k_bindM: "keeps R m \<Longrightarrow> (\<And>x. keeps R (f x)) \<Longrightarrow> keeps R (bindM m f)"
  by (rule k_after) (auto simp: keeps_def)

lemma k_andThen: "keeps R m \<Longrightarrow> keeps R n \<Longrightarrow> keeps R (andThen m n)"
  by (simp add: andThen_def k_bindM)

lemma k_catchM:
  assumes "keeps R m" "\<And>e. keeps R (h e)"
  shows "keeps R (catchM m h)"
  unfolding keeps_def
proof
  fix s
  have "R s (snd (m s))" using assms(1) by (simp add: keeps_def)
  moreover have "R t (snd (h e t))" for e t using assms(2) by (simp add: keeps_def)
  ultimately show "R s (snd (catchM m h s))"
    by (auto simp: catchM_def intro: R_trans split: prod.splits sum.splits)
qed

lemma k_outcome: "keeps R m \<Longrightarrow> keeps R (outcome m)"
  by (auto simp: keeps_wp wp_simps)

lemma k_orElse: "keeps R m \<Longrightarrow> keeps R (orElse m x)"
  by (simp add: orElse_def k_catchM k_ret)

lemma k_whenM: "(b \<Longrightarrow> keeps R m) \<Longrightarrow> keeps R (whenM b m)"
  by (simp add: whenM_def k_ret)

lemma k_liftE: "keeps R (liftE r)"
  by (cases r) (simp_all add: liftE_def k_ret k_throw)

lemma k_bothM: "keeps R m \<Longrightarrow> keeps R n \<Longrightarrow> keeps R (bothM m n)"
  by (simp add: bothM_def k_bindM k_outcome k_liftE k_ret)

lemma k_each: "(\<And>x. x \<in> set xs \<Longrightarrow> keeps R (run x)) \<Longrightarrow> keeps R (eachInOrder run xs)"
  by (induction xs) (auto intro: k_ret k_andThen)

lemma k_map: "(\<And>x. x \<in> set xs \<Longrightarrow> keeps R (run x)) \<Longrightarrow> keeps R (mapInOrder run xs)"
  by (induction xs) (auto intro: k_ret k_bindM)

lemma k_if: "(b \<Longrightarrow> keeps R m) \<Longrightarrow> (\<not> b \<Longrightarrow> keeps R n) \<Longrightarrow> keeps R (if b then m else n)"
  by simp

lemma k_option: "(v = None \<Longrightarrow> keeps R m) \<Longrightarrow> (\<And>x. v = Some x \<Longrightarrow> keeps R (f x)) \<Longrightarrow>
    keeps R (case v of None \<Rightarrow> m | Some x \<Rightarrow> f x)"
  by (cases v) auto

lemma k_prod: "(\<And>x y. v = (x, y) \<Longrightarrow> keeps R (f x y)) \<Longrightarrow> keeps R (case v of (x, y) \<Rightarrow> f x y)"
  by (cases v) auto

lemma k_sum: "(\<And>x. v = Inl x \<Longrightarrow> keeps R (f x)) \<Longrightarrow> (\<And>x. v = Inr x \<Longrightarrow> keeps R (g x)) \<Longrightarrow>
    keeps R (case v of Inl x \<Rightarrow> f x | Inr x \<Rightarrow> g x)"
  by (cases v) auto

lemmas k_intros = k_ret k_throw k_bindM k_andThen k_catchM k_outcome k_orElse k_whenM k_liftE
  k_bothM k_each k_map k_if k_option k_prod k_sum

end

end
