(* ===== verification/Json.thy ===== *)
theory Json imports Prelude begin

text \<open>
  Parsed JSON as the program narrows it: the body of a Stripe event and the answers of Wizarr.
  An absent key reads as \<open>None\<close>. Numbers are integers: every number the program reads off
  Stripe or Wizarr (amounts in minor units, attempt counts, epoch seconds, record ids) is one.
  The narrowing helpers are \<open>libs/server-common/src/records.ts\<close> and the readers at the top
  of \<open>apps/stripe-bridge/src/webhook/handlers.ts\<close>.
\<close>

datatype json =
    JNull
  | JBool bool
  | JNum int
  | JStr string
  | JArr "json list"
  | JObj "(string \<times> json) list"

type_synonym json_object = "(string \<times> json) list"

fun isRecord :: "json \<Rightarrow> bool" where
  "isRecord (JObj _) = True"
| "isRecord _ = False"

fun fields_of :: "json \<Rightarrow> json_object option" where
  "fields_of (JObj kvs) = Some kvs"
| "fields_of _ = None"

definition field :: "json_object \<Rightarrow> string \<Rightarrow> json option" where
  \<comment> \<open>\<open>obj[key]\<close>; \<open>None\<close> is \<open>undefined\<close>\<close>
  "field obj key = map_of obj key"

text \<open>A field that is a non-empty string, or null.\<close>

definition truthyText :: "json_object \<Rightarrow> string \<Rightarrow> string option" where
  "truthyText obj key = (case field obj key of
     Some (JStr s) \<Rightarrow> if s = [] then None else Some s
   | _ \<Rightarrow> None)"

text \<open>A nested object, or an empty one when absent or not an object.\<close>

definition nested :: "json_object \<Rightarrow> string \<Rightarrow> json_object" where
  "nested obj key = (case field obj key of Some (JObj kvs) \<Rightarrow> kvs | _ \<Rightarrow> [])"

definition num_field :: "json_object \<Rightarrow> string \<Rightarrow> int option" where
  "num_field obj key = (case field obj key of Some (JNum n) \<Rightarrow> Some n | _ \<Rightarrow> None)"

definition str_field :: "json_object \<Rightarrow> string \<Rightarrow> string option" where
  "str_field obj key = (case field obj key of Some (JStr s) \<Rightarrow> Some s | _ \<Rightarrow> None)"

lemma truthyText_nonempty: "truthyText obj key = Some s \<Longrightarrow> s \<noteq> []"
  by (auto simp: truthyText_def split: option.splits json.splits if_splits)

lemma truthyText_str_field: "truthyText obj key = nonempty (str_field obj key)"
  by (auto simp: truthyText_def str_field_def nonempty_def split: option.splits json.splits)

lemma nested_absent [simp]: "field obj key = None \<Longrightarrow> nested obj key = []"
  by (simp add: nested_def)


subsection \<open>\<open>JSON.stringify\<close>\<close>

definition hex_digit :: "nat \<Rightarrow> char" where
  "hex_digit d = (if d < 10 then digit_char d else char_of (87 + d))"

definition json_char :: "char \<Rightarrow> string" where
  "json_char c =
     (if c = CHR 0x22 then [CHR 0x5C, CHR 0x22] else if c = CHR 0x5C then [CHR 0x5C, CHR 0x5C]
      else if code_of c = 8 then [CHR 0x5C, CHR ''b''] else if code_of c = 9 then [CHR 0x5C, CHR ''t'']
      else if code_of c = 10 then [CHR 0x5C, CHR ''n''] else if code_of c = 12 then [CHR 0x5C, CHR ''f'']
      else if code_of c = 13 then [CHR 0x5C, CHR ''r'']
      else if code_of c < 32 then CHR 0x5C # ''u00'' @ [hex_digit (code_of c div 16), hex_digit (code_of c mod 16)]
      else [c])"

definition json_string :: "string \<Rightarrow> string" where
  "json_string s = [CHR 0x22] @ concat (map json_char s) @ [CHR 0x22]"

fun stringify :: "json \<Rightarrow> string" where
  "stringify JNull = ''null''"
| "stringify (JBool v) = (if v then ''true'' else ''false'')"
| "stringify (JNum n) = show_int n"
| "stringify (JStr s) = json_string s"
| "stringify (JArr xs) = ''['' @ joined '','' (map stringify xs) @ '']''"
| "stringify (JObj kvs) = [CHR 0x7B] @ joined '','' (map (\<lambda>(k, v). json_string k @ '':'' @ stringify v) kvs) @ [CHR 0x7D]"

definition shown :: "json option \<Rightarrow> string" where
  \<comment> \<open>how a template shows \<open>JSON.stringify(value)\<close>\<close>
  "shown v = (case v of Some j \<Rightarrow> stringify j | None \<Rightarrow> ''undefined'')"


subsection \<open>\<open>JSON.stringify\<close> loses nothing\<close>

text \<open>Reading one escaped character back; texts of strings, and of arrays and objects of strings,
  determine what they were made from.\<close>

definition unhex :: "char \<Rightarrow> nat" where
  "unhex h = (if code_of h < 58 then code_of h - 48 else code_of h - 87)"

fun unescape :: "string \<Rightarrow> (char \<times> string) option" where
  "unescape [] = None"
| "unescape (c # r) = (if c \<noteq> CHR 0x5C then Some (c, r)
     else (case r of
         [] \<Rightarrow> None
       | d # r' \<Rightarrow>
           if d = CHR 0x22 \<or> d = CHR 0x5C then Some (d, r')
           else if d = CHR ''b'' then Some (char_of (8 :: nat), r') else if d = CHR ''t'' then Some (char_of (9 :: nat), r')
           else if d = CHR ''n'' then Some (char_of (10 :: nat), r') else if d = CHR ''f'' then Some (char_of (12 :: nat), r')
           else if d = CHR ''r'' then Some (char_of (13 :: nat), r')
           else (case r' of _ # _ # h # l # r'' \<Rightarrow> Some (char_of (16 * unhex h + unhex l), r'') | _ \<Rightarrow> None)))"

lemma char_of_code [simp]: "char_of (code_of c) = c"
  by (simp add: code_of_def)

lemma unhex_digit: "d < 16 \<Longrightarrow> unhex (hex_digit d) = d"
  by (auto simp: unhex_def hex_digit_def digit_char_def code_of_def)

lemma code_of_eq: "code_of c = n \<Longrightarrow> c = char_of n"
  by (metis char_of_code)

lemma unescape_char: "unescape (json_char c @ r) = Some (c, r)"
proof (cases "32 \<le> code_of c")
  case True
  then show ?thesis by (auto simp: json_char_def)
next
  case False
  then have ne: "c \<noteq> CHR 0x22" "c \<noteq> CHR 0x5C" by (auto simp: code_of_def)
  have "16 * (code_of c div 16) + code_of c mod 16 = code_of c" by simp
  then have "unescape (json_char c @ r) = Some (char_of (code_of c), r)"
    using False unhex_digit [of "code_of c div 16"] unhex_digit [of "code_of c mod 16"]
    by (simp add: json_char_def ne del: char_of_code)
  then show ?thesis by simp
qed

lemma json_char_prefix: "json_char c @ r = json_char d @ r' \<Longrightarrow> c = d \<and> r = r'"
proof -
  assume "json_char c @ r = json_char d @ r'"
  then have "Some (c, r) = Some (d, r')" by (metis unescape_char)
  then show ?thesis by simp
qed

lemma json_char_start: "CHR 0x22 # r = json_char c @ r' \<longleftrightarrow> False" "json_char c @ r' = CHR 0x22 # r \<longleftrightarrow> False"
  by (auto simp: json_char_def code_of_def)

lemma json_chars_prefix:
  "concat (map json_char s) @ CHR 0x22 # r = concat (map json_char t) @ CHR 0x22 # r' \<Longrightarrow> s = t \<and> r = r'"
proof (induction s arbitrary: t)
  case Nil
  then show ?case by (cases t) (simp_all add: json_char_start)
next
  case (Cons c s)
  show ?case
  proof (cases t)
    case Nil
    then show ?thesis using Cons.prems by (simp add: json_char_start)
  next
    case (Cons d u)
    then have "json_char c @ concat (map json_char s) @ CHR 0x22 # r = json_char d @ concat (map json_char u) @ CHR 0x22 # r'"
      using Cons.prems by simp
    from json_char_prefix [OF this] show ?thesis using Cons.IH [of u] Cons by simp
  qed
qed

text \<open>A printer whose texts can be told from what follows them.\<close>

definition self_delimiting :: "('a \<Rightarrow> string) \<Rightarrow> 'a set \<Rightarrow> bool" where
  "self_delimiting p A \<longleftrightarrow> (\<forall>x\<in>A. \<forall>y\<in>A. \<forall>r r'. p x @ r = p y @ r' \<longrightarrow> x = y \<and> r = r')"

lemma delimitsD: "self_delimiting p A \<Longrightarrow> p x @ r = p y @ r' \<Longrightarrow> x \<in> A \<Longrightarrow> y \<in> A \<Longrightarrow> x = y \<and> r = r'"
  unfolding self_delimiting_def by blast

lemma json_string_delimits: "self_delimiting json_string A"
proof -
  have "s = t \<and> r = r'" if "json_string s @ r = json_string t @ r'" for s t r r'
    using that json_chars_prefix [of s r t r'] by (simp add: json_string_def)
  then show ?thesis unfolding self_delimiting_def by blast
qed

lemma delimits_pair:
  assumes "self_delimiting p A" "self_delimiting q B"
  shows "self_delimiting (\<lambda>(k, v). p k @ m @ q v) (A \<times> B)"
proof -
  have one: "k = k' \<and> v = v' \<and> r = r'"
    if in_sets: "k \<in> A" "v \<in> B" "k' \<in> A" "v' \<in> B"
      and eq: "(p k @ m @ q v) @ r = (p k' @ m @ q v') @ r'" for k v k' v' r r'
  proof -
    have "p k @ (m @ q v @ r) = p k' @ (m @ q v' @ r')" using eq by simp
    from delimitsD [OF assms(1) this] in_sets have k: "k = k'" "q v @ r = q v' @ r'" by simp_all
    with delimitsD [OF assms(2) k(2)] in_sets show ?thesis by simp
  qed
  show ?thesis unfolding self_delimiting_def Ball_def split_paired_All mem_Times_iff
    by (simp, intro allI impI, elim conjE, rule one, assumption+, simp)
qed

text \<open>Items separated by a mark and closed by another one are read back one by one.\<close>

lemma marked_items:
  assumes "self_delimiting p A" "mark \<noteq> close" "set xs \<subseteq> A" "set ys \<subseteq> A"
    "concat (map (\<lambda>x. mark # p x) xs) @ close # r = concat (map (\<lambda>x. mark # p x) ys) @ close # r'"
  shows "xs = ys"
  using assms(3-)
proof (induction xs arbitrary: ys)
  case Nil
  then show ?case using assms(2) by (cases ys) auto
next
  case (Cons x xs)
  obtain y zs where ys: "ys = y # zs" using Cons.prems assms(2) by (cases ys) auto
  have "p x @ (concat (map (\<lambda>x. mark # p x) xs) @ close # r) = p y @ (concat (map (\<lambda>x. mark # p x) zs) @ close # r')"
    using Cons.prems ys by simp
  from delimitsD [OF assms(1) this] Cons.prems ys Cons.IH [of zs] show ?case by simp
qed

lemma joined_items:
  assumes "self_delimiting p A" "mark \<noteq> close" "set xs \<subseteq> A" "set ys \<subseteq> A" "\<And>x r. p x \<noteq> close # r"
    "joined [mark] (map p xs) @ [close] = joined [mark] (map p ys) @ [close]" "\<And>x. p x \<noteq> []"
  shows "xs = ys"
proof (cases "xs = [] \<or> ys = []")
  case True
  have start: "p x @ u \<noteq> [close]" for x u using assms(5) [of x] assms(7) [of x] by (cases "p x") auto
  have "joined [mark] (map p zs) @ [close] = [close] \<Longrightarrow> zs = []" for zs
    using start by (cases zs) (auto simp: joined_def)
  moreover have "joined [mark] (map p []) = []" by (simp add: joined_def)
  ultimately show ?thesis using True assms(6) by (metis append_Nil)
next
  case False
  then obtain x us y vs where xy: "xs = x # us" "ys = y # vs" by (meson neq_Nil_conv)
  then have "mark # joined [mark] (map p xs) = concat (map (\<lambda>x. mark # p x) xs)"
    "mark # joined [mark] (map p ys) = concat (map (\<lambda>x. mark # p x) ys)"
    by (simp_all add: joined_def comp_def)
  then have "concat (map (\<lambda>x. mark # p x) xs) @ close # [] = concat (map (\<lambda>x. mark # p x) ys) @ close # []"
    using assms(6) by (metis append_Cons)
  then show ?thesis using marked_items [OF assms(1-4)] by blast
qed

end
