(* ===== verification/Tiers.thy ===== *)
theory Tiers imports Effects Json begin

text \<open>
  \<open>apps/stripe-bridge/src/tiers.ts\<close>: which libraries a paid tier grants, resolved from the
  live Wizarr library list, and the health checks over that list. Log lines are left out.

  A field that may be missing or null is \<open>None\<close>; the source reads both the same way. The
  objects keyed by tier or server are association lists in insertion order.
\<close>

subsection \<open>Tiers and their names\<close>

datatype tier = Bronze | Silver | Gold | Youth

definition TIERS :: "tier list" where
  "TIERS = [Bronze, Silver, Gold, Youth]"

fun tier_name :: "tier \<Rightarrow> string" where
  "tier_name Bronze = ''bronze''"
| "tier_name Silver = ''silver''"
| "tier_name Gold = ''gold''"
| "tier_name Youth = ''youth''"

definition tier_of_name :: "string \<Rightarrow> tier option" where
  \<comment> \<open>\<open>isTier\<close>, with the tier it names\<close>
  "tier_of_name s = List.find (\<lambda>t. tier_name t = s) TIERS"

definition isTier :: "string \<Rightarrow> bool" where
  "isTier s \<longleftrightarrow> tier_of_name s \<noteq> None"

definition LEGACY_TIER_ALIASES :: "(string \<times> tier) list" where
  "LEGACY_TIER_ALIASES = [(''kids'', Youth)]"

definition canonicalTier :: "string option \<Rightarrow> tier option" where
  "canonicalTier raw = (case raw of
     None \<Rightarrow> None
   | Some r \<Rightarrow> (case map_of LEGACY_TIER_ALIASES r of Some t \<Rightarrow> Some t | None \<Rightarrow> tier_of_name r))"

definition normalizeTier :: "json option \<Rightarrow> tier" where
  "normalizeTier raw =
     (case canonicalTier (case raw of Some (JStr s) \<Rightarrow> Some (toLowerCase (trim s)) | _ \<Rightarrow> None) of
        None \<Rightarrow> Bronze
      | Some t \<Rightarrow> t)"

text \<open>Tiers sort by their names (\<open>TIERS.toSorted()\<close>).\<close>

instantiation tier :: linorder
begin

definition less_eq_tier :: "tier \<Rightarrow> tier \<Rightarrow> bool" where
  "less_eq_tier s t \<longleftrightarrow> tier_name s \<le> tier_name t"

definition less_tier :: "tier \<Rightarrow> tier \<Rightarrow> bool" where
  "less_tier s t \<longleftrightarrow> tier_name s < tier_name t"

instance
proof
  fix s t u :: tier
  have inj: "tier_name s = tier_name t \<Longrightarrow> s = t" by (cases s; cases t) simp_all
  show "s < t \<longleftrightarrow> s \<le> t \<and> \<not> t \<le> s"
    unfolding less_eq_tier_def less_tier_def by (rule less_le_not_le)
  show "s \<le> s" unfolding less_eq_tier_def by (rule order_refl)
  show "s \<le> t \<Longrightarrow> t \<le> u \<Longrightarrow> s \<le> u" unfolding less_eq_tier_def by (rule order_trans)
  show "s \<le> t \<Longrightarrow> t \<le> s \<Longrightarrow> s = t" unfolding less_eq_tier_def by (rule inj) (rule order_antisym)
  show "s \<le> t \<or> t \<le> s" unfolding less_eq_tier_def by (rule linear)
qed

end

subsection \<open>Library rows\<close>

datatype external_id = ExtText string | ExtNum int

record library =
  lib_id :: int
  lib_name :: "string option"
  lib_server_id :: int
  lib_server_name :: "string option"
  lib_enabled :: "bool option"
  lib_external_id :: "external_id option"

fun private_name :: "string \<Rightarrow> bool" where
  \<comment> \<open>\<open>PRIVATE_NAME_RE = /^9\d\./\<close>\<close>
  "private_name (a # b # c # _) = (a = CHR ''9'' \<and> is_digit b \<and> c = CHR ''.'')"
| "private_name _ = False"

definition strip_prefix :: "string \<Rightarrow> string" where
  \<comment> \<open>\<open>replace(LIBRARY_PREFIX_RE, '')\<close> with \<open>LIBRARY_PREFIX_RE = /^\d+\.\s*/\<close>\<close>
  "strip_prefix s = (let rest = dropWhile is_digit s in
     if takeWhile is_digit s \<noteq> [] \<and> starts_with ''.'' rest then dropWhile is_space (tl rest) else s)"

definition RETIRED_SERVERS :: "string list" where
  "RETIRED_SERVERS = [''Caraxes'']"

definition YOUTH_LIBRARY_TITLES :: "string list" where
  "YOUTH_LIBRARY_TITLES = [''Family Movies'', ''4K Family Movies'', ''Kid Shows'']"

definition libraryTitle :: "library \<Rightarrow> string" where
  "libraryTitle lib = strip_prefix (text_or_empty (lib_name lib))"

definition is4k :: "library \<Rightarrow> bool" where
  "is4k lib \<longleftrightarrow> starts_with ''4K'' (libraryTitle lib)"

definition isPrivate :: "library \<Rightarrow> bool" where
  "isPrivate lib \<longleftrightarrow> private_name (text_or_empty (lib_name lib))"

definition isOnShareServer :: "library \<Rightarrow> bool" where
  "isOnShareServer lib \<longleftrightarrow> (case nonempty (lib_server_name lib) of
     None \<Rightarrow> False | Some server \<Rightarrow> server \<notin> set RETIRED_SERVERS)"

subsection \<open>Tier rules\<close>

record tier_rule =
  tr_downloads :: bool
  tr_titles :: "string list option"
  tr_wants :: "library \<Rightarrow> bool"

definition everything :: "library \<Rightarrow> bool" where
  "everything lib = True"

definition TIER_RULES :: "tier \<Rightarrow> tier_rule" where
  "TIER_RULES t = (case t of
     Bronze \<Rightarrow> \<lparr>tr_downloads = False, tr_titles = None, tr_wants = (\<lambda>lib. \<not> is4k lib)\<rparr>
   | Silver \<Rightarrow> \<lparr>tr_downloads = False, tr_titles = None, tr_wants = everything\<rparr>
   | Gold \<Rightarrow> \<lparr>tr_downloads = True, tr_titles = None, tr_wants = everything\<rparr>
   | Youth \<Rightarrow> \<lparr>tr_downloads = True, tr_titles = Some YOUTH_LIBRARY_TITLES,
       tr_wants = (\<lambda>lib. libraryTitle lib \<in> set YOUTH_LIBRARY_TITLES)\<rparr>)"

definition tierDownloads :: "tier \<Rightarrow> bool" where
  "tierDownloads t = tr_downloads (TIER_RULES t)"

definition tierWants :: "tier \<Rightarrow> library \<Rightarrow> bool" where
  "tierWants t lib = tr_wants (TIER_RULES t) lib"

definition allShareServers :: "library list \<Rightarrow> string list" where
  "allShareServers libs = js_set (map (\<lambda>lib. text_or_empty (lib_server_name lib)) (filter isOnShareServer libs))"

text \<open>The rule to apply is a parameter, as in the source, where tests hand in a broken one.\<close>

definition shareableLibraries :: "(tier \<Rightarrow> library \<Rightarrow> bool) \<Rightarrow> tier \<Rightarrow> library list \<Rightarrow> library list" where
  "shareableLibraries rule t libs =
     filter (\<lambda>lib. isOnShareServer lib \<and> \<not> isPrivate lib)
       (filter (\<lambda>lib. lib_enabled lib = Some True \<and> rule t lib) libs)"

definition missingTitles :: "tier \<Rightarrow> library list \<Rightarrow> string list" where
  "missingTitles t shareable = sort (filter (\<lambda>title. title \<notin> set (map libraryTitle shareable))
     (case tr_titles (TIER_RULES t) of Some ts \<Rightarrow> ts | None \<Rightarrow> []))"

text \<open>The non-empty server names of some rows, each once.\<close>

definition server_names_of :: "library list \<Rightarrow> string list" where
  "server_names_of libs = js_set (somes (map (\<lambda>lib. nonempty (lib_server_name lib)) libs))"

definition tierServerLibraries :: "tier \<Rightarrow> library list \<Rightarrow> (string \<times> string list) list" where
  "tierServerLibraries t libs = (let shareable = shareableLibraries tierWants t libs in
     map (\<lambda>server. (server,
         sort (map (\<lambda>lib. text_or_empty (lib_name lib))
           (filter (\<lambda>lib. lib_server_name lib = Some server) shareable))))
       (server_names_of shareable))"

record tier_scope =
  library_ids :: "int list"
  server_ids :: "int list"
  server_names :: "string list"
  allow_downloads :: bool

definition resolveTierAccess :: "(tier \<Rightarrow> library \<Rightarrow> bool) \<Rightarrow> tier \<Rightarrow> library list \<Rightarrow> tier_scope" where
  "resolveTierAccess rule t libs = (let shareable = shareableLibraries rule t libs in
     \<lparr>library_ids = map lib_id shareable,
      server_ids = sort (js_set (map lib_server_id shareable)),
      server_names = sort (server_names_of shareable),
      allow_downloads = tierDownloads t\<rparr>)"

definition tier_problem :: "library list \<Rightarrow> tier \<Rightarrow> (string \<times> string) list" where
  "tier_problem libs t =
     (let shareable = shareableLibraries tierWants t libs in
      if shareable = [] then
        [(tier_name t, ''no libraries resolved on '' @ joined '', '' (sort (allShareServers libs)) @
           '': checkouts for this tier will fail and retry forever'')]
      else let missing = missingTitles t shareable in
        if missing \<noteq> [] then
          [(tier_name t, ''allowlist entries missing across the fleet: '' @ joined '', '' missing)]
        else [])"

definition tierScopeProblems :: "library list \<Rightarrow> (string \<times> string) list" where
  "tierScopeProblems libs = concat (map (tier_problem libs) TIERS)"

subsection \<open>Names Plex no longer answers to\<close>

type_synonym live_sections = "(string \<times> (string \<times> string) list) list"

fun external_key :: "external_id \<Rightarrow> string" where
  \<comment> \<open>\<open>String(externalId)\<close>\<close>
  "external_key (ExtText s) = s"
| "external_key (ExtNum n) = show_int n"

fun checkable_id :: "external_id option \<Rightarrow> external_id option" where
  \<comment> \<open>null, the empty text and 0 name no section\<close>
  "checkable_id None = None"
| "checkable_id (Some (ExtText s)) = (if s = [] then None else Some (ExtText s))"
| "checkable_id (Some (ExtNum n)) = (if n = 0 then None else Some (ExtNum n))"

definition stale_row :: "live_sections \<Rightarrow> library \<Rightarrow> (library \<times> string option) option" where
  "stale_row live lib =
     (let sections = (case lib_server_name lib of Some server \<Rightarrow> map_of live server | None \<Rightarrow> None) in
      if lib_enabled lib \<noteq> Some True \<or> \<not> isOnShareServer lib then None
      else (case (sections, checkable_id (lib_external_id lib)) of
          (Some secs, Some ext) \<Rightarrow>
            (let liveName = map_of secs (external_key ext) in
             if liveName = lib_name lib then None else Some (lib, liveName))
        | _ \<Rightarrow> None))"

definition staleLibraries :: "library list \<Rightarrow> live_sections option \<Rightarrow> (library \<times> string option) list" where
  "staleLibraries libs live = (case live of
     None \<Rightarrow> []
   | Some l \<Rightarrow> if l = [] then [] else somes (map (stale_row l) libs))"

definition serverOf :: "library \<Rightarrow> string" where
  "serverOf lib = option_text ''?'' (nonempty (lib_server_name lib))"

definition withoutStale :: "library list \<Rightarrow> live_sections option \<Rightarrow> library list" where
  "withoutStale libs live =
     (let staleIds = set (map (\<lambda>(lib, _). lib_id lib) (staleLibraries libs live))
      in filter (\<lambda>lib. lib_id lib \<notin> staleIds) libs)"

definition quoted :: "string \<Rightarrow> string" where
  "quoted s = [CHR 0x27] @ s @ [CHR 0x27]"

definition libraryCacheProblems :: "library list \<Rightarrow> live_sections option \<Rightarrow> (string \<times> string) list" where
  "libraryCacheProblems libs live =
     (let stale = staleLibraries libs live in
      map (\<lambda>server. (''wizarr cache on '' @ server,
          joined ''; '' (map (\<lambda>(lib, liveName).
             quoted (text_or_empty (lib_name lib)) @
             (case nonempty liveName of
                Some n \<Rightarrow> '' is now '' @ quoted n @ '' on Plex''
              | None \<Rightarrow> '' is gone from Plex''))
            (filter (\<lambda>(lib, _). serverOf lib = server) stale)) @
          ''. Plex rejects every invite carrying a stale name until the server'' @ [CHR 0x27] @
          ''s libraries are rescanned in Wizarr''))
        (js_set (map (\<lambda>(lib, _). serverOf lib) stale)))"

record server_record =
  rec_id :: int
  rec_server :: "string option"

definition staleRecordIds :: "server_record list \<Rightarrow> string list \<Rightarrow> int list" where
  "staleRecordIds records covered =
     (if list_all (\<lambda>r. case rec_server r of Some s \<Rightarrow> s \<in> set covered | None \<Rightarrow> False) records
      then [] else map rec_id records)"

subsection \<open>Names of tiers\<close>

lemma tier_name_inj [simp]: "tier_name s = tier_name t \<longleftrightarrow> s = t"
  by (cases s; cases t) simp_all

lemma TIERS_all [simp]: "t \<in> set TIERS"
  by (cases t) (simp_all add: TIERS_def)

lemma tier_of_name_name [simp]: "tier_of_name (tier_name t) = Some t"
  by (cases t) (simp_all add: tier_of_name_def TIERS_def)

lemma tier_of_name_Some: "tier_of_name s = Some t \<longleftrightarrow> s = tier_name t"
proof
  assume "tier_of_name s = Some t"
  then show "s = tier_name t" using find_in_set [of _ TIERS t] by (auto simp: tier_of_name_def)
next
  assume "s = tier_name t"
  then show "tier_of_name s = Some t" by simp
qed

lemma canonicalTier_name [simp]: "canonicalTier (Some (tier_name t)) = Some t"
  by (cases t) (simp_all add: canonicalTier_def LEGACY_TIER_ALIASES_def tier_of_name_def TIERS_def)

lemma canonicalTier_Some_iff:
  "canonicalTier (Some s) = Some t \<longleftrightarrow> s = tier_name t \<or> (s = ''kids'' \<and> t = Youth)"
  by (cases t) (auto simp: canonicalTier_def LEGACY_TIER_ALIASES_def tier_of_name_Some)

lemma tier_name_lower [simp]: "toLowerCase (tier_name t) = tier_name t" "trim (tier_name t) = tier_name t"
  by (cases t; simp add: toLowerCase_def lower_char_def code_of_def trim_def is_space_def)+

subsection \<open>Titles\<close>

lemma strip_prefix_prefixed:
  assumes "list_all is_digit ds" "ds \<noteq> []" "list_all is_space sp" "title = [] \<or> \<not> is_space (hd title)"
  shows "strip_prefix (ds @ ''.'' @ sp @ title) = title"
proof -
  have dot: "\<not> is_digit CHR ''.''" by (simp add: is_digit_def code_of_def)
  have "takeWhile is_digit (ds @ ''.'' @ sp @ title) = ds"
    "dropWhile is_digit (ds @ ''.'' @ sp @ title) = ''.'' @ sp @ title"
    using assms(1) dot by (induction ds) simp_all
  moreover have "dropWhile is_space (sp @ title) = title"
    using assms(3,4) by (induction sp) (cases title; simp)+
  ultimately show ?thesis
    using assms(2) by (simp add: strip_prefix_def starts_with_def)
qed

lemma tierWants_title:
  assumes "libraryTitle lib = libraryTitle lib'"
  shows "tierWants t lib = tierWants t lib'"
  using assms by (cases t) (simp_all add: tierWants_def TIER_RULES_def is4k_def everything_def)

subsection \<open>Scopes\<close>

lemma isOnShareServer_iff:
  "isOnShareServer lib \<longleftrightarrow> (\<exists>s. lib_server_name lib = Some s \<and> s \<noteq> [] \<and> s \<noteq> ''Caraxes'')"
  by (auto simp: isOnShareServer_def RETIRED_SERVERS_def nonempty_def split: option.splits if_splits)

lemma set_shareable:
  "set (shareableLibraries rule t libs) =
     {lib \<in> set libs. lib_enabled lib = Some True \<and> rule t lib \<and> isOnShareServer lib \<and> \<not> isPrivate lib}"
  by (auto simp: shareableLibraries_def)

lemma set_server_names_of: "set (server_names_of libs) = {s. s \<noteq> [] \<and> (\<exists>lib\<in>set libs. lib_server_name lib = Some s)}"
  by (auto simp: server_names_of_def image_iff eq_commute [of "Some _"])

lemma sort_is_sorted_list_of_set: "distinct xs \<Longrightarrow> sort xs = sorted_list_of_set (set xs)"
  by (simp add: sorted_list_of_set_sort_remdups distinct_remdups_id)

lemma resolveTierAccess_sel [simp]:
  "library_ids (resolveTierAccess rule t libs) = map lib_id (shareableLibraries rule t libs)"
  "server_ids (resolveTierAccess rule t libs) = sort (js_set (map lib_server_id (shareableLibraries rule t libs)))"
  "server_names (resolveTierAccess rule t libs) = sort (server_names_of (shareableLibraries rule t libs))"
  "allow_downloads (resolveTierAccess rule t libs) = tierDownloads t"
  by (simp_all add: resolveTierAccess_def Let_def)

text \<open>Whatever rule a tier is given, an invite's scope holds only ids of listed libraries that
  are enabled, sit on a named server other than the retired one, and are not in the never-share
  set of \<open>9X.\<close> names.\<close>

theorem scope_never_private_or_retired:
  "set (library_ids (resolveTierAccess rule t libs)) \<subseteq>
     lib_id ` {lib \<in> set libs. lib_enabled lib = Some True \<and> \<not> private_name (text_or_empty (lib_name lib)) \<and>
       lib_server_name lib \<notin> {None, Some [], Some ''Caraxes''}}"
  by (auto simp: set_shareable isOnShareServer_iff isPrivate_def)

text \<open>The servers of an invite's scope, by id and by name, are exactly the servers of the
  libraries in it, each once and in ascending order.\<close>

theorem scope_servers_exact:
  "server_ids (resolveTierAccess rule t libs) =
     sorted_list_of_set (lib_server_id ` set (shareableLibraries rule t libs)) \<and>
   server_names (resolveTierAccess rule t libs) =
     sorted_list_of_set {s. Some s \<in> lib_server_name ` set (shareableLibraries rule t libs)}"
proof -
  have "set (server_names_of (shareableLibraries rule t libs)) =
      {s. Some s \<in> lib_server_name ` set (shareableLibraries rule t libs)}"
    by (auto simp: set_server_names_of set_shareable isOnShareServer_iff image_iff)
  moreover have "distinct (server_names_of (shareableLibraries rule t libs))"
    by (simp add: server_names_of_def)
  ultimately show ?thesis by (simp add: sort_is_sorted_list_of_set)
qed

text \<open>The paid tiers nest. Silver and gold share the same libraries, bronze exactly those of
  them whose title does not start with \<open>4K\<close>, and youth exactly those whose title is on its
  allowlist.\<close>

theorem tier_scopes_nest:
  "shareableLibraries tierWants Gold libs = shareableLibraries tierWants Silver libs \<and>
   shareableLibraries tierWants Bronze libs =
     filter (\<lambda>lib. take 2 (libraryTitle lib) \<noteq> ''4K'') (shareableLibraries tierWants Silver libs) \<and>
   shareableLibraries tierWants Youth libs =
     filter (\<lambda>lib. libraryTitle lib \<in> {''Family Movies'', ''4K Family Movies'', ''Kid Shows''})
       (shareableLibraries tierWants Silver libs)"
  by (auto simp: shareableLibraries_def tierWants_def TIER_RULES_def everything_def is4k_def
      starts_with_def YOUTH_LIBRARY_TITLES_def numeral_2_eq_2 intro!: filter_cong)

lemma missingTitles_Nil_iff:
  "missingTitles t shareable = [] \<longleftrightarrow>
     (\<forall>ts. tr_titles (TIER_RULES t) = Some ts \<longrightarrow> set ts \<subseteq> libraryTitle ` set shareable)"
proof -
  have "sort xs = [] \<longleftrightarrow> xs = []" for xs :: "string list"
    by (metis length_0_conv length_sort)
  then show ?thesis
    by (cases "tr_titles (TIER_RULES t)") (auto simp: missingTitles_def filter_empty_conv)
qed

lemma problems_key_iff:
  "tier_name t \<in> fst ` set (tierScopeProblems libs) \<longleftrightarrow>
     shareableLibraries tierWants t libs = [] \<or>
     missingTitles t (shareableLibraries tierWants t libs) \<noteq> []"
proof -
  let ?broken = "\<lambda>t. shareableLibraries tierWants t libs = [] \<or>
     missingTitles t (shareableLibraries tierWants t libs) \<noteq> []"
  have one: "fst ` set (tier_problem libs u) = (if ?broken u then {tier_name u} else {})" for u
    by (simp add: tier_problem_def Let_def)
  have "fst ` set (tierScopeProblems libs) = (\<Union>u\<in>set TIERS. fst ` set (tier_problem libs u))"
    by (auto simp: tierScopeProblems_def image_UN)
  also have "\<dots> = tier_name ` {u. ?broken u}" unfolding one by (auto split: if_splits)
  finally show ?thesis by (auto simp del: One_nat_def)
qed

text \<open>The scope check reports a tier exactly when the tier resolves to no library at all, or
  is youth and one of its allowlisted titles is nowhere among the libraries it resolves to.\<close>

theorem scope_check_complete:
  "tier_name t \<in> fst ` set (tierScopeProblems libs) \<longleftrightarrow>
     library_ids (resolveTierAccess tierWants t libs) = [] \<or>
     (t = Youth \<and> \<not> set YOUTH_LIBRARY_TITLES \<subseteq> libraryTitle ` set (shareableLibraries tierWants t libs))"
  unfolding problems_key_iff missingTitles_Nil_iff
  by (cases t) (auto simp: TIER_RULES_def)

subsection \<open>Stale rows\<close>

lemma map_of_quiet_row: "stale_row live lib = Some (l, n) \<Longrightarrow> l = lib"
  by (auto simp: stale_row_def Let_def split: if_splits option.splits)

lemma staleLibraries_Some:
  "set (staleLibraries libs (Some live)) = {(lib, n). lib \<in> set libs \<and> live \<noteq> [] \<and> stale_row live lib = Some (lib, n)}"
proof -
  have "x \<in> set (staleLibraries libs (Some live)) \<longleftrightarrow>
      live \<noteq> [] \<and> (\<exists>lib\<in>set libs. stale_row live lib = Some x)" for x
    by (auto simp: staleLibraries_def image_iff eq_commute [of "Some x"])
  then show ?thesis by (auto dest: map_of_quiet_row)
qed

lemma staleLibraries_None [simp]: "staleLibraries libs None = []" "withoutStale libs None = libs"
  by (simp_all add: staleLibraries_def withoutStale_def)

text \<open>After the drop no library is stale any more, the order of the rest is kept, and a
  library is only lost when a row of its id carries a name its Plex section no longer answers
  to.\<close>

theorem without_stale_clean:
  "staleLibraries (withoutStale libs live) live = [] \<and>
   withoutStale libs live =
     filter (\<lambda>lib. lib_id lib \<notin> lib_id ` fst ` set (staleLibraries libs live)) libs"
proof -
  have eq: "withoutStale libs live =
     filter (\<lambda>lib. lib_id lib \<notin> lib_id ` fst ` set (staleLibraries libs live)) libs"
    by (auto simp: withoutStale_def case_prod_beta image_image intro!: filter_cong)
  moreover have "staleLibraries (withoutStale libs live) live = []"
  proof (cases live)
    case None
    then show ?thesis by simp
  next
    case (Some l)
    have "set (staleLibraries (withoutStale libs (Some l)) (Some l)) = {}"
    proof (rule equals0I)
      fix row assume row: "row \<in> set (staleLibraries (withoutStale libs (Some l)) (Some l))"
      obtain lib n where "row = (lib, n)" by (rule prod.exhaust)
      then have stale: "lib \<in> set (withoutStale libs (Some l))" "stale_row l lib = Some (lib, n)" "l \<noteq> []"
        using row by (auto simp: staleLibraries_Some)
      then have "lib \<in> set libs" and gone: "lib_id lib \<notin> lib_id ` fst ` set (staleLibraries libs (Some l))"
        using eq [unfolded Some] by auto
      then have "(lib, n) \<in> set (staleLibraries libs (Some l))"
        using stale by (simp add: staleLibraries_Some)
      then show False using gone by (force simp: image_iff)
    qed
    then show ?thesis using Some by simp
  qed
  ultimately show ?thesis by simp
qed

text \<open>Before an invite re-scopes a person, either nothing has to be disabled, exactly when
  every record sits on a server the new scope covers, or every record has to go.\<close>

theorem stale_record_ids_all_or_none:
  "(staleRecordIds records covered = [] \<or> staleRecordIds records covered = map rec_id records) \<and>
   (staleRecordIds records covered = [] \<longleftrightarrow> rec_server ` set records \<subseteq> Some ` set covered)"
proof -
  have "list_all (\<lambda>r. case rec_server r of Some s \<Rightarrow> s \<in> set covered | None \<Rightarrow> False) records \<longleftrightarrow>
      rec_server ` set records \<subseteq> Some ` set covered"
    by (auto simp: list_all_iff subset_iff split: option.splits)
  then show ?thesis by (auto simp: staleRecordIds_def)
qed

end
