(* ===== verification/Types.thy ===== *)
theory Types imports Tiers begin

text \<open>
  The shapes the bridge's modules hand each other (\<open>apps/stripe-bridge/src/types.ts\<close>). Each
  record keeps the source's fields under a prefix of its own; a field that may be missing or
  null is an option.
\<close>

record wizarr_user =
  usr_id :: int
  usr_username :: "string option"
  usr_email :: "string option"
  usr_server :: "string option"
  usr_expires :: "string option"

record invitation =
  inv_id :: int
  inv_code :: "string option"
  inv_used_by :: "json option"
  inv_server_names :: "string list option"
  inv_expires :: "string option"
  inv_unlimited :: "bool option"

record created_invite =
  ci_code :: string
  ci_url :: string

text \<open>What \<open>createInvite\<close> is asked for; a null \<open>libraryIds\<close> leaves scoping to Wizarr.\<close>

record invite_request =
  rq_server_ids :: "int list"
  rq_expires_in_days :: int
  rq_duration :: string
  rq_unlimited :: bool
  rq_library_ids :: "int list option"
  rq_allow_downloads :: bool

record plex_share =
  ps_all_libraries :: bool
  ps_allow_sync :: bool
  ps_libraries :: "string list"

type_synonym plex_shares = "(string \<times> plex_share) list"
type_synonym plex_access = "(string \<times> plex_shares) list"

text \<open>A subscription; \<open>sub_cancel_at\<close> is in epoch seconds.\<close>

record subscription =
  sub_id :: string
  sub_customer :: string
  sub_status :: string
  sub_cancel_at_period_end :: bool
  sub_cancel_at :: "int option"

record alert =
  al_subject :: string
  al_body :: string

record settings =
  publicInviteBase :: string
  accessDays :: int
  inviteDays :: int
  baselineExpiresDays :: int
  billingPortalUrl :: "string option"

datatype payment_state = PastDue

record customer_row =
  row_customer_id :: "string option"
  row_invite_code :: "string option"
  row_tier :: "tier option"
  row_invited_at :: "string option"
  row_subscribed :: bool
  row_payment_state :: "payment_state option"

record event_row =
  ev_id :: int
  ev_at :: string
  ev_email :: string
  ev_action :: string
  ev_detail :: string

end
