(* ===== verification/Standing.thy ===== *)
theory Standing imports Types begin

text \<open>
  A member's standing (\<open>apps/stripe-bridge/src/standing.ts\<close>): the tag an admin puts on them
  and what it changes; and what a Stripe subscription status means
  (\<open>apps/stripe-bridge/src/subscriptionStatus.ts\<close>).
\<close>

subsection \<open>Tags\<close>

datatype member_tag = Vip | Hvu | Banned

definition MEMBER_TAGS :: "member_tag list" where
  "MEMBER_TAGS = [Vip, Hvu, Banned]"

fun tag_name :: "member_tag \<Rightarrow> string" where
  "tag_name Vip = ''vip''"
| "tag_name Hvu = ''hvu''"
| "tag_name Banned = ''banned''"

definition tag_of_name :: "string \<Rightarrow> member_tag option" where
  \<comment> \<open>\<open>isMemberTag\<close>, with the tag it names\<close>
  "tag_of_name s = List.find (\<lambda>t. tag_name t = s) MEMBER_TAGS"

definition isBanned :: "member_tag option \<Rightarrow> bool" where
  "isBanned tag \<longleftrightarrow> tag = Some Banned"

definition holdsStandingGrant :: "member_tag option \<Rightarrow> bool" where
  "holdsStandingGrant tag \<longleftrightarrow> tag = Some Vip"

definition isTimeBoxed :: "member_tag option \<Rightarrow> bool" where
  "isTimeBoxed tag \<longleftrightarrow> \<not> isBanned tag \<and> \<not> holdsStandingGrant tag"

fun TAG_STRENGTH :: "member_tag \<Rightarrow> nat" where
  "TAG_STRENGTH Banned = 3"
| "TAG_STRENGTH Vip = 2"
| "TAG_STRENGTH Hvu = 1"

definition strongestTag :: "member_tag option list \<Rightarrow> member_tag option" where
  "strongestTag tags = foldl (\<lambda>strongest tag. case tag of
       None \<Rightarrow> strongest
     | Some t \<Rightarrow> (case strongest of
           None \<Rightarrow> tag
         | Some s \<Rightarrow> if TAG_STRENGTH t > TAG_STRENGTH s then tag else strongest))
     None tags"

definition strongestAcross :: "(string \<times> member_tag) list \<Rightarrow> string list \<Rightarrow> member_tag option" where
  "strongestAcross tags addresses = strongestTag (map (map_of tags) addresses)"

text \<open>The tags are ordered by how strongly they speak.\<close>

instantiation member_tag :: linorder
begin

definition less_eq_member_tag :: "member_tag \<Rightarrow> member_tag \<Rightarrow> bool" where
  "less_eq_member_tag s t \<longleftrightarrow> TAG_STRENGTH s \<le> TAG_STRENGTH t"

definition less_member_tag :: "member_tag \<Rightarrow> member_tag \<Rightarrow> bool" where
  "less_member_tag s t \<longleftrightarrow> TAG_STRENGTH s < TAG_STRENGTH t"

instance
proof
  fix s t u :: member_tag
  show "s \<le> t \<Longrightarrow> t \<le> s \<Longrightarrow> s = t" by (cases s; cases t) (simp_all add: less_eq_member_tag_def)
qed (auto simp: less_eq_member_tag_def less_member_tag_def)

end

lemma tag_of_name_name [simp]: "tag_of_name (tag_name t) = Some t"
  by (cases t) (simp_all add: tag_of_name_def MEMBER_TAGS_def)

lemma strongestTag_snoc:
  "strongestTag (tags @ [tag]) = (case tag of None \<Rightarrow> strongestTag tags
     | Some t \<Rightarrow> Some (case strongestTag tags of None \<Rightarrow> t | Some s \<Rightarrow> max s t))"
proof -
  have "s = t" if "TAG_STRENGTH s = TAG_STRENGTH t" for s t
    using that by (cases s; cases t) simp_all
  then show ?thesis
    by (force simp: strongestTag_def max_def less_eq_member_tag_def split: option.splits)
qed

lemma strongestTag_Max:
  "strongestTag tags = (if Some ` UNIV \<inter> set tags = {} then None else Some (Max {t. Some t \<in> set tags}))"
proof (induction tags rule: rev_induct)
  case Nil
  then show ?case by (simp add: strongestTag_def)
next
  case (snoc tag tags)
  have fin: "finite {t. Some t \<in> set tags}"
    by (rule finite_subset [of _ "UNIV"]) (auto intro: finite_subset [of _ "{Vip, Hvu, Banned}"] member_tag.exhaust)
  have ins: "{t. Some t \<in> set (tags @ [Some u])} = insert u {t. Some t \<in> set tags}" for u by auto
  show ?case
  proof (cases tag)
    case None
    then show ?thesis using snoc by (auto simp: strongestTag_snoc)
  next
    case (Some u)
    show ?thesis
    proof (cases "{t. Some t \<in> set tags} = {}")
      case True
      then have "strongestTag tags = None" using snoc by auto
      then show ?thesis using Some ins [of u] True by (auto simp: strongestTag_snoc)
    next
      case False
      then have "strongestTag tags = Some (Max {t. Some t \<in> set tags})" using snoc by auto
      then show ?thesis using Some ins [of u] False fin
        by (auto simp: strongestTag_snoc Max_insert max.commute)
    qed
  qed
qed

lemma strongestAcross_Some:
  "strongestAcross tags addresses = Some t \<longleftrightarrow>
     t \<in> {t. \<exists>a\<in>set addresses. map_of tags a = Some t} \<and>
     {t. \<exists>a\<in>set addresses. map_of tags a = Some t} \<subseteq> {u. TAG_STRENGTH u \<le> TAG_STRENGTH t}"
  and strongestAcross_None: "strongestAcross tags addresses = None \<longleftrightarrow> (\<forall>a\<in>set addresses. map_of tags a = None)"
proof -
  let ?T = "{t. \<exists>a\<in>set addresses. map_of tags a = Some t}"
  have fin: "finite ?T"
    by (rule finite_subset [of _ "{Vip, Hvu, Banned}"]) (auto intro: member_tag.exhaust)
  have val: "strongestAcross tags addresses = (if ?T = {} then None else Some (Max ?T))"
  proof -
    have "{t. Some t \<in> set (map (map_of tags) addresses)} = ?T" by (auto simp: image_iff) metis
    moreover have "Some ` UNIV \<inter> set (map (map_of tags) addresses) = {} \<longleftrightarrow> ?T = {}"
      by (auto simp: image_iff) metis+
    ultimately show ?thesis by (simp add: strongestAcross_def strongestTag_Max)
  qed
  show "strongestAcross tags addresses = None \<longleftrightarrow> (\<forall>a\<in>set addresses. map_of tags a = None)"
    unfolding val by (auto simp flip: not_Some_eq)
  show "strongestAcross tags addresses = Some t \<longleftrightarrow> t \<in> ?T \<and> ?T \<subseteq> {u. TAG_STRENGTH u \<le> TAG_STRENGTH t}"
  proof (cases "?T = {}")
    case True
    then show ?thesis using val by simp
  next
    case False
    then have "strongestAcross tags addresses = Some t \<longleftrightarrow> Max ?T = t"
      unfolding val by (simp only: if_False option.inject)
    also have "\<dots> \<longleftrightarrow> t \<in> ?T \<and> (\<forall>u\<in>?T. u \<le> t)"
      using Max_eq_iff [OF fin False] by simp
    finally show ?thesis by (auto simp: less_eq_member_tag_def)
  qed
qed

lemma TAG_STRENGTH_top: "TAG_STRENGTH u \<le> 3" "TAG_STRENGTH u \<le> 2 \<longleftrightarrow> u \<noteq> Banned"
  by (cases u; simp)+

lemma banned_across: "isBanned (strongestAcross tags addresses) \<longleftrightarrow> (\<exists>a\<in>set addresses. map_of tags a = Some Banned)"
  unfolding isBanned_def strongestAcross_Some using TAG_STRENGTH_top by auto

lemma vip_across: "holdsStandingGrant (strongestAcross tags addresses) \<longleftrightarrow>
    (\<exists>a\<in>set addresses. map_of tags a = Some Vip) \<and> Some Banned \<notin> map_of tags ` set addresses"
  unfolding holdsStandingGrant_def strongestAcross_Some using TAG_STRENGTH_top
  by (auto simp: image_iff dest!: sym [of "Some Banned"])

text \<open>The tag that governs a person is the strongest tag any of their addresses carries: null
  exactly when none is tagged, and otherwise one of their tags that no other outranks. In
  particular they count as banned exactly when some address of theirs is banned, and as holding a
  standing grant exactly when some address is vip and none is banned.\<close>

theorem strongest_tag_governs:
  "(strongestAcross tags addresses = None \<longleftrightarrow> map_of tags ` set addresses \<subseteq> {None}) \<and>
   (\<forall>t. strongestAcross tags addresses = Some t \<longleftrightarrow>
      t \<in> {t. \<exists>a\<in>set addresses. map_of tags a = Some t} \<and>
      {t. \<exists>a\<in>set addresses. map_of tags a = Some t} \<subseteq> {u. TAG_STRENGTH u \<le> TAG_STRENGTH t}) \<and>
   (isBanned (strongestAcross tags addresses) \<longleftrightarrow> (\<exists>a\<in>set addresses. map_of tags a = Some Banned)) \<and>
   (holdsStandingGrant (strongestAcross tags addresses) \<longleftrightarrow>
      (\<exists>a\<in>set addresses. map_of tags a = Some Vip) \<and> Some Banned \<notin> map_of tags ` set addresses)"
proof -
  have "map_of tags ` set addresses \<subseteq> {None} \<longleftrightarrow> (\<forall>a\<in>set addresses. map_of tags a = None)" by auto
  then show ?thesis
    by (intro conjI allI) (simp_all only: banned_across vip_across strongestAcross_Some strongestAcross_None)
qed

subsection \<open>Subscription statuses\<close>

record status_rule =
  st_live :: bool
  status_rank :: nat
  st_payment :: "payment_state option"

definition STATUS_RULES :: "(string \<times> status_rule) list" where
  "STATUS_RULES =
     [(''active'', \<lparr>st_live = True, status_rank = 2, st_payment = None\<rparr>),
      (''trialing'', \<lparr>st_live = True, status_rank = 2, st_payment = None\<rparr>),
      (''past_due'', \<lparr>st_live = False, status_rank = 1, st_payment = Some PastDue\<rparr>),
      (''unpaid'', \<lparr>st_live = False, status_rank = 1, st_payment = Some PastDue\<rparr>)]"

definition statusRule :: "string \<Rightarrow> status_rule option" where
  "statusRule status = map_of STATUS_RULES status"

definition isLiveStatus :: "string \<Rightarrow> bool" where
  "isLiveStatus status = (case statusRule status of Some r \<Rightarrow> st_live r | None \<Rightarrow> False)"

definition isDunningStatus :: "string \<Rightarrow> bool" where
  "isDunningStatus status \<longleftrightarrow> (case statusRule status of
     Some r \<Rightarrow> st_payment r = Some PastDue | None \<Rightarrow> False)"

definition rank :: "string option \<Rightarrow> nat" where
  "rank status = (case statusRule (option_text '''' status) of Some r \<Rightarrow> status_rank r | None \<Rightarrow> 0)"

definition best_status :: "string list \<Rightarrow> string option" where
  "best_status statuses =
     foldl (\<lambda>current status. if rank (Some status) > rank current then Some status else current) None statuses"

definition customer_statuses :: "subscription list \<Rightarrow> string \<Rightarrow> string list" where
  "customer_statuses subs customer = map sub_status (filter (\<lambda>s. sub_customer s = customer) subs)"

text \<open>What \<open>stripeStatusByCustomer\<close> makes of Stripe's answer.\<close>

definition stripeStatusByCustomer :: "subscription list \<Rightarrow> (string \<times> string) list" where
  "stripeStatusByCustomer subs = js_map (somes (map (\<lambda>customer.
       map_option (\<lambda>status. (customer, status)) (best_status (customer_statuses subs customer)))
     (js_set (map sub_customer subs))))"

lemma rank_None [simp]: "rank None = 0"
  by (simp add: rank_def option_text_def statusRule_def STATUS_RULES_def)

lemma best_status_snoc:
  "best_status (statuses @ [s]) =
     (if rank (Some s) > rank (best_status statuses) then Some s else best_status statuses)"
  by (simp add: best_status_def)

lemma best_status_bound:
  "(\<forall>u\<in>set statuses. rank (Some u) \<le> rank (best_status statuses)) \<and>
   best_status statuses \<in> insert None {Some s |s. s \<in> set statuses \<and> rank (Some s) > 0}"
proof (induction statuses rule: rev_induct)
  case Nil
  then show ?case by (simp add: best_status_def)
next
  case (snoc s statuses)
  then show ?case
    by (cases "rank (Some s) > rank (best_status statuses)")
      (auto simp: best_status_snoc intro: order_trans less_imp_le)
qed

lemma best_status_Some:
  "best_status statuses = Some s \<Longrightarrow>
     s \<in> set statuses \<and> rank (Some s) > 0 \<and> (\<forall>u\<in>set statuses. rank (Some u) \<le> rank (Some s))"
  using best_status_bound [of statuses] by auto

lemma best_status_None: "best_status statuses = None \<longleftrightarrow> (\<forall>u\<in>set statuses. rank (Some u) = 0)"
  using best_status_bound [of statuses] by (cases "best_status statuses") auto

lemma statuses_simps:
  "isLiveStatus s \<longleftrightarrow> s = ''active'' \<or> s = ''trialing''"
  "isDunningStatus s \<longleftrightarrow> s = ''past_due'' \<or> s = ''unpaid''"
  "rank (Some s) = (if isLiveStatus s then 2 else if isDunningStatus s then 1 else 0)"
  by (auto simp: isLiveStatus_def isDunningStatus_def rank_def option_text_def statusRule_def
      STATUS_RULES_def split: option.splits)

lemma map_of_status_entries:
  assumes "distinct customers"
  shows "map_of (js_map (somes (map (\<lambda>c. map_option (\<lambda>s. (c, s)) (f c)) customers))) c =
     (if c \<in> set customers then f c else None)"
proof -
  have keys: "fst ` set (somes (map (\<lambda>c. map_option (\<lambda>s. (c, s)) (f c)) customers)) \<subseteq> set customers" for customers
    by (auto dest!: sym [of "Some _"] simp: image_iff)
  have dk: "distinct_keys (somes (map (\<lambda>c. map_option (\<lambda>s. (c, s)) (f c)) customers))"
    using assms
  proof (induction customers)
    case (Cons c cs)
    then show ?case using keys [of cs] by (cases "f c") (auto simp: distinct_keys_def)
  qed (simp add: distinct_keys_def)
  have val: "map_of (somes (map (\<lambda>c. map_option (\<lambda>s. (c, s)) (f c)) customers)) c =
      (if c \<in> set customers then f c else None)" for customers
  proof (induction customers)
    case (Cons d ds)
    then show ?case by (cases "f d") auto
  qed simp
  show ?thesis using js_map_distinct [OF dk] val by simp
qed

lemma stripeStatusByCustomer_at:
  "map_of (stripeStatusByCustomer subs) c = best_status (customer_statuses subs c)"
proof -
  have "best_status (customer_statuses subs c) = None" if "c \<notin> set (map sub_customer subs)"
  proof -
    have "customer_statuses subs c = []" using that by (auto simp: customer_statuses_def filter_empty_conv)
    then show ?thesis by (simp add: best_status_def)
  qed
  then show ?thesis unfolding stripeStatusByCustomer_def map_of_status_entries [OF distinct_js_set]
    by auto
qed

lemma status_table:
  "((\<exists>s. map_of (stripeStatusByCustomer subs) c = Some s \<and> isLiveStatus s) \<longleftrightarrow>
      (\<exists>sub\<in>set subs. sub_customer sub = c \<and> isLiveStatus (sub_status sub))) \<and>
   ((\<exists>s. map_of (stripeStatusByCustomer subs) c = Some s \<and> isDunningStatus s) \<longleftrightarrow>
      (\<exists>sub\<in>set subs. sub_customer sub = c \<and> isDunningStatus (sub_status sub)) \<and>
      \<not> (\<exists>sub\<in>set subs. sub_customer sub = c \<and> isLiveStatus (sub_status sub))) \<and>
   map_of (stripeStatusByCustomer subs) c \<in>
     insert None {Some s |s. isLiveStatus s \<or> isDunningStatus s}"
proof -
  let ?S = "customer_statuses subs c"
  have S: "(\<exists>sub\<in>set subs. sub_customer sub = c \<and> P (sub_status sub)) \<longleftrightarrow> (\<exists>s\<in>set ?S. P s)" for P
    by (auto simp: customer_statuses_def)
  have disj: "\<not> (isLiveStatus s \<and> isDunningStatus s)" for s by (auto simp: statuses_simps)
  show ?thesis
  proof (cases "best_status ?S")
    case None
    then have "\<forall>u\<in>set ?S. \<not> isLiveStatus u \<and> \<not> isDunningStatus u"
      by (auto simp: best_status_None statuses_simps(3) split: if_splits)
    then show ?thesis unfolding S stripeStatusByCustomer_at None by auto
  next
    case (Some s)
    note best = best_status_Some [OF Some]
    have live: "isLiveStatus s \<longleftrightarrow> (\<exists>u\<in>set ?S. isLiveStatus u)"
      using best by (fastforce simp: statuses_simps(3) split: if_splits)
    moreover have "isDunningStatus s \<longleftrightarrow> (\<exists>u\<in>set ?S. isDunningStatus u) \<and> \<not> isLiveStatus s"
      using best disj by (fastforce simp: statuses_simps(3) split: if_splits)
    moreover have "isLiveStatus s \<or> isDunningStatus s"
      using best by (auto simp: statuses_simps(3) split: if_splits)
    ultimately show ?thesis unfolding S stripeStatusByCustomer_at Some by auto
  qed
qed

lemma live_in_status_table: "isLiveStatus (option_text '''' (map_of (stripeStatusByCustomer subs) c)) \<longleftrightarrow>
    (\<exists>sub\<in>set subs. sub_customer sub = c \<and> isLiveStatus (sub_status sub))"
  unfolding status_table [THEN conjunct1, symmetric]
  by (cases "map_of (stripeStatusByCustomer subs) c") (simp_all add: option_text_def statuses_simps(1))

text \<open>A customer who holds several subscriptions is judged by the best of them: the table
  answers a live status exactly when some subscription of theirs is live, a dunning status
  exactly when none is live and some charge is being retried, and nothing when every one of them
  is over.\<close>

theorem best_subscription_counts:
  "((\<exists>s. map_of (stripeStatusByCustomer subs) c = Some s \<and> isLiveStatus s) \<longleftrightarrow>
      (\<exists>sub\<in>set subs. sub_customer sub = c \<and> isLiveStatus (sub_status sub))) \<and>
   ((\<exists>s. map_of (stripeStatusByCustomer subs) c = Some s \<and> isDunningStatus s) \<longleftrightarrow>
      (\<exists>sub\<in>set subs. sub_customer sub = c \<and> isDunningStatus (sub_status sub)) \<and>
      \<not> (\<exists>sub\<in>set subs. sub_customer sub = c \<and> isLiveStatus (sub_status sub))) \<and>
   map_of (stripeStatusByCustomer subs) c \<in>
     insert None {Some s |s. isLiveStatus s \<or> isDunningStatus s}"
  by (rule status_table)

end
