(* ===== verification/IsoTime.thy ===== *)
theory IsoTime imports Effects "HOL-Library.Monad_Syntax" begin

text \<open>
  \<open>libs/server-common/src/time.ts\<close>: the timestamps every table and every service call
  carries. A \<open>Date\<close> is the integer number of milliseconds since the epoch; its UTC
  calendar fields are those of the ECMAScript specification (\<open>day_from_year\<close>,
  \<open>year_of_day\<close>, \<open>month_of\<close>). Results are proved for the instants whose year has four
  digits: reading back what was written gives the instant (years 100 to 9999), and the written
  texts sort as the instants do (years 0 to 9999), which is what the range queries rely on.
\<close>

subsection \<open>The calendar of \<open>Date\<close>\<close>

definition ms_per_day :: int where
  "ms_per_day = 86400000"

definition is_leap :: "int \<Rightarrow> bool" where
  "is_leap y \<longleftrightarrow> (y mod 4 = 0 \<and> y mod 100 \<noteq> 0) \<or> y mod 400 = 0"

definition leap_day :: "int \<Rightarrow> int" where
  "leap_day y = (if is_leap y then 1 else 0)"

definition day_from_year :: "int \<Rightarrow> int" where
  "day_from_year y = 365 * (y - 1970) + (y - 1969) div 4 - (y - 1901) div 100 + (y - 1601) div 400"

text \<open>The year whose days include day \<open>d\<close>: an estimate off by at most one, corrected.\<close>

definition year_of_day :: "int \<Rightarrow> int" where
  "year_of_day d = (let y = 1970 + (400 * d) div 146097 in
     if d < day_from_year y then y - 1 else if day_from_year (y + 1) \<le> d then y + 1 else y)"

text \<open>Days before month \<open>m\<close> (0 to 11) in a year with \<open>l\<close> leap days, and its inverse.\<close>

definition month_start :: "int \<Rightarrow> int \<Rightarrow> int" where
  "month_start l m =
     (if m \<le> 0 then 0 else if m = 1 then 31 else if m = 2 then 59 + l else if m = 3 then 90 + l
      else if m = 4 then 120 + l else if m = 5 then 151 + l else if m = 6 then 181 + l
      else if m = 7 then 212 + l else if m = 8 then 243 + l else if m = 9 then 273 + l
      else if m = 10 then 304 + l else if m = 11 then 334 + l else 365 + l)"

definition month_of :: "int \<Rightarrow> int \<Rightarrow> int" where
  "month_of l n =
     (if n < 31 then 0 else if n < 59 + l then 1 else if n < 90 + l then 2 else if n < 120 + l then 3
      else if n < 151 + l then 4 else if n < 181 + l then 5 else if n < 212 + l then 6
      else if n < 243 + l then 7 else if n < 273 + l then 8 else if n < 304 + l then 9
      else if n < 334 + l then 10 else 11)"

definition utc_year :: "int \<Rightarrow> int" where
  "utc_year t = year_of_day (t div ms_per_day)"

definition day_in_year :: "int \<Rightarrow> int" where
  "day_in_year t = t div ms_per_day - day_from_year (utc_year t)"

definition utc_month :: "int \<Rightarrow> int" where
  "utc_month t = month_of (leap_day (utc_year t)) (day_in_year t)"

definition utc_date :: "int \<Rightarrow> int" where
  "utc_date t = day_in_year t - month_start (leap_day (utc_year t)) (utc_month t) + 1"

definition utc_hours :: "int \<Rightarrow> int" where
  "utc_hours t = t mod (24 * 3600000) div 3600000"

definition utc_minutes :: "int \<Rightarrow> int" where
  "utc_minutes t = t mod (60 * 60000) div 60000"

definition utc_seconds :: "int \<Rightarrow> int" where
  "utc_seconds t = t mod (60 * 1000) div 1000"

definition utc_millis :: "int \<Rightarrow> int" where
  "utc_millis t = t mod 1000"

text \<open>
  \<open>Date.UTC\<close>: a month past December carries into the year, and a year from 0 to 99 is
  read as 1900 to 1999.
\<close>

definition date_utc :: "int \<Rightarrow> int \<Rightarrow> int \<Rightarrow> int \<Rightarrow> int \<Rightarrow> int \<Rightarrow> int \<Rightarrow> int" where
  "date_utc year month date h mi sec milli =
     (let y0 = (if 0 \<le> year \<and> year \<le> 99 then 1900 + year else year);
          y = y0 + month div 12;
          day = day_from_year y + month_start (leap_day y) (month mod 12) + date - 1
      in day * ms_per_day + h * 3600000 + mi * 60000 + sec * 1000 + milli)"

subsection \<open>Writing a timestamp\<close>

definition pad :: "int \<Rightarrow> nat \<Rightarrow> string" where
  "pad value width = replicate (width - length (show_int value)) CHR ''0'' @ show_int value"

definition isoformat :: "int \<Rightarrow> string" where
  "isoformat t =
     pad (utc_year t) 4 @ ''-'' @ pad (utc_month t + 1) 2 @ ''-'' @ pad (utc_date t) 2 @ ''T'' @
     pad (utc_hours t) 2 @ '':'' @ pad (utc_minutes t) 2 @ '':'' @ pad (utc_seconds t) 2 @
     (if utc_millis t = 0 then '''' else ''.'' @ pad (utc_millis t) 3 @ ''000'') @ ''+00:00''"

subsection \<open>Reading a timestamp\<close>

definition digits :: "nat \<Rightarrow> string \<Rightarrow> (int \<times> string) option" where
  "digits n s = (if n \<le> length s \<and> list_all is_digit (take n s)
     then Some (int (read_nat (take n s)), drop n s) else None)"

fun one_of :: "string \<Rightarrow> string \<Rightarrow> (char \<times> string) option" where
  "one_of cs (c # s) = (if c \<in> set cs then Some (c, s) else None)"
| "one_of cs [] = None"

text \<open>The optional fraction: its digits, which are one to six when the dot is there.\<close>

fun fraction :: "string \<Rightarrow> (string \<times> string) option" where
  "fraction (c # s) =
     (if c = CHR ''.'' then
        (let ds = takeWhile is_digit s in
         if 1 \<le> length ds \<and> length ds \<le> 6 then Some (ds, dropWhile is_digit s) else None)
      else Some ([], c # s))"
| "fraction [] = Some ([], [])"

text \<open>The optional offset in minutes; a missing one is UTC. Nothing may follow it.\<close>

definition offset_minutes :: "string \<Rightarrow> int option" where
  "offset_minutes s = (if s = [] \<or> s = ''Z'' then Some 0 else do {
     (sg, s) \<leftarrow> one_of ''+-'' s;
     (hh, s) \<leftarrow> digits 2 s;
     (_, s) \<leftarrow> one_of '':'' s;
     (mm, s) \<leftarrow> digits 2 s;
     if s = [] then Some ((if sg = CHR ''-'' then - 1 else 1) * (hh * 60 + mm)) else None
   })"

definition fraction_millis :: "string \<Rightarrow> int" where
  \<comment> \<open>\<open>Number.parseInt(fraction.padEnd(3, '0').slice(0, 3), 10)\<close>\<close>
  "fraction_millis f = int (read_nat (take 3 (f @ replicate (3 - length f) CHR ''0'')))"

definition iso_instant :: "string \<Rightarrow> int option" where
  "iso_instant s = do {
     (y, s) \<leftarrow> digits 4 s;
     (_, s) \<leftarrow> one_of ''-'' s;
     (mo, s) \<leftarrow> digits 2 s;
     (_, s) \<leftarrow> one_of ''-'' s;
     (d, s) \<leftarrow> digits 2 s;
     (_, s) \<leftarrow> one_of ''T '' s;
     (h, s) \<leftarrow> digits 2 s;
     (_, s) \<leftarrow> one_of '':'' s;
     (mi, s) \<leftarrow> digits 2 s;
     (_, s) \<leftarrow> one_of '':'' s;
     (sec, s) \<leftarrow> digits 2 s;
     (f, s) \<leftarrow> fraction s;
     off \<leftarrow> offset_minutes s;
     Some (date_utc y (mo - 1) d h mi sec (fraction_millis f) - off * 60000)
   }"

definition parseIso :: "string \<Rightarrow> exn + int" where
  "parseIso s = (case iso_instant s of
     Some t \<Rightarrow> Inr t
   | None \<Rightarrow> Inl (RangeErr (''not an isoformat timestamp: '' @ s)))"

definition parseIsoOrNull :: "string option \<Rightarrow> int option" where
  "parseIsoOrNull text = (case nonempty text of
     None \<Rightarrow> None
   | Some s \<Rightarrow> (case parseIso s of Inr t \<Rightarrow> Some t | Inl _ \<Rightarrow> None))"

definition epochSeconds :: "int \<Rightarrow> int" where
  "epochSeconds t = t div 1000"

definition addSeconds :: "int \<Rightarrow> int \<Rightarrow> int" where
  "addSeconds at seconds = at + seconds * 1000"

definition addDays :: "int \<Rightarrow> int \<Rightarrow> int" where
  "addDays at days = addSeconds at (days * 86400)"

definition pydanticTimestamp :: "int \<Rightarrow> string" where
  "pydanticTimestamp t = take (length (isoformat t) - 6) (isoformat t) @ ''Z''"

subsection \<open>The calendar fields determine the day\<close>

lemma div_succ:
  fixes z n :: int
  assumes "0 < n"
  shows "(z + 1) div n = z div n + (if (z + 1) mod n = 0 then 1 else 0)"
proof -
  have r: "0 \<le> z mod n" "z mod n < n" "n * (z div n) + z mod n = z" using assms by simp_all
  show ?thesis
  proof (cases "z mod n + 1 = n")
    case True
    moreover have "n * (z div n + 1) = n * (z div n) + n" by (simp add: distrib_left)
    ultimately have z: "z + 1 = n * (z div n + 1)" using r(3) by linarith
    have "(z + 1) div n = z div n + 1" "(z + 1) mod n = 0" by (subst z, use assms in simp)+
    then show ?thesis by simp
  next
    case False
    have z: "z + 1 = n * (z div n) + (z mod n + 1)" using r(3) by simp
    have "(z + 1) div n = z div n" using False r by (intro int_div_pos_eq [OF z]) auto
    moreover have "(z + 1) mod n = z mod n + 1" using False r by (intro int_mod_pos_eq [OF z]) auto
    ultimately show ?thesis using r(1) by simp
  qed
qed

lemma mod_shift: "(y - k * n) mod n = y mod (n :: int)"
  using mod_mult_self1 [of y "- k" n] by simp

lemma day_from_year_step: "day_from_year (y + 1) = day_from_year y + 365 + leap_day y"
proof -
  have a: "(y - 1968) div 4 = (y - 1969) div 4 + (if y mod 4 = 0 then 1 else 0)"
    using div_succ [of 4 "y - 1969"] mod_shift [of y 492 4] by simp
  have b: "(y - 1900) div 100 = (y - 1901) div 100 + (if y mod 100 = 0 then 1 else 0)"
    using div_succ [of 100 "y - 1901"] mod_shift [of y 19 100] by simp
  have c: "(y - 1600) div 400 = (y - 1601) div 400 + (if y mod 400 = 0 then 1 else 0)"
    using div_succ [of 400 "y - 1601"] mod_shift [of y 4 400] by simp
  have "y mod 100 mod 4 = y mod 4" "y mod 400 mod 100 = y mod 100"
    by (rule mod_mod_cancel, simp)+
  then have d: "y mod 100 = 0 \<Longrightarrow> y mod 4 = 0" "y mod 400 = 0 \<Longrightarrow> y mod 100 = 0" by auto
  have "day_from_year (y + 1) = 365 * (y - 1970) + 365 + (y - 1968) div 4 - (y - 1900) div 100 +
      (y - 1600) div 400"
    by (simp add: day_from_year_def)
  then show ?thesis
    using d by (auto simp: a b c day_from_year_def leap_day_def is_leap_def)
qed

lemma leap_day_01: "leap_day y = 0 \<or> leap_day y = 1"
  by (simp add: leap_day_def)

lemma div_bounds:
  fixes x n :: int
  assumes "0 < n"
  shows "n * (x div n) \<le> x" "x < n * (x div n) + n"
  using assms mult_div_mod_eq [of n x] pos_mod_bound [of n x] pos_mod_sign [of n x] by linarith+

lemma leap_count_bounds:
  fixes a b c z :: int
  assumes "4 * a \<le> z - 1969" "z - 1969 < 4 * a + 4" "100 * b \<le> z - 1901" "z - 1901 < 100 * b + 100"
    "400 * c \<le> z - 1601" "z - 1601 < 400 * c + 400"
  shows "400 * (365 * (z - 1970) + a - b + c) \<le> 146097 * (z - 1970) + 593"
    "146097 * (z - 1970) - 607 \<le> 400 * (365 * (z - 1970) + a - b + c)"
proof -
  have 1: "400 * a \<le> 100 * z - 196900" "100 * z - 197300 \<le> 400 * a" using assms(1,2) by linarith+
  have 2: "4 * z - 8004 \<le> 400 * b" "400 * b \<le> 4 * z - 7604" using assms(3,4) by linarith+
  have 3: "z - 2001 \<le> 400 * c" using assms(6) by linarith
  have 4: "400 * (365 * (z - 1970) + a - b + c) =
      146000 * z + 400 * a - 400 * b + 400 * c - 287620000" by (simp add: algebra_simps)
  show "400 * (365 * (z - 1970) + a - b + c) \<le> 146097 * (z - 1970) + 593"
    "146097 * (z - 1970) - 607 \<le> 400 * (365 * (z - 1970) + a - b + c)"
    using 1 2 3 assms(5) by (simp_all add: 4 algebra_simps)
qed

lemma day_from_year_bounds:
  "400 * day_from_year y \<le> 146097 * (y - 1970) + 593"
  "146097 * (y - 1970) - 607 \<le> 400 * day_from_year y"
  unfolding day_from_year_def by (rule leap_count_bounds; rule div_bounds; simp)+

lemma year_of_day_bounds:
  "day_from_year (year_of_day d) \<le> d" "d < day_from_year (year_of_day d + 1)"
proof -
  define k where "k = (400 * d) div 146097"
  have k: "146097 * k \<le> 400 * d" "400 * d < 146097 * k + 146097"
    unfolding k_def by (rule div_bounds, simp)+
  let ?y = "1970 + k"
  have lo: "day_from_year (?y - 1) \<le> d" using day_from_year_bounds(1) [of "?y - 1"] k by simp
  have hi: "d < day_from_year (?y + 2)" using day_from_year_bounds(2) [of "?y + 2"] k by simp
  have eq: "year_of_day d = (if d < day_from_year ?y then ?y - 1
      else if day_from_year (?y + 1) \<le> d then ?y + 1 else ?y)"
    by (simp add: year_of_day_def k_def Let_def)
  show "day_from_year (year_of_day d) \<le> d" "d < day_from_year (year_of_day d + 1)"
    using lo hi by (auto simp: eq add.assoc)
qed

lemma day_from_year_mono: "y \<le> z \<Longrightarrow> day_from_year y \<le> day_from_year z"
proof (induction z rule: int_ge_induct)
  case base
  then show ?case by simp
next
  case (step z)
  then show ?case using day_from_year_step [of z] leap_day_01 [of z] by linarith
qed

lemma year_of_day_mono: "d \<le> e \<Longrightarrow> year_of_day d \<le> year_of_day e"
proof (rule ccontr)
  assume "d \<le> e" "\<not> year_of_day d \<le> year_of_day e"
  then have "day_from_year (year_of_day e + 1) \<le> day_from_year (year_of_day d)"
    by (intro day_from_year_mono) simp
  then show False using \<open>d \<le> e\<close> year_of_day_bounds [of d] year_of_day_bounds [of e] by linarith
qed

lemma day_in_year_bounds: "0 \<le> day_in_year t" "day_in_year t < 365 + leap_day (utc_year t)"
  using year_of_day_bounds [of "t div ms_per_day"] day_from_year_step [of "utc_year t"]
  by (simp_all add: day_in_year_def utc_year_def)

lemma month_of_bounds:
  assumes "l = 0 \<or> l = 1" "0 \<le> n" "n < 365 + l"
  shows "0 \<le> month_of l n" "month_of l n \<le> 11"
    "month_start l (month_of l n) \<le> n" "n < month_start l (month_of l n) + 31"
  using assms by (auto simp: month_of_def month_start_def)

lemma month_of_mono: "l = 0 \<or> l = 1 \<Longrightarrow> n \<le> m \<Longrightarrow> month_of l n \<le> month_of l m"
  by (auto simp: month_of_def)

lemma utc_month_bounds: "0 \<le> utc_month t" "utc_month t \<le> 11"
  using month_of_bounds(1,2) [OF leap_day_01 day_in_year_bounds] by (simp_all add: utc_month_def)

lemma utc_date_bounds: "1 \<le> utc_date t" "utc_date t \<le> 31"
  using month_of_bounds(3,4) [OF leap_day_01 day_in_year_bounds, of t]
  by (simp_all add: utc_date_def utc_month_def)

lemma field_bounds:
  fixes a b c :: int
  assumes "0 < b" "0 < c"
  shows "0 \<le> a mod (b * c) div c" "a mod (b * c) div c < b"
proof -
  let ?x = "a mod (b * c)"
  have x: "0 \<le> ?x" "?x < b * c" using assms by simp_all
  then show "0 \<le> ?x div c" using assms by (simp add: pos_imp_zdiv_nonneg_iff)
  show "?x div c < b"
  proof (rule ccontr)
    assume "\<not> ?x div c < b"
    then have "b * c \<le> ?x div c * c" using assms by (simp add: mult_right_mono)
    also have "\<dots> \<le> ?x" using assms minus_mod_eq_div_mult [of ?x c] pos_mod_sign [of c ?x] by linarith
    finally show False using x by simp
  qed
qed

lemma field_split: "a mod (b * c) = a mod (b * c) div c * c + a mod (c :: int)"
  using div_mult_mod_eq [of "a mod (b * c)" c] by (simp add: mod_mod_cancel)

lemma time_bounds:
  "0 \<le> utc_hours t" "utc_hours t < 24" "0 \<le> utc_minutes t" "utc_minutes t < 60"
  "0 \<le> utc_seconds t" "utc_seconds t < 60" "0 \<le> utc_millis t" "utc_millis t < 1000"
  unfolding utc_hours_def utc_minutes_def utc_seconds_def utc_millis_def
  by (rule field_bounds pos_mod_sign pos_mod_bound; simp)+

lemma time_sum:
  fixes t :: int
  assumes "D * p + m = t" "m = h * 3600000 + m1" "m1 = mi * 60000 + m2" "m2 = sec * 1000 + milli"
  shows "t = D * p + h * 3600000 + mi * 60000 + sec * 1000 + milli"
  using assms by linarith

lemma time_of_day:
  "t = t div ms_per_day * ms_per_day + utc_hours t * 3600000 + utc_minutes t * 60000 +
     utc_seconds t * 1000 + utc_millis t"
proof (rule time_sum)
  show "t div ms_per_day * ms_per_day + t mod (24 * 3600000) = t"
    using div_mult_mod_eq [of t ms_per_day] by (simp only: ms_per_day_def) simp
  show "t mod (24 * 3600000) = utc_hours t * 3600000 + t mod (60 * 60000)"
    unfolding utc_hours_def using field_split [of t 24 3600000] by simp
  show "t mod (60 * 60000) = utc_minutes t * 60000 + t mod (60 * 1000)"
    unfolding utc_minutes_def using field_split [of t 60 60000] by simp
  show "t mod (60 * 1000) = utc_seconds t * 1000 + utc_millis t"
    unfolding utc_seconds_def utc_millis_def by (rule field_split)
qed

lemma date_utc_fields:
  assumes "100 \<le> utc_year t"
  shows "date_utc (utc_year t) (utc_month t) (utc_date t) (utc_hours t) (utc_minutes t)
    (utc_seconds t) (utc_millis t) = t"
proof -
  have m: "utc_month t div 12 = 0" "utc_month t mod 12 = utc_month t"
    using utc_month_bounds [of t] by simp_all
  have "day_from_year (utc_year t) + month_start (leap_day (utc_year t)) (utc_month t) +
      utc_date t - 1 = t div ms_per_day"
    by (simp add: utc_date_def day_in_year_def)
  then show ?thesis
    using assms time_of_day [of t] by (simp add: date_utc_def m Let_def)
qed

subsection \<open>Padded numbers\<close>

lemma length_show_nat: "n < 10 ^ w \<Longrightarrow> 0 < w \<Longrightarrow> length (show_nat n) \<le> w"
proof (induction n arbitrary: w rule: show_nat.induct)
  case (1 n)
  show ?case
  proof (cases "n < 10")
    case True
    then show ?thesis using "1.prems" by (subst show_nat.simps) simp
  next
    case False
    then obtain v where v: "w = Suc v" "0 < v"
      using "1.prems" by (cases w; cases "w - 1") auto
    have "n div 10 < 10 ^ v" using "1.prems"(1) v by (simp add: less_mult_imp_div_less mult.commute)
    then have "length (show_nat (n div 10)) \<le> v" using "1.IH" [OF False] v by simp
    then show ?thesis using False v by (subst show_nat.simps) simp
  qed
qed

lemma read_nat_zeros: "read_nat (replicate k CHR ''0'' @ s) = read_nat s"
proof -
  have "foldl (\<lambda>n c. 10 * n + digit_val c) 0 (replicate k CHR ''0'') = 0"
    by (induction k) (simp_all add: digit_val_def code_of_def)
  then show ?thesis by (simp add: read_nat_def)
qed

lemma is_digit_0: "is_digit CHR ''0''"
  by (simp add: is_digit_def code_of_def)

lemma pad_nat: "0 \<le> n \<Longrightarrow> pad n w = replicate (w - length (show_nat (nat n))) CHR ''0'' @ show_nat (nat n)"
  by (simp add: pad_def show_int_def)

lemma length_pad [simp]: "0 \<le> n \<Longrightarrow> n < 10 ^ w \<Longrightarrow> 0 < w \<Longrightarrow> length (pad n w) = w"
  using length_show_nat [of "nat n" w] by (simp add: pad_nat nat_less_iff)

lemma digits_pad [simp]: "0 \<le> n \<Longrightarrow> list_all is_digit (pad n w)"
  using show_nat_digits [of "nat n"] by (simp add: pad_nat list_all_length is_digit_0 nth_append)

lemma read_pad [simp]: "0 \<le> n \<Longrightarrow> read_nat (pad n w) = nat n"
  by (simp add: pad_nat read_nat_zeros read_show_nat)

lemma digits_append:
  "length a = n \<Longrightarrow> list_all is_digit a \<Longrightarrow> digits n (a @ s) = Some (int (read_nat a), s)"
  by (simp add: digits_def)

lemma digits_padded [simp]:
  assumes "0 \<le> n" "n < 10 ^ w" "0 < w"
  shows "digits w (pad n w @ s) = Some (n, s)"
  using assms by (subst digits_append) simp_all

lemma takeWhile_digits:
  "list_all is_digit ds \<Longrightarrow> s = [] \<or> \<not> is_digit (hd s) \<Longrightarrow>
     takeWhile is_digit (ds @ s) = ds \<and> dropWhile is_digit (ds @ s) = s"
  by (induction ds) (cases s; simp)+

lemma fraction_written:
  assumes "0 \<le> m" "m < 1000"
  shows "fraction ((if m = 0 then '''' else ''.'' @ pad m 3 @ ''000'') @ ''+00:00'') =
    Some (if m = 0 then [] else pad m 3 @ ''000'', ''+00:00'')"
proof (cases "m = 0")
  case True
  then show ?thesis by simp
next
  case False
  have d: "list_all is_digit (pad m 3 @ ''000'')" using assms by (simp add: is_digit_0)
  have l: "length (pad m 3) = 3" using assms by simp
  have p: "\<not> is_digit CHR ''+''" by (simp add: is_digit_def code_of_def)
  show ?thesis
    using takeWhile_digits [OF d, of "''+00:00''"] l p False by (simp add: Let_def)
qed

lemma fraction_millis_written:
  assumes "0 \<le> m" "m < 1000"
  shows "fraction_millis (if m = 0 then [] else pad m 3 @ ''000'') = m"
proof (cases "m = 0")
  case True
  have "read_nat (replicate 3 CHR ''0'' @ []) = 0" by (subst read_nat_zeros) (simp add: read_nat_def)
  then show ?thesis using True by (simp add: fraction_millis_def)
next
  case False
  have l: "length (pad m 3) = 3" using assms by simp
  then show ?thesis using assms False by (simp add: fraction_millis_def)
qed

lemma offset_utc: "offset_minutes ''+00:00'' = Some 0"
  by (simp add: offset_minutes_def digits_def is_digit_0 read_nat_def digit_val_def code_of_def)

subsection \<open>Round trip and order\<close>

lemma iso_instant_isoformat:
  assumes "100 \<le> utc_year t" "utc_year t \<le> 9999"
  shows "iso_instant (isoformat t) = Some t"
  using assms utc_month_bounds [of t] utc_date_bounds [of t] time_bounds [of t]
    fraction_written [of "utc_millis t"] fraction_millis_written [of "utc_millis t"]
    date_utc_fields [of t]
  by (simp add: iso_instant_def isoformat_def offset_utc)

lemma less_append_same_length:
  fixes a b u v :: "'a::linorder list"
  assumes "length a = length b"
  shows "a @ u < b @ v \<longleftrightarrow> a < b \<or> (a = b \<and> u < v)"
  using assms by (induction a b rule: list_induct2) auto

lemma foldl_read: "foldl (\<lambda>n c. 10 * n + digit_val c) m s = m * 10 ^ length s + read_nat s"
  by (induction s rule: rev_induct) (simp_all add: read_nat_def algebra_simps)

lemma read_nat_Cons: "read_nat (c # s) = digit_val c * 10 ^ length s + read_nat s"
  using foldl_read [of "digit_val c" s] by (simp add: read_nat_def)

lemma read_nat_less: "list_all is_digit s \<Longrightarrow> read_nat s < 10 ^ length s"
proof (induction s)
  case Nil
  then show ?case by (simp add: read_nat_def)
next
  case (Cons c s)
  then have "digit_val c \<le> 9" "read_nat s < 10 ^ length s"
    by (auto simp: is_digit_def digit_val_def)
  then have "digit_val c * 10 ^ length s + read_nat s < 9 * 10 ^ length s + 10 ^ length s"
    by (intro add_le_less_mono mult_le_mono1)
  then show ?case by (simp add: read_nat_Cons)
qed

lemma digit_val_less: "is_digit c \<Longrightarrow> is_digit d \<Longrightarrow> c < d \<Longrightarrow> digit_val c < digit_val d"
  by (auto simp: is_digit_def digit_val_def code_of_def less_char_def)

lemma read_nat_strict:
  assumes "length a = length b"
  shows "list_all is_digit a \<Longrightarrow> list_all is_digit b \<Longrightarrow> a < b \<Longrightarrow> read_nat a < read_nat b"
  using assms
proof (induction a b rule: list_induct2)
  case Nil
  then show ?case by simp
next
  case (Cons c a d b)
  show ?case
  proof (cases "c < d")
    case True
    then have "digit_val c + 1 \<le> digit_val d" using Cons.prems digit_val_less [of c d] by simp
    then have "(digit_val c + 1) * 10 ^ length b \<le> digit_val d * 10 ^ length b" by (rule mult_le_mono1)
    then show ?thesis
      using read_nat_less [of a] Cons by (simp add: read_nat_Cons)
  next
    case False
    then show ?thesis using Cons by (auto simp: read_nat_Cons)
  qed
qed

lemma pad_less:
  assumes "0 \<le> m" "m < n" "n < 10 ^ w" "0 < w"
  shows "pad m w < pad n w"
proof (rule ccontr)
  assume "\<not> pad m w < pad n w"
  then consider "pad n w = pad m w" | "pad n w < pad m w" by fastforce
  then show False
  proof cases
    case 1
    then have "read_nat (pad n w) = read_nat (pad m w)" by simp
    then show ?thesis using assms by simp
  next
    case 2
    then have "read_nat (pad n w) < read_nat (pad m w)"
      using assms by (intro read_nat_strict) simp_all
    then show ?thesis using assms by simp
  qed
qed

lemma pad_first:
  assumes "0 \<le> m" "n < 10 ^ w" "0 < w" "m < n"
  shows "pad m w @ u < pad n w @ v"
  using assms pad_less [of m n w] by (simp add: less_append_same_length)

lemma pad_next:
  assumes "0 \<le> m" "n < 10 ^ w" "0 < w" "m \<le> n" "m = n \<Longrightarrow> u < v"
  shows "pad m w @ u < pad n w @ v"
  using assms pad_first [of m n w u v] by (cases "m = n") (auto simp: less_append_same_length)

lemma literal_less: "u < v \<Longrightarrow> c @ u < c @ (v :: string)"
  by (simp add: less_append_same_length)

lemma fraction_less:
  assumes "0 \<le> m" "m < n" "n < 1000"
  shows "(if m = 0 then '''' else ''.'' @ pad m 3 @ ''000'') @ ''+00:00'' <
    (if n = 0 then '''' else ''.'' @ pad n 3 @ ''000'') @ ''+00:00''"
  using assms pad_first [of m n 3 "''000+00:00''" "''000+00:00''"] by simp

text \<open>The fields of an earlier instant come first in the order of the fields.\<close>

lemma date_fields_less:
  assumes "t div ms_per_day < u div ms_per_day"
  shows "utc_year t \<le> utc_year u" "utc_year t = utc_year u \<Longrightarrow> utc_month t \<le> utc_month u"
    "utc_year t = utc_year u \<Longrightarrow> utc_month t = utc_month u \<Longrightarrow> utc_date t < utc_date u"
proof -
  show "utc_year t \<le> utc_year u" using assms by (simp add: utc_year_def year_of_day_mono)
  assume y: "utc_year t = utc_year u"
  then have d: "day_in_year t < day_in_year u" using assms by (simp add: day_in_year_def)
  then show "utc_month t \<le> utc_month u" using y by (simp add: utc_month_def month_of_mono leap_day_01)
  show "utc_month t = utc_month u \<Longrightarrow> utc_date t < utc_date u" using y d by (simp add: utc_date_def)
qed

lemma time_fields_less:
  assumes "t div ms_per_day = u div ms_per_day" "t < u"
  shows "utc_hours t \<le> utc_hours u" "utc_hours t = utc_hours u \<Longrightarrow> utc_minutes t \<le> utc_minutes u"
    "utc_hours t = utc_hours u \<Longrightarrow> utc_minutes t = utc_minutes u \<Longrightarrow> utc_seconds t \<le> utc_seconds u"
    "utc_hours t = utc_hours u \<Longrightarrow> utc_minutes t = utc_minutes u \<Longrightarrow> utc_seconds t = utc_seconds u \<Longrightarrow>
      utc_millis t < utc_millis u"
proof -
  define p where "p = t div ms_per_day * ms_per_day"
  have t: "t = p + utc_hours t * 3600000 + utc_minutes t * 60000 + utc_seconds t * 1000 + utc_millis t"
    using time_of_day [of t] by (simp add: p_def)
  have u: "u = p + utc_hours u * 3600000 + utc_minutes u * 60000 + utc_seconds u * 1000 + utc_millis u"
    using time_of_day [of u] assms(1) by (simp add: p_def)
  note facts = t u assms(2) time_bounds [of t] time_bounds [of u]
  show "utc_hours t \<le> utc_hours u" using facts by linarith
  assume h: "utc_hours t = utc_hours u"
  then show "utc_minutes t \<le> utc_minutes u" using facts by linarith
  assume mi: "utc_minutes t = utc_minutes u"
  then show "utc_seconds t \<le> utc_seconds u" using h facts by linarith
  assume "utc_seconds t = utc_seconds u"
  then show "utc_millis t < utc_millis u" using h mi facts by linarith
qed

lemma same_day_fields:
  assumes "t div ms_per_day = u div ms_per_day"
  shows "utc_year t = utc_year u" "utc_month t = utc_month u" "utc_date t = utc_date u"
proof -
  show y: "utc_year t = utc_year u" using assms by (simp add: utc_year_def)
  then have d: "day_in_year t = day_in_year u" using assms by (simp add: day_in_year_def)
  show m: "utc_month t = utc_month u" using y d by (simp add: utc_month_def)
  show "utc_date t = utc_date u" using y d m by (simp add: utc_date_def)
qed

lemma isoformat_less:
  assumes "t < u" "0 \<le> utc_year t" "utc_year u \<le> 9999"
  shows "isoformat t < isoformat u"
proof -
  note bounds = utc_month_bounds utc_date_bounds time_bounds
  have small: "utc_month u + 1 < 10 ^ 2" "utc_date u < 10 ^ 2" "utc_hours u < 10 ^ 2"
    "utc_minutes u < 10 ^ 2" "utc_seconds u < 10 ^ 2" "0 \<le> utc_month t + 1" "0 \<le> utc_date t"
    using utc_month_bounds [of u] utc_date_bounds [of u] time_bounds [of u] utc_month_bounds [of t]
      utc_date_bounds [of t] by simp_all
  have year: "utc_year u < 10 ^ 4" using assms(3) by simp
  have two: "0 < (2::nat)" "0 < (4::nat)" by simp_all
  note pads = small year two assms(2) time_bounds [of t]
  have "t div ms_per_day \<le> u div ms_per_day" using assms(1) by (simp add: zdiv_mono1 ms_per_day_def)
  then consider "t div ms_per_day < u div ms_per_day" | "t div ms_per_day = u div ms_per_day"
    by linarith
  then show ?thesis
  proof cases
    case 1
    note f = date_fields_less [OF 1]
    show ?thesis
      unfolding isoformat_def
      by (intro pad_next literal_less pad_first [of "utc_date t"])
        (use f pads in \<open>assumption | simp\<close>)+
  next
    case 2
    note f = time_fields_less [OF 2 assms(1)]
    show ?thesis
      unfolding isoformat_def same_day_fields [OF 2]
      by (intro pad_next literal_less fraction_less)
        (use f pads same_day_fields [OF 2] time_bounds [of u] in \<open>assumption | simp\<close>)+
  qed
qed


subsection \<open>Stored timestamps\<close>

text \<open>C40: A timestamp the bridge writes reads back as the same instant, to the millisecond, for the
  years 100 to 9999.\<close>

theorem stored_time_round_trip:
  assumes "100 \<le> utc_year t" "utc_year t \<le> 9999"
  shows "parseIso (isoformat t) = Inr t"
  using iso_instant_isoformat [OF assms] by (simp add: parseIso_def)

theorem stored_time_round_trip_witness:
  "parseIso (isoformat 1790000000123) = Inr 1790000000123"
  by (rule stored_time_round_trip; code_simp)

text \<open>Comparing two written timestamps as text compares the instants, so the range queries over
  stored text answer in time order, for the years 0 to 9999.\<close>

theorem stored_time_order:
  assumes "0 \<le> utc_year t" "utc_year t \<le> 9999" "0 \<le> utc_year u" "utc_year u \<le> 9999"
  shows "isoformat t < isoformat u \<longleftrightarrow> t < u"
  using isoformat_less [of t u] isoformat_less [of u t] assms
  by (cases t u rule: linorder_cases) auto

theorem stored_time_order_witness:
  "isoformat 1789999999999 < isoformat 1790000000000 \<longleftrightarrow> (1789999999999::int) < 1790000000000"
  by (rule stored_time_order; code_simp)

end
