(* ===== verification/Store.thy ===== *)
theory Store imports Standing IsoTime begin

text \<open>
  The bridge's SQLite file (\<open>apps/stripe-bridge/src/store\<close>): one list per table in rowid order,
  and every operation of \<open>customerStore\<close>, \<open>overrideStore\<close>, \<open>eventStore\<close> and
  \<open>inviteStore\<close> as a function on the tables. An operation that SQLite may refuse on the key
  answers \<open>exn + db\<close>. The time an operation stamps is an argument; the world's clock supplies
  it in \<open>Ports\<close>. SQL's \<open>LIKE\<close> and \<open>lower\<close> ignore ASCII case; a \<open>SELECT\<close>
  without \<open>ORDER BY\<close> reads in rowid order, and a descending sort keeps rowid order among equals.
\<close>

subsection \<open>Tables\<close>

record customer_db_row =
  cm_stripe_customer_id :: string
  cm_email :: "string option"
  cm_invite_code :: "string option"
  cm_tier :: "string option"
  cm_invited_at :: "string option"
  cm_subscribed :: int
  cm_payment_state :: "string option"

record session_invite =
  si_invite_code :: string
  si_emailed :: int

record baseline_invite =
  bl_code :: string
  bl_tier :: string
  bl_created_at :: string
  bl_expires_at :: string

record db =
  customer_map :: "customer_db_row list"
  processed_events :: "string list"
  member_notes :: "(string \<times> string) list"
  member_tags :: "(string \<times> string) list"
  member_downloads :: "(string \<times> int) list"
  event_log :: "event_row list"
  event_seq :: int
  session_invites :: "(string \<times> session_invite) list"
  baseline_invites :: "baseline_invite list"
  member_links :: "(string \<times> string) list"

definition flag :: "bool \<Rightarrow> int" where
  "flag value = (if value then 1 else 0)"

subsection \<open>The customer map\<close>

definition ADMIN_KEY_PREFIX :: string where
  "ADMIN_KEY_PREFIX = ''admin:''"

definition admin_key :: "string \<Rightarrow> string" where
  "admin_key email = ADMIN_KEY_PREFIX @ toLowerCase email"

definition like_cus :: "string \<Rightarrow> bool" where
  \<comment> \<open>\<open>LIKE 'cus\_%' ESCAPE '\'\<close>\<close>
  "like_cus s \<longleftrightarrow> starts_with ''cus_'' (toLowerCase s)"

definition CUSTOMER_ORDER :: "customer_db_row list \<Rightarrow> customer_db_row list" where
  "CUSTOMER_ORDER rows = sort_key (\<lambda>r. if like_cus (cm_stripe_customer_id r) then 1 else 0 :: nat) rows"

definition CUSTOMER_SELECT :: "customer_db_row list \<Rightarrow> customer_db_row list" where
  "CUSTOMER_SELECT rows = filter (\<lambda>r. cm_email r \<noteq> None) rows"

definition for_email :: "string \<Rightarrow> customer_db_row \<Rightarrow> bool" where
  \<comment> \<open>\<open>lower(email) = lower(?)\<close>; null matches nothing\<close>
  "for_email email r \<longleftrightarrow> map_option toLowerCase (cm_email r) = Some (toLowerCase email)"

definition customerRowOf :: "customer_db_row \<Rightarrow> customer_row" where
  "customerRowOf r =
     \<lparr>row_customer_id = (if starts_with ''cus_'' (cm_stripe_customer_id r) then Some (cm_stripe_customer_id r) else None),
      row_invite_code = cm_invite_code r,
      row_tier = canonicalTier (map_option (\<lambda>t. toLowerCase (trim t)) (cm_tier r)),
      row_invited_at = cm_invited_at r,
      row_subscribed = (cm_subscribed r \<noteq> 0),
      row_payment_state = (if cm_payment_state r = Some ''past_due'' then Some PastDue else None)\<rparr>"

datatype column = ColInviteCode | ColTier | ColInvitedAt

fun write_column :: "column \<times> string option \<Rightarrow> customer_db_row \<Rightarrow> customer_db_row" where
  "write_column (ColInviteCode, v) r = r\<lparr>cm_invite_code := v\<rparr>"
| "write_column (ColTier, v) r = r\<lparr>cm_tier := v\<rparr>"
| "write_column (ColInvitedAt, v) r = r\<lparr>cm_invited_at := v\<rparr>"

definition write_columns :: "(column \<times> string option) list \<Rightarrow> customer_db_row \<Rightarrow> customer_db_row" where
  "write_columns cols r = fold write_column cols r"

definition blank_customer :: "string \<Rightarrow> string \<Rightarrow> customer_db_row" where
  \<comment> \<open>a new row with the columns' defaults\<close>
  "blank_customer key email = \<lparr>cm_stripe_customer_id = key, cm_email = Some email, cm_invite_code = None,
     cm_tier = None, cm_invited_at = None, cm_subscribed = 0, cm_payment_state = None\<rparr>"

definition setByEmailOrPlaceholder ::
  "string \<Rightarrow> (column \<times> string option) list \<Rightarrow> db \<Rightarrow> exn + db" where
  "setByEmailOrPlaceholder email cols d =
     (if list_ex (for_email email) (customer_map d) then
        Inr (d\<lparr>customer_map := map (\<lambda>r. if for_email email r then write_columns cols r else r) (customer_map d)\<rparr>)
      else if list_ex (\<lambda>r. cm_stripe_customer_id r = admin_key email) (customer_map d) then
        Inl (SqliteErr ''UNIQUE constraint failed: customer_map.stripe_customer_id'')
      else Inr (d\<lparr>customer_map := customer_map d @ [write_columns cols (blank_customer (admin_key email) email)]\<rparr>))"

definition upsertPending ::
  "string \<Rightarrow> string \<Rightarrow> string \<Rightarrow> tier option \<Rightarrow> string \<Rightarrow> db \<Rightarrow> db" where
  "upsertPending customerId email inviteCode tier invitedAt d =
     (let kept = filter (\<lambda>r. cm_stripe_customer_id r \<noteq> admin_key email) (customer_map d);
          stamp = (\<lambda>r. r\<lparr>cm_email := Some email, cm_invite_code := Some inviteCode,
            cm_tier := map_option tier_name tier, cm_invited_at := Some invitedAt, cm_subscribed := 1\<rparr>)
      in d\<lparr>customer_map :=
        (if list_ex (\<lambda>r. cm_stripe_customer_id r = customerId) kept
         then map (\<lambda>r. if cm_stripe_customer_id r = customerId then stamp r else r) kept
         else kept @ [stamp (blank_customer customerId email)])\<rparr>)"

definition upsertPendingByEmail :: "string \<Rightarrow> string \<Rightarrow> tier option \<Rightarrow> string \<Rightarrow> db \<Rightarrow> exn + db" where
  "upsertPendingByEmail email inviteCode tier invitedAt d = setByEmailOrPlaceholder email
     [(ColInviteCode, Some inviteCode), (ColTier, map_option tier_name tier), (ColInvitedAt, Some invitedAt)] d"

definition stampInvited :: "string \<Rightarrow> string \<Rightarrow> db \<Rightarrow> exn + db" where
  "stampInvited email invitedAt d = setByEmailOrPlaceholder email [(ColInvitedAt, Some invitedAt)] d"

definition setTier :: "string \<Rightarrow> tier \<Rightarrow> db \<Rightarrow> exn + db" where
  "setTier email tier d = setByEmailOrPlaceholder email [(ColTier, Some (tier_name tier))] d"

definition update_customers :: "string \<Rightarrow> (customer_db_row \<Rightarrow> customer_db_row) \<Rightarrow> db \<Rightarrow> db" where
  "update_customers email f d =
     d\<lparr>customer_map := map (\<lambda>r. if for_email email r then f r else r) (customer_map d)\<rparr>"

definition setSubscribed :: "string \<Rightarrow> bool \<Rightarrow> db \<Rightarrow> db" where
  "setSubscribed email value d = update_customers email (\<lambda>r. r\<lparr>cm_subscribed := flag value\<rparr>) d"

definition state_text :: "payment_state option \<Rightarrow> string option" where
  "state_text state = (case state of Some PastDue \<Rightarrow> Some ''past_due'' | None \<Rightarrow> None)"

definition setPaymentState :: "string \<Rightarrow> payment_state option \<Rightarrow> db \<Rightarrow> db" where
  "setPaymentState email state d =
     update_customers email (\<lambda>r. r\<lparr>cm_payment_state := state_text state\<rparr>) d"

definition customerIdsForEmail :: "string \<Rightarrow> db \<Rightarrow> string list" where
  "customerIdsForEmail email d =
     filter (\<lambda>customerId. \<not> starts_with ADMIN_KEY_PREFIX customerId)
       (map cm_stripe_customer_id (filter (for_email email) (customer_map d)))"

record customer_mapping =
  mp_stripe_customer_id :: string
  mp_email :: "string option"
  mp_invite_code :: "string option"

definition getMapping :: "string \<Rightarrow> db \<Rightarrow> customer_mapping option" where
  "getMapping customerId d =
     map_option (\<lambda>r. \<lparr>mp_stripe_customer_id = cm_stripe_customer_id r, mp_email = cm_email r,
         mp_invite_code = cm_invite_code r\<rparr>)
       (List.find (\<lambda>r. cm_stripe_customer_id r = customerId) (customer_map d))"

definition allCustomerRows :: "db \<Rightarrow> (string \<times> customer_row) list" where
  "allCustomerRows d =
     js_map (map (\<lambda>r. (toLowerCase (text_or_empty (cm_email r)), customerRowOf r))
       (CUSTOMER_ORDER (CUSTOMER_SELECT (customer_map d))))"

definition customerRow :: "string \<Rightarrow> db \<Rightarrow> customer_row option" where
  "customerRow email d = map_option customerRowOf
     (last_or_none (CUSTOMER_ORDER (filter (for_email email) (CUSTOMER_SELECT (customer_map d)))))"

subsection \<open>Address-keyed tables\<close>

definition keyed_get :: "('c \<Rightarrow> 'v option) \<Rightarrow> (string \<times> 'c) list \<Rightarrow> string \<Rightarrow> 'v option" where
  "keyed_get decode table address = Option.bind (map_of table (toLowerCase address)) decode"

definition keyed_set :: "('v \<Rightarrow> 'c) \<Rightarrow> string \<Rightarrow> 'v option \<Rightarrow> (string \<times> 'c) list \<Rightarrow> (string \<times> 'c) list" where
  "keyed_set encode address v table = (case v of
     None \<Rightarrow> map_del (toLowerCase address) table
   | Some x \<Rightarrow> map_put (toLowerCase address) (encode x) table)"

definition keyed_all :: "('c \<Rightarrow> 'v option) \<Rightarrow> (string \<times> 'c) list \<Rightarrow> (string \<times> 'v) list" where
  "keyed_all decode table = js_map (somes (map (\<lambda>(k, c). map_option (\<lambda>v. (k, v)) (decode c)) table))"

definition getMemberNotes :: "string \<Rightarrow> db \<Rightarrow> string" where
  "getMemberNotes email d = option_text '''' (keyed_get Some (member_notes d) email)"

definition setMemberNotes :: "string \<Rightarrow> string \<Rightarrow> db \<Rightarrow> db" where
  "setMemberNotes email notes d = d\<lparr>member_notes := keyed_set id email (Some notes) (member_notes d)\<rparr>"

definition getMemberTag :: "string \<Rightarrow> db \<Rightarrow> member_tag option" where
  "getMemberTag email d = keyed_get tag_of_name (member_tags d) email"

definition setMemberTag :: "string \<Rightarrow> member_tag option \<Rightarrow> db \<Rightarrow> db" where
  "setMemberTag email tag d = d\<lparr>member_tags := keyed_set tag_name email tag (member_tags d)\<rparr>"

definition allMemberTags :: "db \<Rightarrow> (string \<times> member_tag) list" where
  "allMemberTags d = keyed_all tag_of_name (member_tags d)"

definition getMemberDownloads :: "string \<Rightarrow> db \<Rightarrow> bool option" where
  "getMemberDownloads email d = keyed_get (\<lambda>n. Some (n \<noteq> 0)) (member_downloads d) email"

definition setMemberDownloads :: "string \<Rightarrow> bool \<Rightarrow> db \<Rightarrow> db" where
  "setMemberDownloads email allow d =
     d\<lparr>member_downloads := keyed_set flag email (Some allow) (member_downloads d)\<rparr>"

definition allMemberDownloads :: "db \<Rightarrow> (string \<times> bool) list" where
  "allMemberDownloads d = keyed_all (\<lambda>n. Some (n \<noteq> 0)) (member_downloads d)"

definition getMemberLink :: "string \<Rightarrow> db \<Rightarrow> string option" where
  "getMemberLink stripeEmail d = keyed_get Some (member_links d) stripeEmail"

definition setMemberLink :: "string \<Rightarrow> string option \<Rightarrow> db \<Rightarrow> db" where
  "setMemberLink stripeEmail plexEmail d =
     d\<lparr>member_links := keyed_set toLowerCase stripeEmail plexEmail (member_links d)\<rparr>"

definition allMemberLinks :: "db \<Rightarrow> (string \<times> string) list" where
  "allMemberLinks d = keyed_all Some (member_links d)"

subsection \<open>Events\<close>

definition isEventProcessed :: "string \<Rightarrow> db \<Rightarrow> bool" where
  "isEventProcessed eventId d \<longleftrightarrow> eventId \<in> set (processed_events d)"

definition markEventProcessed :: "string \<Rightarrow> db \<Rightarrow> db" where
  "markEventProcessed eventId d =
     (if eventId \<in> set (processed_events d) then d else d\<lparr>processed_events := processed_events d @ [eventId]\<rparr>)"

text \<open>The row \<open>recordEvent\<close> appends; its catch is in \<open>Ports\<close>.\<close>

definition append_event :: "string \<Rightarrow> string \<Rightarrow> string \<Rightarrow> string \<Rightarrow> db \<Rightarrow> db" where
  "append_event at email action detail d =
     d\<lparr>event_log := event_log d @ [\<lparr>ev_id = event_seq d + 1, ev_at = at, ev_email = toLowerCase email,
         ev_action = action, ev_detail = detail\<rparr>],
       event_seq := event_seq d + 1\<rparr>"

definition limited :: "int \<Rightarrow> 'a list \<Rightarrow> 'a list" where
  \<comment> \<open>SQL's \<open>LIMIT\<close>; a negative limit is none\<close>
  "limited n xs = (if n < 0 then xs else take (nat n) xs)"

definition eventsForEmail :: "string \<Rightarrow> int \<Rightarrow> db \<Rightarrow> event_row list" where
  "eventsForEmail email limit d =
     limited limit (rev (sort_key ev_id (filter (\<lambda>e. ev_email e = toLowerCase email) (event_log d))))"

definition allEvents :: "int \<Rightarrow> db \<Rightarrow> event_row list" where
  "allEvents limit d = limited limit (rev (sort_key ev_id (event_log d)))"

subsection \<open>Invites\<close>

datatype invite_operation = Checkout string | Recovery string

fun operationKey :: "invite_operation \<Rightarrow> string" where
  "operationKey (Checkout i) = i"
| "operationKey (Recovery i) = ''invoice:'' @ i"

record issuance =
  iss_invite_code :: string
  iss_emailed :: bool

definition getInviteIssuance :: "invite_operation \<Rightarrow> db \<Rightarrow> issuance option" where
  "getInviteIssuance operation d =
     map_option (\<lambda>r. \<lparr>iss_invite_code = si_invite_code r, iss_emailed = (si_emailed r \<noteq> 0)\<rparr>)
       (map_of (session_invites d) (operationKey operation))"

definition recordInviteIssuance :: "invite_operation \<Rightarrow> string \<Rightarrow> db \<Rightarrow> db" where
  "recordInviteIssuance operation inviteCode d =
     (case map_of (session_invites d) (operationKey operation) of
        Some _ \<Rightarrow> d
      | None \<Rightarrow> d\<lparr>session_invites := session_invites d @
          [(operationKey operation, \<lparr>si_invite_code = inviteCode, si_emailed = 0\<rparr>)]\<rparr>)"

definition markInviteEmailed :: "invite_operation \<Rightarrow> db \<Rightarrow> db" where
  "markInviteEmailed operation d =
     d\<lparr>session_invites := map (\<lambda>(k, r). if k = operationKey operation then (k, r\<lparr>si_emailed := 1\<rparr>) else (k, r))
        (session_invites d)\<rparr>"

definition recordBaselineInvite :: "string \<Rightarrow> string \<Rightarrow> string \<Rightarrow> string \<Rightarrow> db \<Rightarrow> db" where
  "recordBaselineInvite code tier expiresAt created d =
     d\<lparr>baseline_invites := filter (\<lambda>b. bl_code b \<noteq> code) (baseline_invites d) @
        [\<lparr>bl_code = code, bl_tier = tier, bl_created_at = created, bl_expires_at = expiresAt\<rparr>]\<rparr>"

definition allBaselineInvites :: "db \<Rightarrow> baseline_invite list" where
  "allBaselineInvites d = rev (sort_key bl_created_at (rev (baseline_invites d)))"

definition forgetBaselineInvite :: "string \<Rightarrow> db \<Rightarrow> db" where
  "forgetBaselineInvite code d =
     d\<lparr>baseline_invites := filter (\<lambda>b. bl_code b \<noteq> code) (baseline_invites d)\<rparr>"


subsection \<open>Which row answers for an address\<close>

lemma map_of_rev_map:
  "map_of (rev (map (\<lambda>r. (g r, h r)) xs)) k = map_option h (last_or_none (filter (\<lambda>r. g r = k) xs))"
  by (induction xs rule: rev_induct) (auto simp: last_or_none_def)

lemma last_sort_key_bool:
  "last_or_none (sort_key (\<lambda>r. if P r then 1 else 0 :: nat) xs) =
     last_or_none (if filter P xs = [] then xs else filter P xs)"
proof -
  have split: "sort_key (\<lambda>r. if P r then 1 else 0 :: nat) xs = filter (\<lambda>r. \<not> P r) xs @ filter P xs" for xs
  proof (induction xs)
    case (Cons x xs)
    have low: "insort_key (\<lambda>r. if P r then 1 else 0 :: nat) x (ys @ zs) = x # ys @ zs"
      if "\<not> P x" for ys zs using that by (cases "ys @ zs") auto
    have high: "insort_key (\<lambda>r. if P r then 1 else 0 :: nat) x (ys @ zs) = ys @ x # zs"
      if "P x" "\<forall>y\<in>set ys. \<not> P y" "\<forall>z\<in>set zs. P z" for ys zs
      using that by (induction ys) (cases zs; auto)+
    show ?case using Cons low high by (cases "P x") simp_all
  qed simp
  show ?thesis
    by (cases xs) (auto simp: split last_or_none_def filter_empty_conv)
qed

lemma insort_key_map: "insort_key f (g x) (map g ys) = map g (insort_key (\<lambda>y. f (g y)) x ys)"
  by (induction ys) simp_all

lemma sort_key_map: "sort_key f (map g xs) = map g (sort_key (\<lambda>x. f (g x)) xs)"
  by (induction xs) (simp_all add: insort_key_map)

lemma last_or_none_map: "last_or_none (map g xs) = map_option g (last_or_none xs)"
  by (induction xs rule: rev_induct) (simp_all add: last_or_none_def)

definition answers_for :: "string \<Rightarrow> customer_db_row \<Rightarrow> bool" where
  "answers_for k r \<longleftrightarrow> cm_email r \<noteq> None \<and> toLowerCase (text_or_empty (cm_email r)) = k"

lemma row_lookup: "map_of (allCustomerRows d) k =
    map_option customerRowOf (last_or_none (CUSTOMER_ORDER (filter (answers_for k) (customer_map d))))"
proof -
  have "(\<lambda>r. cm_email r \<noteq> None \<and> toLowerCase (text_or_empty (cm_email r)) = k) = answers_for k"
    by (simp add: answers_for_def fun_eq_iff)
  then show ?thesis
    unfolding allCustomerRows_def map_of_js_map map_of_rev_map CUSTOMER_ORDER_def filter_sort CUSTOMER_SELECT_def filter_filter
    by simp
qed

text \<open>A write to the rows of one address, as the lookup sees it.\<close>

lemma row_after_update:
  assumes "\<And>r. cm_email (f r) = cm_email r" "\<And>r. cm_stripe_customer_id (f r) = cm_stripe_customer_id r"
    "\<And>r. customerRowOf (f r) = g (customerRowOf r)"
  shows "map_of (allCustomerRows (update_customers email f d)) k =
    (if k = toLowerCase email then map_option g (map_of (allCustomerRows d) k) else map_of (allCustomerRows d) k)"
proof -
  let ?f = "\<lambda>r. if for_email email r then f r else r"
  have mine: "filter (answers_for k) (map ?f xs) = map ?f (filter (answers_for k) xs)" for xs
    using assms(1) by (induction xs) (auto simp: answers_for_def)
  have order: "CUSTOMER_ORDER (map ?f xs) = map ?f (CUSTOMER_ORDER xs)" for xs
    using assms(2) by (simp add: CUSTOMER_ORDER_def sort_key_map if_distrib cong: if_cong)
  have own: "answers_for k r \<Longrightarrow> for_email email r \<longleftrightarrow> k = toLowerCase email" for r
    by (auto simp: answers_for_def for_email_def)
  have picked: "answers_for k r" if "last_or_none (CUSTOMER_ORDER (filter (answers_for k) xs)) = Some r" for r xs
  proof -
    have "r \<in> set (CUSTOMER_ORDER (filter (answers_for k) xs))"
      using that by (auto simp: last_or_none_def split: if_splits list.splits)
    then show ?thesis by (simp add: CUSTOMER_ORDER_def)
  qed
  show ?thesis
    unfolding row_lookup update_customers_def
    using picked own assms(3) by (cases "last_or_none (CUSTOMER_ORDER (filter (answers_for k) (customer_map d)))")
      (auto simp: mine order last_or_none_map)
qed

text \<open>Asking for one address answers exactly what the table of all addresses holds for it: the
  newest row of a real Stripe customer among the rows of that address, whatever its letter case,
  and the newest placeholder only when there is none.\<close>

theorem customer_row_agrees:
  "customerRow email d = map_of (allCustomerRows d) (toLowerCase email) \<and>
   customerRow email d = map_option customerRowOf
     (let mine = filter (for_email email) (customer_map d);
          stripe = filter (\<lambda>r. like_cus (cm_stripe_customer_id r)) mine
      in last_or_none (if stripe = [] then mine else stripe))"
proof
  have mine: "for_email email r \<longleftrightarrow> cm_email r \<noteq> None \<and> toLowerCase (text_or_empty (cm_email r)) = toLowerCase email" for r
    by (cases "cm_email r") (simp_all add: for_email_def)
  show "customerRow email d = map_of (allCustomerRows d) (toLowerCase email)"
    unfolding customerRow_def allCustomerRows_def map_of_js_map map_of_rev_map CUSTOMER_ORDER_def
      CUSTOMER_SELECT_def filter_sort filter_filter mine by (simp add: conj_commute conj_left_commute)
  have "filter (for_email email) (CUSTOMER_SELECT (customer_map d)) = filter (for_email email) (customer_map d)"
    by (auto simp: CUSTOMER_SELECT_def mine intro!: filter_cong)
  then show "customerRow email d = map_option customerRowOf
     (let mine = filter (for_email email) (customer_map d);
          stripe = filter (\<lambda>r. like_cus (cm_stripe_customer_id r)) mine
      in last_or_none (if stripe = [] then mine else stripe))"
    by (simp add: customerRow_def CUSTOMER_ORDER_def last_sort_key_bool Let_def)
qed

subsection \<open>The address-keyed tables as an interface\<close>

text \<open>What the bridge relies on in a table keyed by address: \<open>norm\<close> is what writing a value and
  reading it back makes of it.\<close>

locale address_table =
  fixes get_at :: "string \<Rightarrow> 'd \<Rightarrow> 'v option"
    and set_at :: "string \<Rightarrow> 'v option \<Rightarrow> 'd \<Rightarrow> 'd"
    and all_of :: "'d \<Rightarrow> (string \<times> 'v) list"
    and norm :: "'v \<Rightarrow> 'v"
    and ok :: "'d \<Rightarrow> bool"
  assumes get_set: "get_at a (set_at b v d) = (if toLowerCase a = toLowerCase b then map_option norm v else get_at a d)"
    and all_get: "ok d \<Longrightarrow> map_of (all_of d) (toLowerCase a) = get_at a d"
    and ok_set: "ok d \<Longrightarrow> ok (set_at b v d)"
begin

lemma get_case: "toLowerCase a = toLowerCase b \<Longrightarrow> get_at a (set_at b v d) = map_option norm v"
  by (simp add: get_set)

lemma get_other: "toLowerCase a \<noteq> toLowerCase b \<Longrightarrow> get_at a (set_at b v d) = get_at a d"
  by (simp add: get_set)

lemma last_write_wins: "get_at a (set_at b v (set_at b u d)) = get_at a (set_at b v d)"
  by (simp add: get_set)

lemma all_after_set:
  assumes "ok d"
  shows "map_of (all_of (set_at b v d)) (toLowerCase a) =
    (if toLowerCase a = toLowerCase b then map_option norm v else map_of (all_of d) (toLowerCase a))"
  using assms by (simp add: all_get ok_set get_set)

end

lemma keyed_get_set:
  assumes "\<And>v. decode (encode v) = Some (norm v)"
  shows "keyed_get decode (keyed_set encode b v t) a =
    (if toLowerCase a = toLowerCase b then map_option norm v else keyed_get decode t a)"
  using assms by (cases v) (auto simp: keyed_get_def keyed_set_def)

definition decoded :: "('c \<Rightarrow> 'v option) \<Rightarrow> string \<times> 'c \<Rightarrow> (string \<times> 'v) option" where
  "decoded decode e = map_option (\<lambda>v. (fst e, v)) (decode (snd e))"

lemma keyed_all_decoded: "keyed_all decode t = js_map (somes (map (decoded decode) t))"
proof -
  have "(\<lambda>(k, c). map_option (\<lambda>v. (k, v)) (decode c)) = decoded decode"
    by (simp add: fun_eq_iff decoded_def split_beta)
  then show ?thesis by (simp add: keyed_all_def)
qed

lemma keys_decoded: "fst ` set (somes (map (decoded decode) t)) \<subseteq> fst ` set t"
proof -
  have "k \<in> fst ` set t" if "Some (k, v) = decoded decode e" "e \<in> set t" for k v e
    using that by (cases "decode (snd e)") (auto simp: decoded_def)
  then show ?thesis by auto
qed

lemma decoded_lookup:
  "distinct_keys t \<Longrightarrow> distinct_keys (somes (map (decoded decode) t)) \<and>
     map_of (somes (map (decoded decode) t)) k = Option.bind (map_of t k) decode"
proof (induction t)
  case (Cons e t)
  have out: "fst e \<notin> fst ` set (somes (map (decoded decode) t))" and dk: "distinct_keys t"
    using Cons.prems keys_decoded [of decode t] by (auto simp: distinct_keys_def)
  note none = iffD2 [OF map_of_eq_None_iff out]
  show ?case
  proof (cases "decode (snd e)")
    case None
    then have "decoded decode e = None" by (simp add: decoded_def)
    then show ?thesis using Cons.IH [OF dk] none None by (cases e) (auto simp: distinct_keys_def)
  next
    case (Some v)
    then have "decoded decode e = Some (fst e, v)" by (simp add: decoded_def)
    then show ?thesis using Cons.IH [OF dk] out Some by (cases e) (auto simp: distinct_keys_def)
  qed
qed (simp add: distinct_keys_def)

lemma keyed_all_get:
  assumes "distinct_keys t"
  shows "map_of (keyed_all decode t) (toLowerCase a) = keyed_get decode t a"
  using decoded_lookup [OF assms, of decode]
  by (simp add: keyed_all_decoded js_map_distinct keyed_get_def)

lemma keyed_set_distinct: "distinct_keys t \<Longrightarrow> distinct_keys (keyed_set encode b v t)"
  by (auto simp: keyed_set_def split: option.splits)

interpretation tags: address_table getMemberTag setMemberTag allMemberTags id "\<lambda>d. distinct_keys (member_tags d)"
  by unfold_locales
    (simp_all add: getMemberTag_def setMemberTag_def allMemberTags_def keyed_all_get keyed_set_distinct
      keyed_get_set [where norm = id])

interpretation links: address_table getMemberLink setMemberLink allMemberLinks toLowerCase "\<lambda>d. distinct_keys (member_links d)"
  by unfold_locales
    (simp_all add: getMemberLink_def setMemberLink_def allMemberLinks_def keyed_all_get keyed_set_distinct
      keyed_get_set [where norm = toLowerCase])

interpretation downloads: address_table getMemberDownloads "\<lambda>a v d. case v of None \<Rightarrow>
    d\<lparr>member_downloads := keyed_set flag a None (member_downloads d)\<rparr> | Some allow \<Rightarrow> setMemberDownloads a allow d"
    allMemberDownloads id "\<lambda>d. distinct_keys (member_downloads d)"
  by unfold_locales
    (auto simp: getMemberDownloads_def setMemberDownloads_def allMemberDownloads_def keyed_all_get
      keyed_set_distinct keyed_get_set [where norm = id] flag_def split: option.splits)


subsection \<open>Every history of writes\<close>

text \<open>One write of the store.\<close>

inductive store_step :: "db \<Rightarrow> db \<Rightarrow> bool" where
  pending: "store_step d (upsertPending customerId email code tier at d)"
| pending_by_email: "upsertPendingByEmail email code tier at d = Inr d' \<Longrightarrow> store_step d d'"
| stamped: "stampInvited email at d = Inr d' \<Longrightarrow> store_step d d'"
| tiered: "setTier email t d = Inr d' \<Longrightarrow> store_step d d'"
| subscribed: "store_step d (setSubscribed email on d)"
| payment: "store_step d (setPaymentState email state d)"
| noted: "store_step d (setMemberNotes email text d)"
| tag: "store_step d (setMemberTag email tag d)"
| downloads: "store_step d (setMemberDownloads email allow d)"
| link: "store_step d (setMemberLink email plex d)"
| processed: "store_step d (markEventProcessed event d)"
| history: "store_step d (append_event at email action detail d)"
| issued: "store_step d (recordInviteIssuance operation code d)"
| emailed: "store_step d (markInviteEmailed operation d)"
| baseline: "store_step d (recordBaselineInvite code tier_text expires created d)"
| forgotten: "store_step d (forgetBaselineInvite code d)"

definition empty_db :: db where
  \<comment> \<open>the tables \<open>initSchema\<close> creates\<close>
  "empty_db = \<lparr>customer_map = [], processed_events = [], member_notes = [], member_tags = [],
     member_downloads = [], event_log = [], event_seq = 0, session_invites = [],
     baseline_invites = [], member_links = []\<rparr>"

definition db_ok :: "db \<Rightarrow> bool" where
  "db_ok d \<longleftrightarrow> distinct (map cm_stripe_customer_id (customer_map d)) \<and> distinct (processed_events d) \<and>
     distinct_keys (member_notes d) \<and> distinct_keys (member_tags d) \<and> distinct_keys (member_downloads d) \<and>
     distinct_keys (member_links d) \<and> distinct_keys (session_invites d) \<and>
     distinct (map bl_code (baseline_invites d)) \<and>
     sorted_wrt (<) (map ev_id (event_log d) @ [event_seq d + 1])"

lemma write_columns_id [simp]: "cm_stripe_customer_id (write_columns cols r) = cm_stripe_customer_id r"
proof -
  have "cm_stripe_customer_id (write_column c r) = cm_stripe_customer_id r" for c r
    by (cases c; cases "fst c") auto
  then show ?thesis
    unfolding write_columns_def by (induction cols arbitrary: r) simp_all
qed

lemma map_if_ids: "(\<And>r. cm_stripe_customer_id (f r) = cm_stripe_customer_id r) \<Longrightarrow>
    cm_stripe_customer_id \<circ> (\<lambda>r. if P r then f r else r) = cm_stripe_customer_id"
  by (auto simp: fun_eq_iff)

lemma update_customers_ok: "(\<And>r. cm_stripe_customer_id (f r) = cm_stripe_customer_id r) \<Longrightarrow>
    db_ok d \<Longrightarrow> db_ok (update_customers email f d)"
  by (simp add: db_ok_def update_customers_def map_if_ids)

lemma setByEmailOrPlaceholder_ok:
  assumes "setByEmailOrPlaceholder email cols d = Inr d'" "db_ok d"
  shows "db_ok d'"
proof (cases "list_ex (for_email email) (customer_map d)")
  case True
  then show ?thesis using assms by (auto simp: setByEmailOrPlaceholder_def db_ok_def map_if_ids)
next
  case False
  then show ?thesis using assms
    by (fastforce simp: setByEmailOrPlaceholder_def db_ok_def blank_customer_def list_ex_iff split: if_splits)
qed

lemma upsertPending_ok: "db_ok d \<Longrightarrow> db_ok (upsertPending customerId email code tier at d)"
proof -
  let ?kept = "filter (\<lambda>r. cm_stripe_customer_id r \<noteq> admin_key email) (customer_map d)"
  assume "db_ok d"
  then have "distinct (map cm_stripe_customer_id ?kept)"
    unfolding db_ok_def by (auto intro: distinct_map_filter)
  then show ?thesis using \<open>db_ok d\<close>
    by (auto simp: upsertPending_def Let_def db_ok_def blank_customer_def list_ex_iff map_if_ids)
qed

lemma session_keys_emailed: "fst \<circ> (\<lambda>(k, r). if k = key then (k, f r) else (k, r)) = fst"
  by (auto simp: fun_eq_iff)

text \<open>Whatever is written, in whatever order, every table keeps its primary key unique and the
  history keeps strictly increasing ids, none of which is handed out again.\<close>

theorem store_keys_stay_unique:
  assumes "store_step\<^sup>*\<^sup>* empty_db d"
  shows "db_ok d"
  using assms
proof (induction rule: rtranclp_induct)
  case base
  show ?case by (simp add: db_ok_def empty_db_def distinct_keys_def)
next
  case (step d d')
  from step.hyps(2) step.IH show ?case
  proof (induction rule: store_step.induct)
    case (emailed d operation)
    then show ?case by (simp add: db_ok_def markInviteEmailed_def distinct_keys_def session_keys_emailed)
  next
    case (issued d operation code)
    then show ?case
      by (auto simp: db_ok_def recordInviteIssuance_def distinct_keys_def map_of_eq_None_iff split: option.splits)
  next
    case (baseline d code tier_text expires created)
    then show ?case by (auto simp: db_ok_def recordBaselineInvite_def intro: distinct_map_filter)
  next
    case (forgotten d code)
    then show ?case by (auto simp: db_ok_def forgetBaselineInvite_def intro: distinct_map_filter)
  next
    case (history d at email action detail)
    then show ?case by (force simp: db_ok_def append_event_def sorted_wrt_append)
  next
    case (subscribed d email on)
    then show ?case unfolding setSubscribed_def by (rule_tac update_customers_ok) simp_all
  next
    case (payment d email state)
    then show ?case unfolding setPaymentState_def by (rule_tac update_customers_ok) simp_all
  next
    case (pending d customerId email code tier at)
    then show ?case by (rule_tac upsertPending_ok)
  next
    case (pending_by_email email code tier at d d')
    then show ?case unfolding upsertPendingByEmail_def by (rule_tac setByEmailOrPlaceholder_ok)
  next
    case (stamped email at d d')
    then show ?case unfolding stampInvited_def by (rule_tac setByEmailOrPlaceholder_ok)
  next
    case (tiered email t d d')
    then show ?case unfolding setTier_def by (rule_tac setByEmailOrPlaceholder_ok)
  qed (simp_all add: db_ok_def setMemberNotes_def setMemberTag_def setMemberDownloads_def
      setMemberLink_def markEventProcessed_def keyed_set_distinct)
qed

theorem store_keys_stay_unique_witness:
  "db_ok (append_event ''t'' ''A@x'' ''Signed up'' ''''
     (upsertPending ''cus_1'' ''A@x'' ''k'' (Some Gold) ''t'' (markEventProcessed ''evt'' empty_db)))"
  by (rule store_keys_stay_unique)
    (meson store_step.history store_step.pending store_step.processed rtranclp.rtrancl_refl rtranclp.rtrancl_into_rtrancl)

text \<open>What later writes may not take back: an issued invite stays bound to its operation and a
  delivered one stays delivered, a processed event stays processed, and the history only grows.\<close>

definition durable :: "db \<Rightarrow> db \<Rightarrow> bool" where
  "durable d d' \<longleftrightarrow>
     (\<forall>operation i. getInviteIssuance operation d = Some i \<longrightarrow>
        (\<exists>i'. getInviteIssuance operation d' = Some i' \<and> iss_invite_code i' = iss_invite_code i \<and>
          (iss_emailed i \<longrightarrow> iss_emailed i'))) \<and>
     set (processed_events d) \<subseteq> set (processed_events d') \<and>
     (\<exists>new. event_log d' = event_log d @ new)"

lemma durable_refl: "durable d d"
  by (auto simp: durable_def)

lemma durable_trans: "durable d d' \<Longrightarrow> durable d' d'' \<Longrightarrow> durable d d''"
  unfolding durable_def by (fastforce dest: spec)

lemma durable_same:
  "session_invites d' = session_invites d \<Longrightarrow> processed_events d' = processed_events d \<Longrightarrow>
   event_log d' = event_log d \<Longrightarrow> durable d d'"
  by (auto simp: durable_def getInviteIssuance_def)

lemma map_of_emailed: "map_of (map (\<lambda>(k, r). if k = key then (k, f r) else (k, r)) m) k =
    (if k = key then map_option f (map_of m k) else map_of m k)"
  by (induction m) auto

lemma store_step_durable: "store_step d d' \<Longrightarrow> durable d d'"
proof (induction rule: store_step.induct)
  case (issued d operation code)
  show ?case
    by (auto simp: durable_def getInviteIssuance_def recordInviteIssuance_def map_add_Some_iff split: option.splits)
next
  case (emailed d operation)
  show ?case
    by (auto simp: durable_def getInviteIssuance_def markInviteEmailed_def map_of_emailed)
next
  case (processed d event)
  show ?case by (auto simp: durable_def getInviteIssuance_def markEventProcessed_def)
next
  case (history d at email action detail)
  show ?case by (auto simp: durable_def getInviteIssuance_def append_event_def)
qed (rule durable_same; simp add: upsertPending_def upsertPendingByEmail_def stampInvited_def setTier_def
    setByEmailOrPlaceholder_def setSubscribed_def setPaymentState_def update_customers_def setMemberNotes_def
    setMemberTag_def setMemberDownloads_def setMemberLink_def recordBaselineInvite_def forgetBaselineInvite_def
    Let_def split: if_splits; auto)+

text \<open>C39: No later write takes back what a retry relies on: the invite bound to a checkout or a
  recovery stays the same invite, one marked as mailed stays so, a processed event stays
  processed, and the members' history only grows at its end.\<close>

theorem store_bindings_durable:
  assumes "store_step\<^sup>*\<^sup>* d d'"
  shows "durable d d'"
  using assms by (induction rule: rtranclp_induct) (auto intro: durable_refl durable_trans store_step_durable)

theorem store_bindings_durable_witness:
  "durable (recordInviteIssuance (Checkout ''cs'') ''k'' empty_db)
     (recordInviteIssuance (Checkout ''cs'') ''other'' (recordInviteIssuance (Checkout ''cs'') ''k'' empty_db)) \<and>
   map_option iss_invite_code (getInviteIssuance (Checkout ''cs'')
     (recordInviteIssuance (Checkout ''cs'') ''other'' (recordInviteIssuance (Checkout ''cs'') ''k'' empty_db))) = Some ''k''"
  by (intro conjI store_bindings_durable)
    (meson store_step.issued rtranclp.rtrancl_refl rtranclp.rtrancl_into_rtrancl, code_simp)

end
