(* ===== verification/Ports.thy ===== *)
theory Ports imports Store begin

text \<open>
  What the bridge talks to. \<open>Wizarr\<close>, \<open>plex.tv\<close>, Stripe, SMTP, SQLite's failures and the clock are
  not code of the repository: the record \<open>env\<close> holds one function per kind of answer, each
  told everything that was asked before, so an answer may depend on the whole history and may be
  a failure at any point. The world is the tables and the log of what was asked, in order. One
  delivery runs at a time (\<open>serialQueue\<close> of
  \<open>apps/stripe-bridge/src/webhook/webhookController.ts\<close>), so a computation is not interleaved
  with another. Log lines are left out.
\<close>

subsection \<open>Requests\<close>

text \<open>One constructor per endpoint of Wizarr the client calls.\<close>

record invite_payload =
  pl_server_ids :: "int list"
  pl_expires_in_days :: int
  pl_duration :: string
  pl_unlimited :: bool
  pl_allow_downloads :: bool
  pl_library_ids :: "int list option"

datatype wizarr_request =
    GetLibraries
  | PostInvitation invite_payload
  | GetInvitations
  | DeleteInvitation int
  | GetUsers "string option"
  | PutExpiry int "string option"
  | PostDisable int

datatype stripe_request =
    RetrieveCustomer string
  | SearchCustomers string
  | ListCustomers string
  | ListSubscriptions "string option"
  | FlagCancelAtPeriodEnd string
  | CancelSubscription string
  | ListOpenInvoices string
  | VoidInvoice string

record sdk_customer =
  sdk_deleted :: bool
  sdk_email :: "string option"

text \<open>A subscription's customer is an id, or the customer itself when it was expanded.\<close>

datatype sdk_customer_ref = CustomerId string | CustomerObject string

record sdk_subscription =
  sdk_id :: string
  sdk_customer_ref :: sdk_customer_ref
  sdk_status :: string
  sdk_cancel_at_period_end :: bool
  sdk_cancel_at :: "int option"

record mail_message =
  mail_to :: string
  mail_subject :: string
  mail_text :: string
  mail_html :: "string option"

text \<open>A parsed element of a plex.tv document: tag, attributes, children in document order.\<close>

datatype xml_element = XmlElement (xml_tag: string) (xml_attributes: "(string \<times> string) list") (xml_children: "xml_element list")

datatype call =
    WizarrCall wizarr_request
  | PlexCall string
  | StripeCall stripe_request
  | MailCall mail_message
  | ClockRead
  | SqlUnit

subsection \<open>The environment and the world\<close>

record env =
  settings_of :: settings
  wizarr_base :: string
  plex_token :: string
  plex_base :: string
  alert_addresses :: "string list"
  wizarr_answer :: "call list \<Rightarrow> wizarr_request \<Rightarrow> exn + (nat \<times> json)"
  plex_answer :: "call list \<Rightarrow> string \<Rightarrow> exn + (nat \<times> (exn + xml_element))"
  customer_answer :: "call list \<Rightarrow> string \<Rightarrow> exn + sdk_customer"
  customers_answer :: "call list \<Rightarrow> stripe_request \<Rightarrow> exn + string list"
  subscriptions_answer :: "call list \<Rightarrow> stripe_request \<Rightarrow> exn + sdk_subscription list"
  update_answer :: "call list \<Rightarrow> stripe_request \<Rightarrow> exn + sdk_subscription"
  invoices_answer :: "call list \<Rightarrow> stripe_request \<Rightarrow> exn + string option list"
  stripe_ack :: "call list \<Rightarrow> stripe_request \<Rightarrow> exn option"
  smtp_fault :: "call list \<Rightarrow> mail_message \<Rightarrow> exn option"
  sqlite_fault :: "call list \<Rightarrow> exn option"
  clock :: "call list \<Rightarrow> int"

record world =
  w_db :: db
  w_trace :: "call list"

type_synonym 'a run = "(world, 'a) io"

definition logged :: "call \<Rightarrow> world \<Rightarrow> world" where
  "logged c w = w\<lparr>w_trace := w_trace w @ [c]\<rparr>"

definition ask :: "call \<Rightarrow> (call list \<Rightarrow> exn + 'a) \<Rightarrow> 'a run" where
  "ask c answer = (\<lambda>w. (answer (w_trace w), logged c w))"

definition readClock :: "env \<Rightarrow> int run" where
  \<comment> \<open>\<open>new Date()\<close>\<close>
  "readClock b = ask ClockRead (\<lambda>h. Inr (clock b h))"

text \<open>A unit of work on a connection of its own (\<open>withSqlite\<close> of
  \<open>libs/server-common/src/sqlite.ts\<close>): committed when it returns, rolled back when it throws.\<close>

definition sql_read :: "env \<Rightarrow> (db \<Rightarrow> 'a) \<Rightarrow> 'a run" where
  "sql_read b f = (\<lambda>w. (case sqlite_fault b (w_trace w) of
     Some e \<Rightarrow> (Inl e, logged SqlUnit w)
   | None \<Rightarrow> (Inr (f (w_db w)), logged SqlUnit w)))"

definition sql_write :: "env \<Rightarrow> (db \<Rightarrow> exn + db) \<Rightarrow> unit run" where
  "sql_write b f = (\<lambda>w. (case sqlite_fault b (w_trace w) of
     Some e \<Rightarrow> (Inl e, logged SqlUnit w)
   | None \<Rightarrow> (case f (w_db w) of
       Inl e \<Rightarrow> (Inl e, logged SqlUnit w)
     | Inr d \<Rightarrow> (Inr (), logged SqlUnit (w\<lparr>w_db := d\<rparr>)))))"

subsection \<open>The store's operations in the world\<close>

definition sql_update :: "env \<Rightarrow> (db \<Rightarrow> db) \<Rightarrow> unit run" where
  "sql_update b f = sql_write b (\<lambda>d. Inr (f d))"

definition recordEvent :: "env \<Rightarrow> string \<Rightarrow> string \<Rightarrow> string \<Rightarrow> unit run" where
  \<comment> \<open>never throws: an audit trail must not break the action it records\<close>
  "recordEvent b email action detail = catchM
     (bindM (readClock b) (\<lambda>now. sql_update b (append_event (isoformat now) email action detail)))
     (\<lambda>_. ret ())"

definition run_upsertPending :: "env \<Rightarrow> string \<Rightarrow> string \<Rightarrow> string \<Rightarrow> tier option \<Rightarrow> unit run" where
  "run_upsertPending b customerId email inviteCode tier = bindM (readClock b) (\<lambda>now.
     sql_update b (upsertPending customerId email inviteCode tier (isoformat now)))"

definition run_upsertPendingByEmail :: "env \<Rightarrow> string \<Rightarrow> string \<Rightarrow> tier option \<Rightarrow> unit run" where
  "run_upsertPendingByEmail b email inviteCode tier = bindM (readClock b) (\<lambda>now.
     sql_write b (upsertPendingByEmail email inviteCode tier (isoformat now)))"

definition run_stampInvited :: "env \<Rightarrow> string \<Rightarrow> unit run" where
  "run_stampInvited b email = bindM (readClock b) (\<lambda>now. sql_write b (stampInvited email (isoformat now)))"

subsection \<open>Rules for the primitives\<close>

lemma wp_ask [wp_simps]:
  "wp (ask c answer) Q E w = (case answer (w_trace w) of Inr x \<Rightarrow> Q x (logged c w) | Inl e \<Rightarrow> E e (logged c w))"
  by (simp add: wp_def ask_def split: sum.splits)

lemma wp_readClock [wp_simps]: "wp (readClock b) Q E w = Q (clock b (w_trace w)) (logged ClockRead w)"
  by (simp add: readClock_def wp_simps)

lemma wp_sql_read [wp_simps]:
  "wp (sql_read b f) Q E w = (case sqlite_fault b (w_trace w) of
     Some e \<Rightarrow> E e (logged SqlUnit w) | None \<Rightarrow> Q (f (w_db w)) (logged SqlUnit w))"
  by (simp add: wp_def sql_read_def split: option.splits)

lemma wp_sql_write [wp_simps]:
  "wp (sql_write b f) Q E w = (case sqlite_fault b (w_trace w) of
     Some e \<Rightarrow> E e (logged SqlUnit w)
   | None \<Rightarrow> (case f (w_db w) of Inl e \<Rightarrow> E e (logged SqlUnit w)
       | Inr d \<Rightarrow> Q () (logged SqlUnit (w\<lparr>w_db := d\<rparr>))))"
  by (simp add: wp_def sql_write_def split: option.splits sum.splits)

lemma wp_sql_update [wp_simps]:
  "wp (sql_update b f) Q E w = (case sqlite_fault b (w_trace w) of
     Some e \<Rightarrow> E e (logged SqlUnit w)
   | None \<Rightarrow> Q () (logged SqlUnit (w\<lparr>w_db := f (w_db w)\<rparr>)))"
  by (simp add: sql_update_def wp_simps split: option.splits)

lemma logged_sel [simp]: "w_db (logged c w) = w_db w" "w_trace (logged c w) = w_trace w @ [c]"
  by (simp_all add: logged_def)

lemma recordEvent_never_throws [simp]: "never_throws (recordEvent b email action detail)"
  by (simp add: recordEvent_def never_throws_catchM)

subsection \<open>What a computation asks for and writes\<close>

text \<open>Every request a computation adds to the log satisfies \<open>P\<close>.\<close>

definition emits :: "(call \<Rightarrow> bool) \<Rightarrow> world \<Rightarrow> world \<Rightarrow> bool" where
  "emits P w w' \<longleftrightarrow> (\<exists>new. w_trace w' = w_trace w @ new \<and> list_all P new)"

text \<open>A computation leaves a part of the tables as it was, or changes the tables only along a
  reflexive and transitive relation.\<close>

definition same_table :: "(db \<Rightarrow> 'a) \<Rightarrow> world \<Rightarrow> world \<Rightarrow> bool" where
  "same_table f w w' \<longleftrightarrow> f (w_db w') = f (w_db w)"

definition durably :: "world \<Rightarrow> world \<Rightarrow> bool" where
  "durably w w' \<longleftrightarrow> durable (w_db w) (w_db w')"

interpretation emit: frame "emits P" for P
proof
  show "emits P s s" for s by (simp add: emits_def)
  show "emits P s t \<Longrightarrow> emits P t u \<Longrightarrow> emits P s u" for s t u
    unfolding emits_def by (metis append.assoc list_all_append)
qed

interpretation table: frame "same_table f" for f
  by unfold_locales (simp_all add: same_table_def)

interpretation dur: frame durably
  by unfold_locales (auto simp: durably_def intro: durable_refl durable_trans)

lemma emits_mono: "emits P w w' \<Longrightarrow> (\<And>c. P c \<Longrightarrow> Q c) \<Longrightarrow> emits Q w w'"
  by (auto simp: emits_def list_all_iff)

lemma emits_one [simp]: "emits P w (logged c w) \<longleftrightarrow> P c"
  by (simp add: emits_def)

lemma emits_logged: "emits P w t \<Longrightarrow> P c \<Longrightarrow> emits P w (logged c t)"
  by (auto simp: emits_def)

lemma emits_ask: "P c \<Longrightarrow> keeps (emits P) (ask c answer)"
  by (simp add: keeps_def ask_def)

lemma emits_clock: "P ClockRead \<Longrightarrow> keeps (emits P) (readClock b)"
  by (simp add: readClock_def emits_ask)

lemma emits_sql_read: "P SqlUnit \<Longrightarrow> keeps (emits P) (sql_read b f)"
  by (simp add: keeps_def sql_read_def split: option.splits)

lemma emits_sql_write: "P SqlUnit \<Longrightarrow> keeps (emits P) (sql_write b f)"
  by (simp add: keeps_def sql_write_def emits_def split: option.splits sum.splits)

lemma emits_sql_update: "P SqlUnit \<Longrightarrow> keeps (emits P) (sql_update b f)"
  by (simp add: sql_update_def emits_sql_write)

lemma emits_recordEvent:
  "P ClockRead \<Longrightarrow> P SqlUnit \<Longrightarrow> keeps (emits P) (recordEvent b email action detail)"
  unfolding recordEvent_def by (intro emit.k_intros emits_clock emits_sql_update)

lemmas emits_intros = emit.k_intros emits_ask emits_clock emits_sql_read emits_sql_write emits_sql_update
  emits_recordEvent

lemma table_ask: "keeps (same_table f) (ask c answer)"
  by (simp add: keeps_def ask_def same_table_def)

lemma table_clock: "keeps (same_table f) (readClock b)"
  by (simp add: readClock_def table_ask)

lemma table_sql_read: "keeps (same_table f) (sql_read b g)"
  by (simp add: keeps_def sql_read_def same_table_def split: option.splits)

lemma table_sql_update: "(\<And>d. f (g d) = f d) \<Longrightarrow> keeps (same_table f) (sql_update b g)"
  by (simp add: keeps_def sql_update_def sql_write_def same_table_def split: option.splits)

lemma table_sql_write: "(\<And>d d'. g d = Inr d' \<Longrightarrow> f d' = f d) \<Longrightarrow> keeps (same_table f) (sql_write b g)"
  by (simp add: keeps_def sql_write_def same_table_def split: option.splits sum.splits)

lemma table_recordEvent:
  "(\<And>at d. f (append_event at email action detail d) = f d) \<Longrightarrow> keeps (same_table f) (recordEvent b email action detail)"
  unfolding recordEvent_def by (intro table.k_intros table_clock table_sql_update)

lemmas table_intros = table.k_intros table_ask table_clock table_sql_read table_sql_update table_sql_write
  table_recordEvent

lemma dur_ask: "keeps durably (ask c answer)"
  by (simp add: keeps_def ask_def durably_def durable_refl)

lemma dur_clock: "keeps durably (readClock b)"
  by (simp add: readClock_def dur_ask)

lemma dur_sql_read: "keeps durably (sql_read b g)"
  by (simp add: keeps_def sql_read_def durably_def durable_refl split: option.splits)

lemma dur_sql_write: "(\<And>d d'. g d = Inr d' \<Longrightarrow> durable d d') \<Longrightarrow> keeps durably (sql_write b g)"
  by (simp add: keeps_def sql_write_def durably_def durable_refl split: option.splits sum.splits)

lemma dur_sql_update: "(\<And>d. store_step d (g d)) \<Longrightarrow> keeps durably (sql_update b g)"
  unfolding sql_update_def by (rule dur_sql_write) (auto intro: store_step_durable)

lemma dur_recordEvent: "keeps durably (recordEvent b email action detail)"
  unfolding recordEvent_def by (intro dur.k_intros dur_clock dur_sql_update store_step.history)

lemmas dur_intros = dur.k_intros dur_ask dur_clock dur_sql_read dur_sql_update dur_recordEvent

lemma wp_same: "keeps (same_table f) m \<Longrightarrow> wp m (\<lambda>_ v. f (w_db v) = f (w_db w)) (\<lambda>_ v. f (w_db v) = f (w_db w)) w"
  unfolding keeps_wp same_table_def by blast

end
