(* ===== verification/Identity.thy ===== *)
theory Identity imports Standing begin

text \<open>
  Who a member is (\<open>apps/stripe-bridge/src/identity.ts\<close>): every address that belongs to them
  and every Wizarr record they hold, from one snapshot; the redeemer of an invite
  (\<open>redeemerRecord\<close> of \<open>apps/stripe-bridge/src/clients/wizarr.ts\<close>); and the rule the link
  route enforces (\<open>apps/stripe-bridge/src/memberLinks.ts\<close>). The maps of the source are
  association lists in insertion order.
\<close>

subsection \<open>Redeemers\<close>

definition used_by_record :: "string \<Rightarrow> nat option" where
  \<comment> \<open>\<open>USED_BY_REPR = /^\s*<User (\d+)>\s*$/\<close>, with the number it captures\<close>
  "used_by_record s =
     (let t = dropWhile is_space s; ds = takeWhile is_digit (drop 6 t); rest = dropWhile is_digit (drop 6 t)
      in if starts_with ''<User '' t \<and> ds \<noteq> [] \<and> starts_with ''>'' rest \<and> list_all is_space (tl rest)
         then Some (read_nat ds) else None)"

definition redeemerRecord :: "invitation \<Rightarrow> wizarr_user list \<Rightarrow> wizarr_user option" where
  "redeemerRecord invitation users = (case inv_used_by invitation of
     Some (JStr usedBy) \<Rightarrow>
       if usedBy = [] then None
       else (case used_by_record usedBy of
           Some recordId \<Rightarrow> List.find (\<lambda>user. usr_id user = int recordId) users
         | None \<Rightarrow> List.find (\<lambda>user. toLowerCase (text_or_empty (usr_username user)) = toLowerCase usedBy) users)
   | _ \<Rightarrow> None)"

definition redeemerEmail :: "invitation \<Rightarrow> wizarr_user list \<Rightarrow> string option" where
  "redeemerEmail invitation users = nonempty (Some (toLowerCase (text_or_empty
     (Option.bind (redeemerRecord invitation users) usr_email))))"

subsection \<open>The snapshot and its links\<close>

record identity_snapshot =
  snap_users :: "wizarr_user list"
  snap_invitations :: "invitation list"
  snap_links :: "(string \<times> string) list"
  snap_invites :: "(string \<times> string) list"

datatype identity_via = ViaEmail | ViaLink | ViaInvite | ViaNone

record identity =
  primaryAddress :: "string option"
  addresses :: "string list"
  id_records :: "wizarr_user list"
  via :: identity_via

definition emailOf :: "wizarr_user \<Rightarrow> string" where
  "emailOf user = toLowerCase (trim (text_or_empty (usr_email user)))"

definition recordsAt :: "wizarr_user list \<Rightarrow> string \<Rightarrow> wizarr_user list" where
  "recordsAt users address = filter (\<lambda>user. emailOf user = address) users"

definition redeemerOf :: "identity_snapshot \<Rightarrow> string option \<Rightarrow> wizarr_user option" where
  "redeemerOf snapshot inviteCode =
     (case (case nonempty inviteCode of
          Some code \<Rightarrow> List.find (\<lambda>row. toLowerCase (text_or_empty (inv_code row)) = toLowerCase code)
            (snap_invitations snapshot)
        | None \<Rightarrow> None) of
        Some invitation \<Rightarrow> redeemerRecord invitation (snap_users snapshot)
      | None \<Rightarrow> None)"

definition redeemerRecords :: "wizarr_user list \<Rightarrow> wizarr_user option \<Rightarrow> wizarr_user list" where
  "redeemerRecords users redeemer = (case redeemer of
     None \<Rightarrow> []
   | Some r \<Rightarrow> (let address = emailOf r in if address = [] then [r] else recordsAt users address))"

definition implied_link :: "identity_snapshot \<Rightarrow> string \<times> string \<Rightarrow> (string \<times> string) list" where
  "implied_link snapshot invite = (case invite of (payer, code) \<Rightarrow>
     (let plex = (case redeemerOf snapshot (Some code) of Some r \<Rightarrow> emailOf r | None \<Rightarrow> []) in
      if plex \<noteq> [] \<and> plex \<noteq> payer then [(payer, plex)] else []))"

definition impliedLinks :: "identity_snapshot \<Rightarrow> (string \<times> string) list" where
  "impliedLinks snapshot = js_map (concat (map (implied_link snapshot) (snap_invites snapshot)))"

definition owner_of :: "(string \<times> string) list \<Rightarrow> string \<Rightarrow> string" where
  \<comment> \<open>\<open>links.get(address) ?? address\<close>\<close>
  "owner_of links address = option_text address (map_of links address)"

definition linkedTo :: "(string \<times> string) list \<Rightarrow> string list \<Rightarrow> string list" where
  "linkedTo links seeds =
     (let owners = js_set (map (owner_of links) seeds);
          payers = map fst (filter (\<lambda>(_, plex). plex \<in> set owners) links)
      in js_set (seeds @ owners @ payers))"

definition everyRecord :: "identity_snapshot \<Rightarrow> identity \<Rightarrow> wizarr_user list" where
  "everyRecord snapshot ident =
     (let found = set (map usr_id (id_records ident)) in
      id_records ident @
      filter (\<lambda>user. usr_id user \<notin> found \<and> emailOf user \<in> set (addresses ident)) (snap_users snapshot))"

text \<open>The merged link map of \<open>identityFor\<close>: a stated link outranks the one a redemption
  implies for the same payer.\<close>

definition all_links :: "identity_snapshot \<Rightarrow> (string \<times> string) list" where
  "all_links snapshot = js_map (impliedLinks snapshot @ filter (\<lambda>(_, destination). destination \<noteq> []) (snap_links snapshot))"

definition asked_address :: "string option \<Rightarrow> string option" where
  \<comment> \<open>\<open>email ? email.trim().toLowerCase() : null\<close>\<close>
  "asked_address email = map_option (\<lambda>e. toLowerCase (trim e)) (nonempty email)"

definition identityFor :: "identity_snapshot \<Rightarrow> string option \<Rightarrow> string option \<Rightarrow> identity" where
  "identityFor snapshot email inviteCode =
     (let address = asked_address email;
          redeemer = redeemerOf snapshot inviteCode;
          redeemerAddress = (case redeemer of Some r \<Rightarrow> emailOf r | None \<Rightarrow> []);
          seeds = filter (\<lambda>seed. seed \<noteq> []) [text_or_empty address, redeemerAddress];
          links = all_links snapshot;
          seed = (case address of Some a \<Rightarrow> Some a | None \<Rightarrow> nonempty (Some redeemerAddress));
          primary = map_option (owner_of links) seed;
          addrs = linkedTo links seeds;
          byEmail = (case nonempty address of Some a \<Rightarrow> recordsAt (snap_users snapshot) a | None \<Rightarrow> [])
      in if byEmail \<noteq> [] then
           \<lparr>primaryAddress = primary, addresses = addrs, id_records = byEmail, via = ViaEmail\<rparr>
         else let linked = (case nonempty address of Some a \<Rightarrow> map_of (snap_links snapshot) a | None \<Rightarrow> None);
                  byLink = (case nonempty linked of Some l \<Rightarrow> recordsAt (snap_users snapshot) l | None \<Rightarrow> [])
         in if byLink \<noteq> [] then
           \<lparr>primaryAddress = primary, addresses = addrs, id_records = byLink, via = ViaLink\<rparr>
         else let byInvite = redeemerRecords (snap_users snapshot) redeemer
         in \<lparr>primaryAddress = primary, addresses = addrs, id_records = byInvite,
              via = (if byInvite \<noteq> [] then ViaInvite else ViaNone)\<rparr>)"

subsection \<open>The link route's rule\<close>

text \<open>\<open>None\<close> when the link is accepted; otherwise why it is not.\<close>

definition memberLinkConflict :: "(string \<times> string) list \<Rightarrow> string \<Rightarrow> string option \<Rightarrow> string option" where
  "memberLinkConflict links stripeEmail plexEmail = (case plexEmail of
     None \<Rightarrow> None
   | Some plex \<Rightarrow>
       if stripeEmail = plex then Some ''an address cannot link to itself''
       else (let proposed = map_put stripeEmail plex links in
         case List.find (\<lambda>(_, destination). map_of proposed destination \<noteq> None) proposed of
           None \<Rightarrow> None
         | Some (_, destination) \<Rightarrow>
             Some (destination @ '' already pays under '' @ text_or_empty (map_of proposed destination) @
               ''; unlink it first'')))"

text \<open>Stars: no address both pays for someone and is paid for.\<close>

definition star_links :: "(string \<times> string) list \<Rightarrow> bool" where
  "star_links links \<longleftrightarrow> (\<forall>(p, d) \<in> set links. d \<notin> fst ` set links)"

lemma star_links_put_self: "\<not> star_links (map_put s s links)"
proof -
  have "map_of (map_put s s links) s = Some s" by simp
  then have "(s, s) \<in> set (map_put s s links)" by (rule map_of_SomeD)
  then show ?thesis by (force simp: star_links_def)
qed

lemma no_chain_iff:
  "List.find (\<lambda>(_, e). map_of links e \<noteq> None) links = None \<longleftrightarrow> star_links links"
  unfolding find_None star_links_def by (auto simp: map_of_eq_None_iff)

lemma link_accepted_iff:
  "(memberLinkConflict links s (Some d) = None \<longleftrightarrow> star_links (map_put s d links)) \<and>
   memberLinkConflict links s None = None"
proof (cases "s = d")
  case True
  then show ?thesis using star_links_put_self [of s links] by (simp add: memberLinkConflict_def)
next
  case False
  then have "memberLinkConflict links s (Some d) = None \<longleftrightarrow>
      List.find (\<lambda>(_, e). map_of (map_put s d links) e \<noteq> None) (map_put s d links) = None"
    by (simp add: memberLinkConflict_def Let_def split: option.splits prod.splits del: map_of_map_put)
  then show ?thesis unfolding no_chain_iff by (simp add: memberLinkConflict_def)
qed

text \<open>The link route accepts a link exactly when, with it, every stated link points from an
  address that is only ever a payer to one that is only ever a Plex account. Removing a link is
  always accepted.\<close>

theorem link_route_keeps_stars:
  "(memberLinkConflict links s (Some d) = None \<longleftrightarrow> star_links (map_put s d links)) \<and>
   memberLinkConflict links s None = None"
  by (rule link_accepted_iff)

subsection \<open>Who a person is\<close>

lemma owner_of_simps: "map_of links a = Some d \<Longrightarrow> owner_of links a = d"
  "map_of links a = None \<Longrightarrow> owner_of links a = a"
  by (simp_all add: owner_of_def option_text_def)

lemma set_linkedTo: "set (linkedTo links seeds) =
    set seeds \<union> owner_of links ` set seeds \<union> {p. \<exists>d. (p, d) \<in> set links \<and> d \<in> owner_of links ` set seeds}"
  by (auto simp: linkedTo_def Let_def image_iff) force

lemma star_owner:
  assumes "star_links links"
  shows "map_of links (owner_of links a) = None"
proof (cases "map_of links a")
  case None
  then show ?thesis by (simp add: owner_of_simps)
next
  case (Some d)
  then have "(a, d) \<in> set links" by (rule map_of_SomeD)
  then show ?thesis using assms Some by (auto simp: owner_of_simps star_links_def map_of_eq_None_iff)
qed

text \<open>While the links are stars, the addresses worked out for a person do not depend on which
  of them was asked about: two addresses belong together exactly when they lead to the same Plex
  account, so belonging together is reflexive, symmetric and transitive.\<close>

theorem linked_addresses_are_one_person:
  assumes "star_links links" "distinct_keys links"
  shows "b \<in> set (linkedTo links [a]) \<longleftrightarrow> owner_of links b = owner_of links a"
proof
  assume "b \<in> set (linkedTo links [a])"
  then consider "b = a" | "b = owner_of links a" | d where "(b, d) \<in> set links" "d = owner_of links a"
    by (auto simp: set_linkedTo)
  then show "owner_of links b = owner_of links a"
  proof cases
    case 2
    then show ?thesis using star_owner [OF assms(1), of a] by (simp add: owner_of_simps)
  next
    case 3
    then show ?thesis using map_of_iff [OF assms(2)] by (metis owner_of_simps(1))
  qed simp
next
  assume eq: "owner_of links b = owner_of links a"
  show "b \<in> set (linkedTo links [a])"
  proof (cases "map_of links b")
    case None
    then show ?thesis using eq by (auto simp: set_linkedTo owner_of_simps)
  next
    case (Some d)
    then have "(b, d) \<in> set links" by (rule map_of_SomeD)
    then show ?thesis using eq Some by (auto simp: set_linkedTo owner_of_simps)
  qed
qed

theorem linked_addresses_are_one_person_witness:
  "(''b@x'' \<in> set (linkedTo [(''a@x'', ''p@x''), (''b@x'', ''p@x'')] [''a@x''])) \<longleftrightarrow>
   owner_of [(''a@x'', ''p@x''), (''b@x'', ''p@x'')] ''b@x'' = owner_of [(''a@x'', ''p@x''), (''b@x'', ''p@x'')] ''a@x''"
  by (rule linked_addresses_are_one_person) (simp_all add: star_links_def distinct_keys_def)

text \<open>The links the route keeps apart may still chain through one a redemption implies: the payer
  \<open>a\<close> whose invite \<open>b\<close> redeemed is not among the addresses of \<open>c\<close>, whom \<open>b\<close> pays for by a
  stated link.\<close>

definition chained :: identity_snapshot where
  "chained = \<lparr>snap_users = [\<lparr>usr_id = 1, usr_username = None, usr_email = Some ''b'', usr_server = None, usr_expires = None\<rparr>],
     snap_invitations = [\<lparr>inv_id = 1, inv_code = Some ''k'', inv_used_by = Some (JStr ''<User 1>''),
       inv_server_names = None, inv_expires = None, inv_unlimited = None\<rparr>],
     snap_links = [(''b'', ''c'')], snap_invites = [(''a'', ''k'')]\<rparr>"

lemma implied_links_chain:
  "all_links chained = [(''a'', ''b''), (''b'', ''c'')]"
  "addresses (identityFor chained (Some ''b'') None) = [''b'', ''c'']"
  "addresses (identityFor chained (Some ''a'') None) = [''a'', ''b'']"
  by code_simp+


subsection \<open>What a person holds\<close>

lemma redeemerRecord_in: "redeemerRecord invitation users = Some r \<Longrightarrow> r \<in> set users"
  by (auto simp: redeemerRecord_def dest: find_in_set split: option.splits json.splits if_splits)

lemma redeemerOf_in: "redeemerOf snapshot code = Some r \<Longrightarrow> r \<in> set (snap_users snapshot)"
  by (auto simp: redeemerOf_def dest: redeemerRecord_in split: option.splits)

lemma set_recordsAt: "set (recordsAt users a) = {u \<in> set users. emailOf u = a}"
  by (auto simp: recordsAt_def)

lemma all_links_stated:
  assumes "distinct_keys (snap_links snapshot)" "map_of (snap_links snapshot) a = Some l" "l \<noteq> []"
  shows "map_of (all_links snapshot) a = Some l"
proof -
  let ?stated = "filter (\<lambda>(_, destination). destination \<noteq> []) (snap_links snapshot)"
  have "(a, l) \<in> set ?stated" using assms(2,3) by (simp add: map_of_SomeD)
  moreover have "distinct (map fst ?stated)"
    using assms(1) unfolding distinct_keys_def by (rule distinct_map_filter)
  ultimately have "map_of (rev ?stated) a = Some l"
    using map_of_eq_Some_iff [of "rev ?stated" a l] by (simp flip: rev_map)
  then show ?thesis
    by (simp add: all_links_def map_of_js_map map_add_Some_iff del: rev_filter)
qed

lemma owner_in_addresses: "s \<in> set seeds \<Longrightarrow> s \<in> set (linkedTo links seeds) \<and> owner_of links s \<in> set (linkedTo links seeds)"
  by (auto simp: set_linkedTo)

lemma identityFor_found_by:
  obtains
    (email) a where "nonempty (asked_address email) = Some a"
      "id_records (identityFor snapshot email code) = recordsAt (snap_users snapshot) a"
      "id_records (identityFor snapshot email code) \<noteq> []" "via (identityFor snapshot email code) = ViaEmail"
  | (link) a l where "nonempty (asked_address email) = Some a" "map_of (snap_links snapshot) a = Some l" "l \<noteq> []"
      "id_records (identityFor snapshot email code) = recordsAt (snap_users snapshot) l"
      "id_records (identityFor snapshot email code) \<noteq> []" "via (identityFor snapshot email code) = ViaLink"
  | (invite) "id_records (identityFor snapshot email code) =
        redeemerRecords (snap_users snapshot) (redeemerOf snapshot code)"
      "via (identityFor snapshot email code) =
        (if id_records (identityFor snapshot email code) \<noteq> [] then ViaInvite else ViaNone)"
proof -
  obtain A where A: "nonempty (asked_address email) = A" by blast
  define byEmail where "byEmail = (case A of Some a \<Rightarrow> recordsAt (snap_users snapshot) a | None \<Rightarrow> [])"
  define linked where "linked = (case A of Some a \<Rightarrow> map_of (snap_links snapshot) a | None \<Rightarrow> None)"
  define byLink where "byLink = (case nonempty linked of Some l \<Rightarrow> recordsAt (snap_users snapshot) l | None \<Rightarrow> [])"
  have records: "id_records (identityFor snapshot email code) =
      (if byEmail \<noteq> [] then byEmail else if byLink \<noteq> [] then byLink
       else redeemerRecords (snap_users snapshot) (redeemerOf snapshot code))"
    and how: "via (identityFor snapshot email code) =
      (if byEmail \<noteq> [] then ViaEmail else if byLink \<noteq> [] then ViaLink
       else if redeemerRecords (snap_users snapshot) (redeemerOf snapshot code) \<noteq> [] then ViaInvite else ViaNone)"
    unfolding identityFor_def Let_def A byEmail_def linked_def byLink_def by simp_all
  consider "byEmail \<noteq> []" | "byEmail = []" "byLink \<noteq> []" | "byEmail = []" "byLink = []" by blast
  then show thesis
  proof cases
    case 1
    then obtain a where "A = Some a" by (auto simp: byEmail_def split: option.splits)
    then show thesis using 1 records how A by (intro email) (auto simp: byEmail_def)
  next
    case 2
    then obtain a l where "A = Some a" "linked = Some l" "l \<noteq> []"
      by (cases "nonempty linked") (auto simp: byLink_def linked_def split: option.splits)
    then show thesis using 2 records how A
      by (intro link [of a l]) (auto simp: byLink_def linked_def nonempty_def)
  next
    case 3
    then show thesis using records how by (intro invite) auto
  qed
qed

text \<open>The records a person is found by are records of the snapshot, and each is filed under one of
  the person's addresses, or is the single record of a redeemer without any address.\<close>

definition found_records_ok :: "identity_snapshot \<Rightarrow> identity \<Rightarrow> bool" where
  "found_records_ok snapshot i \<longleftrightarrow>
     set (id_records i) \<subseteq> {u \<in> set (snap_users snapshot). emailOf u \<in> set (addresses i) \<or>
       (emailOf u = [] \<and> id_records i = [u])} \<and>
     (via i = ViaNone \<longleftrightarrow> id_records i = [])"

text \<open>The records a person is found by all come from the snapshot and are filed under one of
  the person's own addresses, unless the person is a redeemer without any address, who answers
  with one record. Acting on the whole person reaches, by record id, exactly those records and
  every record of the snapshot filed under any of their addresses.\<close>

theorem identity_records_are_theirs:
  assumes "distinct_keys (snap_links snapshot)"
  shows "found_records_ok snapshot (identityFor snapshot email code) \<and>
    usr_id ` set (everyRecord snapshot (identityFor snapshot email code)) =
      usr_id ` (set (id_records (identityFor snapshot email code)) \<union>
        {u \<in> set (snap_users snapshot). emailOf u \<in> set (addresses (identityFor snapshot email code))})"
proof
  let ?i = "identityFor snapshot email code"
  define address where "address = asked_address email"
  define red where "red = redeemerOf snapshot code"
  define ra where "ra = (case red of Some r \<Rightarrow> emailOf r | None \<Rightarrow> [])"
  define seeds where "seeds = filter (\<lambda>seed. seed \<noteq> []) [text_or_empty address, ra]"
  have addrs: "addresses ?i = linkedTo (all_links snapshot) seeds"
    by (simp add: identityFor_def Let_def address_def red_def ra_def seeds_def)
  have seed: "nonempty address = Some a \<Longrightarrow> a \<in> set seeds" for a
    by (auto simp: seeds_def)
  consider (email) a where "nonempty address = Some a" "id_records ?i = recordsAt (snap_users snapshot) a"
      "id_records ?i \<noteq> []" "via ?i = ViaEmail"
    | (link) a l where "nonempty address = Some a" "map_of (snap_links snapshot) a = Some l" "l \<noteq> []"
      "id_records ?i = recordsAt (snap_users snapshot) l" "id_records ?i \<noteq> []" "via ?i = ViaLink"
    | (invite) "id_records ?i = redeemerRecords (snap_users snapshot) red"
      "via ?i = (if id_records ?i \<noteq> [] then ViaInvite else ViaNone)"
    unfolding address_def red_def by (rule identityFor_found_by [of email snapshot code])
  then show "found_records_ok snapshot ?i"
  proof cases
    case email
    then show ?thesis
      using owner_in_addresses [OF seed [OF email(1)]]
      by (auto simp: found_records_ok_def addrs set_recordsAt)
  next
    case link
    have "owner_of (all_links snapshot) a = l"
      using all_links_stated [OF assms link(2,3)] by (rule owner_of_simps)
    then show ?thesis
      using link owner_in_addresses [OF seed [OF link(1)], of "all_links snapshot"]
      by (auto simp: found_records_ok_def addrs set_recordsAt)
  next
    case invite
    show ?thesis
    proof (cases red)
      case None
      then show ?thesis using invite by (simp add: found_records_ok_def redeemerRecords_def)
    next
      case (Some r)
      then have "r \<in> set (snap_users snapshot)" by (auto simp: red_def dest: redeemerOf_in)
      moreover have "emailOf r \<noteq> [] \<Longrightarrow> emailOf r \<in> set (linkedTo (all_links snapshot) seeds)"
        using Some by (intro conjunct1 [OF owner_in_addresses]) (simp add: seeds_def ra_def)
      ultimately show ?thesis
        using invite Some by (auto simp: found_records_ok_def redeemerRecords_def addrs set_recordsAt Let_def)
    qed
  qed
  show "usr_id ` set (everyRecord snapshot ?i) =
      usr_id ` (set (id_records ?i) \<union> {u \<in> set (snap_users snapshot). emailOf u \<in> set (addresses ?i)})"
    by (auto simp: everyRecord_def Let_def image_iff)
qed

theorem identity_records_are_theirs_witness:
  "found_records_ok chained (identityFor chained (Some ''A '') (Some ''K'')) \<and>
    usr_id ` set (everyRecord chained (identityFor chained (Some ''A '') (Some ''K''))) =
      usr_id ` (set (id_records (identityFor chained (Some ''A '') (Some ''K''))) \<union>
        {u \<in> set (snap_users chained). emailOf u \<in> set (addresses (identityFor chained (Some ''A '') (Some ''K'')))})"
  by (rule identity_records_are_theirs) (simp add: chained_def distinct_keys_def)

end
