(* ===== verification/WizarrClient.thy ===== *)
theory WizarrClient imports Ports Identity begin

text \<open>
  The Wizarr client (\<open>apps/stripe-bridge/src/clients/wizarr.ts\<close>): the requests it makes, the
  narrowing of what Wizarr answers, and the expiry it may ask for. \<open>http_of\<close> is the HTTP form
  of each request. Two definitions of the file, \<open>redeemerRecord\<close> and \<open>redeemerEmail\<close>, are
  in \<open>Identity\<close>.
\<close>

subsection \<open>Expiries Wizarr honours\<close>

definition EXPIRY_DAYS_HONORED :: "int list" where
  "EXPIRY_DAYS_HONORED = [1, 7, 30]"

definition LONGEST_HONORED :: int where
  "LONGEST_HONORED = fold max (tl EXPIRY_DAYS_HONORED) (hd EXPIRY_DAYS_HONORED)"

definition honoredExpiryDays :: "int \<Rightarrow> int" where
  "honoredExpiryDays days = (case List.find (\<lambda>honored. honored \<ge> days) EXPIRY_DAYS_HONORED of
     Some honored \<Rightarrow> honored | None \<Rightarrow> LONGEST_HONORED)"

text \<open>The expiry sent to Wizarr is always one Wizarr honours, so no invite lives forever by a
  misread number. It is the shortest such expiry that is no shorter than asked, and the longest
  one when more is asked than Wizarr can give.\<close>

theorem honored_expiry_is_tightest:
  "honoredExpiryDays days \<in> set EXPIRY_DAYS_HONORED \<and>
   (days \<le> honoredExpiryDays days \<or> 30 < days \<and> honoredExpiryDays days = 30) \<and>
   {h \<in> set EXPIRY_DAYS_HONORED. days \<le> h \<and> h < honoredExpiryDays days} = {}"
  by (auto simp: honoredExpiryDays_def EXPIRY_DAYS_HONORED_def LONGEST_HONORED_def)

subsection \<open>Requests over HTTP\<close>

definition USER_WRITE_TIMEOUT :: nat where "USER_WRITE_TIMEOUT = 45"
definition USERS_TIMEOUT :: nat where "USERS_TIMEOUT = 45"
definition DEFAULT_TIMEOUT :: nat where "DEFAULT_TIMEOUT = 10"

record http_call =
  http_method :: string
  http_path :: string
  http_timeout :: nat
  http_params :: "(string \<times> string) list"
  http_json :: "json option"

definition payload_json :: "invite_payload \<Rightarrow> json" where
  "payload_json p = JObj ([(''server_ids'', JArr (map JNum (pl_server_ids p))),
     (''expires_in_days'', JNum (pl_expires_in_days p)), (''duration'', JStr (pl_duration p)),
     (''unlimited'', JBool (pl_unlimited p)), (''allow_downloads'', JBool (pl_allow_downloads p))] @
     (case pl_library_ids p of None \<Rightarrow> [] | Some ids \<Rightarrow> [(''library_ids'', JArr (map JNum ids))]))"

definition http_get :: "string \<Rightarrow> nat \<Rightarrow> (string \<times> string) list \<Rightarrow> http_call" where
  "http_get path timeout params = \<lparr>http_method = ''GET'', http_path = path, http_timeout = timeout,
     http_params = params, http_json = None\<rparr>"

definition http_send :: "string \<Rightarrow> string \<Rightarrow> nat \<Rightarrow> json option \<Rightarrow> http_call" where
  "http_send verb path timeout j = \<lparr>http_method = verb, http_path = path, http_timeout = timeout,
     http_params = [], http_json = j\<rparr>"

fun http_of :: "wizarr_request \<Rightarrow> http_call" where
  "http_of GetLibraries = http_get ''/api/libraries'' DEFAULT_TIMEOUT []"
| "http_of (PostInvitation p) = http_send ''POST'' ''/api/invitations'' DEFAULT_TIMEOUT (Some (payload_json p))"
| "http_of GetInvitations = http_get ''/api/invitations'' DEFAULT_TIMEOUT []"
| "http_of (DeleteInvitation i) = http_send ''DELETE'' (''/api/invitations/'' @ show_int i) DEFAULT_TIMEOUT None"
| "http_of (GetUsers email) = http_get ''/api/users'' USERS_TIMEOUT
     (case email of None \<Rightarrow> [] | Some e \<Rightarrow> [(''email'', e)])"
| "http_of (PutExpiry i expires) = http_send ''PUT'' (''/api/users/'' @ show_int i @ ''/update-expiry'') USER_WRITE_TIMEOUT
     (Some (case expires of None \<Rightarrow> JObj [] | Some e \<Rightarrow> JObj [(''expires'', JStr e)]))"
| "http_of (PostDisable i) = http_send ''POST'' (''/api/users/'' @ show_int i @ ''/disable'') USER_WRITE_TIMEOUT None"

text \<open>A call throws on a network failure and on any answer outside the 2xx range.\<close>

definition wizarr_call :: "env \<Rightarrow> wizarr_request \<Rightarrow> json run" where
  "wizarr_call b req = ask (WizarrCall req) (\<lambda>h. case wizarr_answer b h req of
     Inl e \<Rightarrow> Inl e
   | Inr (status, body) \<Rightarrow>
       if 200 \<le> status \<and> status < 300 then Inr body
       else Inl (Failure (''wizarr answered '' @ show_nat status @ '' to '' @ http_method (http_of req) @ '' '' @
         wizarr_base b @ http_path (http_of req) @
         (case http_params (http_of req) of [] \<Rightarrow> [] | (k, v) # _ \<Rightarrow> ''?'' @ k @ ''='' @ v))))"

subsection \<open>Narrowing what Wizarr answers\<close>

definition listUnder :: "json \<Rightarrow> string \<Rightarrow> json list" where
  "listUnder j key = (case j of
     JObj kvs \<Rightarrow> (case field kvs key of Some (JArr xs) \<Rightarrow> xs | _ \<Rightarrow> [])
   | _ \<Rightarrow> [])"

definition objectRows :: "json list \<Rightarrow> json_object list" where
  "objectRows rows = somes (map fields_of rows)"

definition bool_field :: "json_object \<Rightarrow> string \<Rightarrow> bool option" where
  "bool_field obj key = (case field obj key of Some (JBool v) \<Rightarrow> Some v | _ \<Rightarrow> None)"

definition strings_field :: "json_object \<Rightarrow> string \<Rightarrow> string list option" where
  \<comment> \<open>an array of strings only, else absent\<close>
  "strings_field obj key = (case field obj key of
     Some (JArr xs) \<Rightarrow> those (map (\<lambda>x. case x of JStr s \<Rightarrow> Some s | _ \<Rightarrow> None) xs)
   | _ \<Rightarrow> None)"

definition toLibrary :: "json_object \<Rightarrow> library option" where
  "toLibrary row = (case (num_field row ''id'', num_field row ''server_id'') of
     (Some i, Some serverId) \<Rightarrow> Some \<lparr>lib_id = i, lib_name = str_field row ''name'', lib_server_id = serverId,
       lib_server_name = str_field row ''server_name'', lib_enabled = bool_field row ''enabled'',
       lib_external_id = (case field row ''external_id'' of
           Some (JStr s) \<Rightarrow> Some (ExtText s) | Some (JNum n) \<Rightarrow> Some (ExtNum n) | _ \<Rightarrow> None)\<rparr>
   | _ \<Rightarrow> None)"

definition toUser :: "json_object \<Rightarrow> wizarr_user option" where
  "toUser row = map_option (\<lambda>i. \<lparr>usr_id = i, usr_username = str_field row ''username'',
     usr_email = str_field row ''email'', usr_server = str_field row ''server'',
     usr_expires = str_field row ''expires''\<rparr>) (num_field row ''id'')"

definition toInvitation :: "json_object \<Rightarrow> invitation option" where
  "toInvitation row = map_option (\<lambda>i. \<lparr>inv_id = i, inv_code = str_field row ''code'',
     inv_used_by = field row ''used_by'', inv_server_names = strings_field row ''server_names'',
     inv_expires = str_field row ''expires'', inv_unlimited = bool_field row ''unlimited''\<rparr>) (num_field row ''id'')"

definition toCreatedInvite :: "json \<Rightarrow> exn + created_invite" where
  "toCreatedInvite j = (case (case j of JObj kvs \<Rightarrow> field kvs ''invitation'' | _ \<Rightarrow> None) of
     Some (JObj invitation) \<Rightarrow>
       (case (str_field invitation ''code'', str_field invitation ''url'') of
          (Some code, Some url) \<Rightarrow> Inr \<lparr>ci_code = code, ci_url = url\<rparr>
        | _ \<Rightarrow> Inl (Failure ''wizarr answered a created invite with no code or url''))
   | _ \<Rightarrow> Inl (Failure ''wizarr answered a created invite with no invitation''))"

subsection \<open>The client\<close>

definition mapM_answer :: "('a \<Rightarrow> 'b) \<Rightarrow> 'a run \<Rightarrow> 'b run" where
  "mapM_answer f m = bindM m (\<lambda>x. ret (f x))"

definition listLibraries :: "env \<Rightarrow> library list run" where
  "listLibraries b = mapM_answer (\<lambda>j. somes (map toLibrary (objectRows (listUnder j ''libraries'')))) (wizarr_call b GetLibraries)"

definition listInvitations :: "env \<Rightarrow> invitation list run" where
  "listInvitations b = mapM_answer (\<lambda>j. somes (map toInvitation (objectRows (listUnder j ''invitations'')))) (wizarr_call b GetInvitations)"

definition wizarr_users :: "env \<Rightarrow> string option \<Rightarrow> wizarr_user list run" where
  "wizarr_users b email = mapM_answer (\<lambda>j. somes (map toUser (objectRows (listUnder j ''users'')))) (wizarr_call b (GetUsers email))"

definition listUsers :: "env \<Rightarrow> wizarr_user list run" where
  "listUsers b = wizarr_users b None"

definition findUsersByEmail :: "env \<Rightarrow> string \<Rightarrow> wizarr_user list run" where
  "findUsersByEmail b email = mapM_answer
     (filter (\<lambda>user. toLowerCase (text_or_empty (usr_email user)) = toLowerCase email)) (wizarr_users b (Some email))"

definition invite_payload_of :: "invite_request \<Rightarrow> invite_payload" where
  "invite_payload_of req = \<lparr>pl_server_ids = rq_server_ids req,
     pl_expires_in_days = honoredExpiryDays (rq_expires_in_days req), pl_duration = rq_duration req,
     pl_unlimited = rq_unlimited req, pl_allow_downloads = rq_allow_downloads req,
     pl_library_ids = rq_library_ids req\<rparr>"

definition createInvite :: "env \<Rightarrow> invite_request \<Rightarrow> created_invite run" where
  "createInvite b req = bindM (wizarr_call b (PostInvitation (invite_payload_of req))) (\<lambda>j. liftE (toCreatedInvite j))"

definition deleteInvitation :: "env \<Rightarrow> int \<Rightarrow> unit run" where
  "deleteInvitation b invitationId = mapM_answer (\<lambda>_. ()) (wizarr_call b (DeleteInvitation invitationId))"

definition setExpiry :: "env \<Rightarrow> int \<Rightarrow> string option \<Rightarrow> unit run" where
  "setExpiry b userId expires = mapM_answer (\<lambda>_. ()) (wizarr_call b (PutExpiry userId expires))"

definition disableUser :: "env \<Rightarrow> int \<Rightarrow> unit run" where
  "disableUser b userId = mapM_answer (\<lambda>_. ()) (wizarr_call b (PostDisable userId))"

subsection \<open>What the calls may ask for\<close>

lemma wp_mapM_answer [wp_simps]: "wp (mapM_answer f m) Q E = wp m (\<lambda>x. Q (f x)) E"
  by (simp add: mapM_answer_def wp_simps)

lemmas wizarr_defs = listLibraries_def listInvitations_def wizarr_users_def listUsers_def findUsersByEmail_def
  createInvite_def deleteInvitation_def setExpiry_def disableUser_def mapM_answer_def wizarr_call_def

lemma emits_wizarr:
  "P (WizarrCall GetLibraries) \<Longrightarrow> keeps (emits P) (listLibraries b)"
  "P (WizarrCall GetInvitations) \<Longrightarrow> keeps (emits P) (listInvitations b)"
  "P (WizarrCall (GetUsers None)) \<Longrightarrow> keeps (emits P) (listUsers b)"
  "P (WizarrCall (GetUsers (Some email))) \<Longrightarrow> keeps (emits P) (findUsersByEmail b email)"
  "P (WizarrCall (PostInvitation (invite_payload_of req))) \<Longrightarrow> keeps (emits P) (createInvite b req)"
  "P (WizarrCall (DeleteInvitation i)) \<Longrightarrow> keeps (emits P) (deleteInvitation b i)"
  "P (WizarrCall (PutExpiry u expires)) \<Longrightarrow> keeps (emits P) (setExpiry b u expires)"
  "P (WizarrCall (PostDisable u)) \<Longrightarrow> keeps (emits P) (disableUser b u)"
  unfolding wizarr_defs by (auto intro!: emits_intros)

lemma table_wizarr:
  "keeps (same_table f) (listLibraries b)" "keeps (same_table f) (listInvitations b)"
  "keeps (same_table f) (listUsers b)" "keeps (same_table f) (findUsersByEmail b email)"
  "keeps (same_table f) (createInvite b req)" "keeps (same_table f) (deleteInvitation b i)"
  "keeps (same_table f) (setExpiry b u expires)" "keeps (same_table f) (disableUser b u)"
  unfolding wizarr_defs by (auto intro!: table_intros)

lemma dur_wizarr:
  "keeps durably (listLibraries b)" "keeps durably (listInvitations b)"
  "keeps durably (listUsers b)" "keeps durably (findUsersByEmail b email)"
  "keeps durably (createInvite b req)" "keeps durably (deleteInvitation b i)"
  "keeps durably (setExpiry b u expires)" "keeps durably (disableUser b u)"
  unfolding wizarr_defs by (auto intro!: dur_intros)

end
