(* ===== verification/PlexClient.thy ===== *)
theory PlexClient imports Ports begin

text \<open>
  The plex.tv client (\<open>apps/stripe-bridge/src/clients/plex.ts\<close>). Parsing XML is
  fast-xml-parser's part: a document answers its root element or an error. Objects keyed by
  server or address are insertion-ordered lists with the value last written.
\<close>

record owned_server =
  os_name :: "string option"
  os_machine_id :: string

text \<open>Every element with a tag at or below an element, depth first in document order.\<close>

fun iter :: "string \<Rightarrow> xml_element \<Rightarrow> xml_element list" where
  "iter tag (XmlElement t attrs children) =
     (if t = tag then [XmlElement t attrs children] else []) @ concat (map (iter tag) children)"

definition attr :: "xml_element \<Rightarrow> string \<Rightarrow> string option" where
  "attr element name = map_of (xml_attributes element) name"

definition attr_text :: "xml_element \<Rightarrow> string \<Rightarrow> string" where
  \<comment> \<open>\<open>attr(...) || ''\<close>\<close>
  "attr_text element name = text_or_empty (attr element name)"

fun messageOf :: "exn \<Rightarrow> string" where
  "messageOf (Failure m) = m"
| "messageOf (TypeErr m) = m"
| "messageOf (RangeErr m) = m"
| "messageOf (TierScopeEmpty m) = m"
| "messageOf (PlexUnavailable m) = m"
| "messageOf (HttpErr _ m) = m"
| "messageOf (SqliteErr m) = m"

definition getXml :: "env \<Rightarrow> string \<Rightarrow> xml_element run" where
  "getXml b path = ask (PlexCall path) (\<lambda>h. case plex_answer b h path of
     Inl e \<Rightarrow> Inl (case e of PlexUnavailable m \<Rightarrow> PlexUnavailable m | _ \<Rightarrow> PlexUnavailable (messageOf e))
   | Inr (status, document) \<Rightarrow>
       if status \<ge> 400 then
         Inl (PlexUnavailable (''plex.tv answered '' @ show_nat status @ '' for '' @ plex_base b @ path))
       else document)"

definition ownedServers :: "env \<Rightarrow> owned_server list run" where
  "ownedServers b = bindM (getXml b ''/api/servers'') (\<lambda>root.
     ret (somes (map (\<lambda>server. map_option (\<lambda>machineId. \<lparr>os_name = attr server ''name'', os_machine_id = machineId\<rparr>)
            (nonempty (attr server ''machineIdentifier''))) (iter ''Server'' root))))"

definition server_key :: "owned_server \<Rightarrow> string" where
  \<comment> \<open>\<open>String(server.name)\<close>\<close>
  "server_key server = option_text ''null'' (os_name server)"

definition sections_of :: "xml_element \<Rightarrow> (string \<times> string) list" where
  "sections_of root = js_map (somes (map (\<lambda>section.
     map_option (\<lambda>i. (i, attr_text section ''title'')) (nonempty (attr section ''id''))) (iter ''Section'' root)))"

definition liveSections :: "env \<Rightarrow> live_sections run" where
  "liveSections b = bindM (ownedServers b) (\<lambda>servers.
     bindM (mapInOrder (\<lambda>server. bindM (getXml b (''/api/servers/'' @ os_machine_id server))
         (\<lambda>root. ret (server_key server, root))) servers) (\<lambda>documents.
     ret (js_map (map (\<lambda>(name, root). (name, sections_of root)) documents))))"

definition hasToken :: "env \<Rightarrow> bool" where
  "hasToken b \<longleftrightarrow> plex_token b \<noteq> []"

definition liveSectionsOrNone :: "env \<Rightarrow> live_sections option run" where
  "liveSectionsOrNone b = (if \<not> hasToken b then ret None
     else orElse (bindM (liveSections b) (\<lambda>l. ret (Some l))) None)"

text \<open>One share a document grants: the account, the server and what it holds there.\<close>

type_synonym grant = "string \<times> string \<times> plex_share"

definition share_of :: "xml_element \<Rightarrow> plex_share" where
  "share_of shared = \<lparr>ps_all_libraries = (attr shared ''allLibraries'' = Some ''1''),
     ps_allow_sync = (attr shared ''allowSync'' = Some ''1''),
     ps_libraries = sort (map (\<lambda>section. attr_text section ''title'')
       (filter (\<lambda>section. attr section ''shared'' = Some ''1'') (iter ''Section'' shared)))\<rparr>"

definition grants_of :: "string \<times> xml_element \<Rightarrow> grant list" where
  "grants_of d = (case d of (name, root) \<Rightarrow>
     concat (map (\<lambda>shared. let email = toLowerCase (trim (attr_text shared ''email'')) in
         if email = [] then [] else [(email, name, share_of shared)]) (iter ''SharedServer'' root)))"

definition access_of :: "grant list \<Rightarrow> plex_access" where
  "access_of grants = map (\<lambda>email. (email,
       js_map (map (\<lambda>(_, server, share). (server, share)) (filter (\<lambda>(e, _, _). e = email) grants))))
     (js_set (map fst grants))"

definition sharedAccessAll :: "env \<Rightarrow> plex_access run" where
  "sharedAccessAll b = bindM (ownedServers b) (\<lambda>servers.
     bindM (mapInOrder (\<lambda>server.
         bindM (getXml b (''/api/servers/'' @ os_machine_id server @ ''/shared_servers''))
           (\<lambda>root. ret (server_key server, root))) servers) (\<lambda>documents.
     ret (access_of (concat (map grants_of documents)))))"

definition sharedAccessForEmail :: "env \<Rightarrow> string \<Rightarrow> plex_shares run" where
  "sharedAccessForEmail b email = bindM (sharedAccessAll b) (\<lambda>access.
     ret (case map_of access (toLowerCase (trim email)) of Some shares \<Rightarrow> shares | None \<Rightarrow> []))"

subsection \<open>Facts\<close>

fun isPlex :: "call \<Rightarrow> bool" where
  "isPlex (PlexCall _) = True"
| "isPlex _ = False"

lemma liveSectionsOrNone_never_throws [simp]: "never_throws (liveSectionsOrNone b)"
  by (simp add: liveSectionsOrNone_def)

lemma emits_getXml: "(\<And>path. P (PlexCall path)) \<Longrightarrow> keeps (emits P) (getXml b path)"
  by (simp add: getXml_def emits_ask)

lemma emits_plex:
  assumes "\<And>path. P (PlexCall path)"
  shows "keeps (emits P) (liveSectionsOrNone b)" "keeps (emits P) (sharedAccessAll b)"
    "keeps (emits P) (sharedAccessForEmail b email)"
  unfolding liveSectionsOrNone_def liveSections_def sharedAccessForEmail_def sharedAccessAll_def ownedServers_def
  by (intro emits_intros emits_getXml assms)+

lemma table_getXml: "keeps (same_table f) (getXml b path)"
  by (simp add: getXml_def table_ask)

lemma table_plex: "keeps (same_table f) (liveSectionsOrNone b)" "keeps (same_table f) (sharedAccessAll b)"
  "keeps (same_table f) (sharedAccessForEmail b email)"
  unfolding liveSectionsOrNone_def liveSections_def sharedAccessForEmail_def sharedAccessAll_def ownedServers_def
  by (intro table_intros table_getXml)+

lemma dur_getXml: "keeps durably (getXml b path)"
  by (simp add: getXml_def dur_ask)

lemma dur_plex: "keeps durably (liveSectionsOrNone b)" "keeps durably (sharedAccessAll b)"
  "keeps durably (sharedAccessForEmail b email)"
  unfolding liveSectionsOrNone_def liveSections_def sharedAccessForEmail_def sharedAccessAll_def ownedServers_def
  by (intro dur_intros dur_getXml)+

text \<open>The access read off a list of grants: a pair of account and server is there exactly when some
  grant names it, and the last such grant is the one kept.\<close>

lemma map_of_access_of:
  "map_of (access_of grants) email =
     (if email \<in> fst ` set grants
      then Some (js_map (map (\<lambda>(_, server, share). (server, share)) (filter (\<lambda>(e, _, _). e = email) grants)))
      else None)"
proof -
  show ?thesis unfolding access_of_def map_of_map_restrict by (simp add: restrict_map_def)
qed

text \<open>The share reported for an account on a server is the last grant that names the pair, and
  none is reported where no grant names it.\<close>

theorem access_is_last_grant:
  "(case map_of (access_of grants) email of Some shares \<Rightarrow> map_of shares server | None \<Rightarrow> None) =
     map_option (\<lambda>(_, _, share). share) (last_or_none (filter (\<lambda>(e, s, _). e = email \<and> s = server) grants))"
proof -
  have both: "filter (\<lambda>(e, s, _). e = email \<and> s = server) grants =
      filter (\<lambda>(e, s, _). s = server) (filter (\<lambda>(e, _, _). e = email) grants)"
    by (auto intro!: filter_cong)
  have none: "email \<notin> fst ` set grants \<Longrightarrow> filter (\<lambda>(e, _, _). e = email) grants = []"
    by (force simp: filter_empty_conv)
  have last: "map_of (js_map (map (\<lambda>(_, server, share). (server, share)) gs)) server =
      map_option (\<lambda>(_, _, share). share) (last_or_none (filter (\<lambda>(e, s, _). s = server) gs))" for gs :: "grant list"
    unfolding map_of_js_map case_prod_beta using map_of_rev_map [of "\<lambda>g. fst (snd g)" "\<lambda>g. snd (snd g)" gs server]
    by simp
  show ?thesis
  proof (cases "email \<in> fst ` set grants")
    case True
    then show ?thesis unfolding both map_of_access_of by (simp only: if_True option.case last)
  next
    case False
    then show ?thesis unfolding both map_of_access_of none [OF False] by (simp del: filter_filter)
  qed
qed

end
