(* ===== verification/StripeClient.thy ===== *)
theory StripeClient imports Ports begin

text \<open>
  The Stripe calls of the bridge (\<open>apps/stripe-bridge/src/clients/stripe.ts\<close>). The SDK is not
  code of the repository: \<open>env\<close> answers its calls, a list call with every page
  drained (\<open>drain\<close>).
\<close>

definition toSubscription :: "sdk_subscription \<Rightarrow> subscription" where
  "toSubscription s = \<lparr>sub_id = sdk_id s,
     sub_customer = (case sdk_customer_ref s of CustomerId i \<Rightarrow> i | CustomerObject i \<Rightarrow> i),
     sub_status = sdk_status s, sub_cancel_at_period_end = sdk_cancel_at_period_end s,
     sub_cancel_at = sdk_cancel_at s\<rparr>"

definition allPages :: "env \<Rightarrow> stripe_request \<Rightarrow> subscription list run" where
  "allPages b req = bindM (ask (StripeCall req) (\<lambda>h. subscriptions_answer b h req)) (\<lambda>items.
     ret (map toSubscription items))"

definition stripe_done :: "env \<Rightarrow> stripe_request \<Rightarrow> unit run" where
  "stripe_done b req = ask (StripeCall req) (\<lambda>h. case stripe_ack b h req of Some e \<Rightarrow> Inl e | None \<Rightarrow> Inr ())"

definition stripe_customerEmail :: "env \<Rightarrow> string \<Rightarrow> string option run" where
  "stripe_customerEmail b customerId = bindM
     (ask (StripeCall (RetrieveCustomer customerId)) (\<lambda>h. customer_answer b h customerId)) (\<lambda>customer.
     ret (if sdk_deleted customer then None else nonempty (sdk_email customer)))"

definition stripe_searchCustomerId :: "env \<Rightarrow> string \<Rightarrow> string option run" where
  "stripe_searchCustomerId b email = (let req = SearchCustomers (''email:'' @ quoted email) in
     bindM (ask (StripeCall req) (\<lambda>h. customers_answer b h req)) (\<lambda>found. ret (first_or_none found)))"

definition stripe_customerIdsForEmail :: "env \<Rightarrow> string \<Rightarrow> string list run" where
  "stripe_customerIdsForEmail b email = ask (StripeCall (ListCustomers email)) (\<lambda>h. customers_answer b h (ListCustomers email))"

definition subscriptionsFor :: "env \<Rightarrow> string \<Rightarrow> subscription list run" where
  "subscriptionsFor b customerId = allPages b (ListSubscriptions (Some customerId))"

definition allSubscriptions :: "env \<Rightarrow> subscription list run" where
  "allSubscriptions b = allPages b (ListSubscriptions None)"

definition cancelAtPeriodEnd :: "env \<Rightarrow> string \<Rightarrow> subscription run" where
  "cancelAtPeriodEnd b subscriptionId = (let req = FlagCancelAtPeriodEnd subscriptionId in
     bindM (ask (StripeCall req) (\<lambda>h. update_answer b h req)) (\<lambda>updated. ret (toSubscription updated)))"

definition cancelNow :: "env \<Rightarrow> string \<Rightarrow> unit run" where
  "cancelNow b subscriptionId = stripe_done b (CancelSubscription subscriptionId)"

definition openInvoiceIds :: "env \<Rightarrow> string \<Rightarrow> string list run" where
  "openInvoiceIds b subscriptionId = bindM
     (ask (StripeCall (ListOpenInvoices subscriptionId)) (\<lambda>h. invoices_answer b h (ListOpenInvoices subscriptionId)))
     (\<lambda>ids. ret (somes (map nonempty ids)))"

definition voidInvoice :: "env \<Rightarrow> string \<Rightarrow> unit run" where
  "voidInvoice b invoiceId = stripe_done b (VoidInvoice invoiceId)"

lemmas stripe_defs = stripe_done_def allPages_def stripe_customerEmail_def stripe_searchCustomerId_def
  stripe_customerIdsForEmail_def subscriptionsFor_def allSubscriptions_def cancelAtPeriodEnd_def
  cancelNow_def openInvoiceIds_def voidInvoice_def Let_def

fun isStripe :: "call \<Rightarrow> bool" where
  "isStripe (StripeCall _) = True"
| "isStripe _ = False"

text \<open>A Stripe request that changes nothing.\<close>

fun stripe_read :: "stripe_request \<Rightarrow> bool" where
  "stripe_read (FlagCancelAtPeriodEnd _) = False"
| "stripe_read (CancelSubscription _) = False"
| "stripe_read (VoidInvoice _) = False"
| "stripe_read _ = True"

lemma emits_stripe:
  "P (StripeCall (RetrieveCustomer c)) \<Longrightarrow> keeps (emits P) (stripe_customerEmail b c)"
  "(\<And>q. P (StripeCall (SearchCustomers q))) \<Longrightarrow> keeps (emits P) (stripe_searchCustomerId b email)"
  "P (StripeCall (ListCustomers email)) \<Longrightarrow> keeps (emits P) (stripe_customerIdsForEmail b email)"
  "P (StripeCall (ListSubscriptions (Some c))) \<Longrightarrow> keeps (emits P) (subscriptionsFor b c)"
  "P (StripeCall (ListSubscriptions None)) \<Longrightarrow> keeps (emits P) (allSubscriptions b)"
  "P (StripeCall (FlagCancelAtPeriodEnd s)) \<Longrightarrow> keeps (emits P) (cancelAtPeriodEnd b s)"
  "P (StripeCall (CancelSubscription s)) \<Longrightarrow> keeps (emits P) (cancelNow b s)"
  "P (StripeCall (ListOpenInvoices s)) \<Longrightarrow> keeps (emits P) (openInvoiceIds b s)"
  "P (StripeCall (VoidInvoice i)) \<Longrightarrow> keeps (emits P) (voidInvoice b i)"
  unfolding stripe_defs by (auto intro!: emits_intros)

lemma table_stripe:
  "keeps (same_table f) (stripe_customerEmail b c)" "keeps (same_table f) (stripe_searchCustomerId b email)"
  "keeps (same_table f) (stripe_customerIdsForEmail b email)" "keeps (same_table f) (subscriptionsFor b c)"
  "keeps (same_table f) (allSubscriptions b)" "keeps (same_table f) (cancelAtPeriodEnd b s)"
  "keeps (same_table f) (cancelNow b s)" "keeps (same_table f) (openInvoiceIds b s)"
  "keeps (same_table f) (voidInvoice b i)"
  unfolding stripe_defs by (auto intro!: table_intros)

lemma dur_stripe:
  "keeps durably (stripe_customerEmail b c)" "keeps durably (stripe_searchCustomerId b email)"
  "keeps durably (stripe_customerIdsForEmail b email)" "keeps durably (subscriptionsFor b c)"
  "keeps durably (allSubscriptions b)" "keeps durably (cancelAtPeriodEnd b s)"
  "keeps durably (cancelNow b s)" "keeps durably (openInvoiceIds b s)" "keeps durably (voidInvoice b i)"
  unfolding stripe_defs by (auto intro!: dur_intros)

end
