(* ===== verification/Alerts.thy ===== *)
theory Alerts imports Types IsoTime begin

text \<open>
  Every operational alert the bridge mails an admin (\<open>apps/stripe-bridge/src/alerts.ts\<close>), as a
  subject and a body. Stripe objects are parsed JSON.
\<close>

definition apostrophe :: string where
  "apostrophe = [CHR 0x27]"

definition show_cents :: "int \<Rightarrow> string" where
  \<comment> \<open>\<open>(amount / 100).toFixed(2)\<close> of an integer\<close>
  "show_cents a = (if a < 0 then ''-'' else '''') @ show_int (\<bar>a\<bar> div 100) @ ''.'' @ pad (\<bar>a\<bar> mod 100) 2"

definition money :: "json option \<Rightarrow> json option \<Rightarrow> string" where
  "money amount currency = (case amount of
     Some (JNum a) \<Rightarrow> trim (show_cents a @ '' '' @ (case currency of Some (JStr c) \<Rightarrow> toUpperCase c | _ \<Rightarrow> ''''))
   | _ \<Rightarrow> ''unknown amount'')"

definition describeInvoice :: "json_object \<Rightarrow> string" where
  "describeInvoice invoice =
     (let amount = money (field invoice ''amount_due'') (field invoice ''currency'');
          attempts = (case num_field invoice ''attempt_count'' of Some n \<Rightarrow> n | None \<Rightarrow> 0);
          at = (case num_field invoice ''next_payment_attempt'' of
              Some retry \<Rightarrow> if retry \<noteq> 0 then take 10 (isoformat (retry * 1000))
                else ''none scheduled; Stripe has given up on this invoice''
            | None \<Rightarrow> ''none scheduled; Stripe has given up on this invoice'');
          i = option_text ''with no id'' (str_field invoice ''id'')
      in amount @ '', attempt '' @ show_int attempts @ '', next retry '' @ at @ '' (invoice '' @ i @ '')'')"

definition signup_alert :: "string \<Rightarrow> tier \<Rightarrow> json_object \<Rightarrow> string option \<Rightarrow> string option \<Rightarrow> string \<Rightarrow> alert" where
  "signup_alert email tier session sessionId customerId url =
     \<lparr>al_subject = email @ '' signed up for '' @ tier_name tier,
      al_body = email @ '' completed a '' @ tier_name tier @ '' checkout for '' @
        money (field session ''amount_total'') (field session ''currency'') @ ''.'' @ newline @ newline @
        ''  session  '' @ option_text ''none'' sessionId @ newline @
        ''  customer '' @ option_text ''none'' customerId @ newline @
        ''  invite   '' @ url @ newline @ newline @
        ''The invite link has been emailed to them; they hold no new access '' @
        ''until they open it.'' @ newline\<rparr>"

definition paymentFailed_alert :: "string \<Rightarrow> json_object \<Rightarrow> string \<Rightarrow> alert" where
  "paymentFailed_alert email invoice access =
     \<lparr>al_subject = email @ '' missed a payment'',
      al_body = ''Stripe could not charge '' @ email @ ''.'' @ newline @ newline @
        ''  '' @ describeInvoice invoice @ newline @ newline @
        access @ newline @ newline @
        ''Access is not changed by a failed charge. If the retries all fail, '' @
        ''Stripe cancels the subscription and the bridge disables them then.'' @ newline\<rparr>"

record retired_subscription =
  rt_subscription :: string
  rt_customer :: string
  rt_invoices :: "string list"

definition duplicatesRetired :: "string \<Rightarrow> string \<Rightarrow> retired_subscription list \<Rightarrow> alert" where
  "duplicatesRetired email payingUnder retired =
     \<lparr>al_subject = ''cancelled '' @ show_nat (length retired) @ '' duplicate subscription(s) for '' @ email,
      al_body = email @ '' pays under '' @ payingUnder @ '', and Stripe was still retrying an '' @
        ''older subscription at the same address. Cancelled now (no final invoice, '' @
        ''no proration) and its open invoices voided, so they are not charged twice:'' @ newline @ newline @
        joined newline (map (\<lambda>r. ''- '' @ rt_subscription r @ '' on '' @ rt_customer r @ ''; voided '' @
          (let voided = joined '', '' (rt_invoices r) in if voided = [] then ''nothing'' else voided)) retired) @
        newline @ newline @
        ''Their access is unchanged. Refund in Stripe if a duplicate was already charged.'' @ newline\<rparr>"

definition duplicateNotRetired :: "string \<Rightarrow> string \<Rightarrow> json_object option \<Rightarrow> alert" where
  "duplicateNotRetired email payingUnder invoice =
     \<lparr>al_subject = ''DOUBLE CHARGE RISK: '' @ email @ '' already pays under '' @ payingUnder,
      al_body = email @ '' pays under '' @ payingUnder @ ''. Stripe may still be retrying an older '' @
        ''subscription at the same address, and the bridge did not cancel it.'' @ newline @ newline @
        (case invoice of Some i \<Rightarrow> ''  '' @ describeInvoice i @ newline @ newline | None \<Rightarrow> '''') @
        ''In Stripe, find every other customer at '' @ email @ ''; cancel any subscription '' @
        ''still past due (no final invoice, no proration) and void its open '' @
        ''invoice before the next retry charges them twice.'' @ newline\<rparr>"

definition bannedCheckout :: "string \<Rightarrow> tier \<Rightarrow> string option \<Rightarrow> string option \<Rightarrow> alert" where
  "bannedCheckout email tier sessionId customerId =
     \<lparr>al_subject = ''banned member '' @ email @ '' checked out'',
      al_body = email @ '' is banned but completed a '' @ tier_name tier @ '' checkout '' @
        ''(session '' @ option_text ''none'' sessionId @ '', customer '' @ option_text ''none'' customerId @ '').'' @
        newline @ newline @
        ''No invite was issued and no access was granted. Refund or '' @
        ''cancel the subscription in Stripe.'' @ newline\<rparr>"

definition accessRestored :: "string \<Rightarrow> tier \<Rightarrow> alert" where
  "accessRestored email tier =
     \<lparr>al_subject = ''reissued access for '' @ email,
      al_body = email @ '' paid but held no Wizarr records, so the bridge issued a fresh '' @
        tier_name tier @ '' invite and emailed it.'' @ newline @ newline @
        ''They are locked out until they open that link. If they were paying under '' @
        ''a second Stripe customer or a different Plex address, reconcile the two '' @
        ''before the next renewal.'' @ newline\<rparr>"

record dunning_finding =
  df_email :: string
  df_status :: string
  df_line :: string

definition dunningSweep :: "dunning_finding list \<Rightarrow> alert" where
  "dunningSweep found =
     \<lparr>al_subject = show_nat (length found) @ '' member(s) missed a payment'',
      al_body = ''Stripe has these members in dunning, and no payment_failed webhook ever '' @
        ''reached the bridge for them:'' @ newline @ newline @
        joined newline (map (\<lambda>f. ''- '' @ df_email f @ '': subscription '' @ df_status f @ ''. '' @ df_line f) found) @
        newline @ newline @
        ''Nothing was changed except the admin UI now reads them as Payment Failed. '' @
        ''Check the card on file with them before Stripe'' @ apostrophe @ ''s last retry cancels the '' @
        ''subscription.'' @ newline\<rparr>"

definition vipsWithoutAccess :: "string list \<Rightarrow> alert" where
  "vipsWithoutAccess stranded =
     \<lparr>al_subject = show_nat (length stranded) @ '' VIP(s) hold no server access'',
      al_body = ''These VIP members have no Wizarr record on any server:'' @ newline @ newline @
        joined newline (map (\<lambda>email. ''- '' @ email) stranded) @ newline @ newline @
        ''VIP access is meant to be permanent. Either they never redeemed '' @
        ''their invite, or something disabled them.'' @ newline\<rparr>"

definition tierScopes :: "(string \<times> string) list \<Rightarrow> alert" where
  "tierScopes problems =
     \<lparr>al_subject = show_nat (length problems) @ '' invite scope problem(s)'',
      al_body = ''Invites no longer line up with the live library list:'' @ newline @ newline @
        joined newline (map (\<lambda>(tier, reason). ''- '' @ tier @ '': '' @ reason) (sort_key fst problems)) @
        newline @ newline @
        ''Members cannot sign up cleanly until the names line up again.'' @ newline\<rparr>"

end
