(* ===== verification/Mailer.thy ===== *)
theory Mailer imports Ports Alerts begin

text \<open>
  The mailer (\<open>apps/stripe-bridge/src/clients/mailer.ts\<close>) and the invite's HTML alternative
  (\<open>apps/stripe-bridge/src/clients/emailTemplate.ts\<close>). The SMTP transport is nodemailer's part;
  \<open>smtp_fault\<close> says whether a message goes out.
\<close>

definition FONT :: string where
  "FONT = ''-apple-system,'' @ apostrophe @ ''Segoe UI'' @ apostrophe @ '',Roboto,Helvetica,Arial,sans-serif''"

definition renderInviteEmail :: "string \<Rightarrow> int \<Rightarrow> string" where
  "renderInviteEmail url expiresDays = concat (map (\<lambda>line. line @ newline) [
    ''<!doctype html>'',
    ''<html>'',
    ''  <body style=\"margin:0;padding:0;background-color:#f4f5f7;\">'',
    ''    <div style=\"display:none;max-height:0;overflow:hidden;mso-hide:all;\">'',
    ''      Set up your account &mdash; your invite expires in '' @ show_int expiresDays @ '' days.'',
    ''    </div>'',
    ''    <table role=\"presentation\" width=\"100%\" cellpadding=\"0\" cellspacing=\"0\" style=\"background-color:#f4f5f7;\">'',
    ''      <tr>'',
    ''        <td align=\"center\" style=\"padding:40px 16px;\">'',
    ''          <table role=\"presentation\" width=\"100%\" cellpadding=\"0\" cellspacing=\"0\" style=\"max-width:600px;background-color:#ffffff;border:1px solid #e2e4e9;border-radius:12px;\">'',
    ''            <tr>'',
    ''              <td style=\"padding:40px 40px 32px;font-family:'' @ FONT @ '';\">'',
    ''                <p style=\"margin:0 0 28px;font-size:14px;font-weight:700;letter-spacing:6px;color:#0b0d12;\">WESTEROZ</p>'',
    ''                <h1 style=\"margin:0 0 12px;font-size:24px;font-weight:700;color:#0b0d12;\">You&rsquo;re in.</h1>'',
    ''                <p style=\"margin:0 0 12px;font-size:16px;line-height:1.6;color:#3f4653;\">'',
    ''                  Thanks for contributing to server costs. Your access is ready &mdash;'',
    ''                  set up your account to get started.'',
    ''                </p>'',
    ''                <p style=\"margin:0 0 28px;font-size:14px;line-height:1.6;color:#3f4653;\">'',
    ''                  You&rsquo;ll sign in with a Plex account. If you don&rsquo;t have one yet,'',
    ''                  create it with this same email address so your access stays linked to'',
    ''                  your contribution.'',
    ''                </p>'',
    ''                <table role=\"presentation\" cellpadding=\"0\" cellspacing=\"0\" style=\"margin:0 0 28px;\">'',
    ''                  <tr>'',
    ''                    <td bgcolor=\"#c23b3b\" style=\"border-radius:8px;\">'',
    ''                      <a href=\"'' @ url @ ''\" style=\"display:inline-block;padding:13px 28px;font-family:'' @ FONT @ '';font-size:16px;font-weight:600;color:#ffffff;text-decoration:none;border-radius:8px;\">Set up your account</a>'',
    ''                    </td>'',
    ''                  </tr>'',
    ''                </table>'',
    ''                <p style=\"margin:0 0 8px;font-size:14px;line-height:1.6;color:#6b7280;\">'',
    ''                  This invite expires in '' @ show_int expiresDays @ '' days, so please complete signup soon.'',
    ''                </p>'',
    ''                <p style=\"margin:0;font-size:13px;line-height:1.6;color:#6b7280;\">'',
    ''                  Or paste this link into your browser:<br>'',
    ''                  <a href=\"'' @ url @ ''\" style=\"color:#c23b3b;word-break:break-all;\">'' @ url @ ''</a>'',
    ''                </p>'',
    ''              </td>'',
    ''            </tr>'',
    ''            <tr>'',
    ''              <td style=\"padding:20px 40px;border-top:1px solid #e9ebef;font-family:'' @ FONT @ '';\">'',
    ''                <p style=\"margin:0;font-size:12px;line-height:1.6;color:#9aa1ad;\">'',
    ''                  If you cancel your contribution, access will be removed at the end of'',
    ''                  the current billing cycle.'',
    ''                </p>'',
    ''              </td>'',
    ''            </tr>'',
    ''          </table>'',
    ''        </td>'',
    ''      </tr>'',
    ''    </table>'',
    ''  </body>'',
    ''</html>''])"

definition inviteText :: "string \<Rightarrow> int \<Rightarrow> string" where
  "inviteText url days = joined newline [
    ''Thanks for contributing to server costs!'',
    '''',
    ''Click the link below to set up your account. You'' @ apostrophe @ ''ll sign in with a Plex account;'',
    ''if you don'' @ apostrophe @ ''t have one yet, create it with this same email address so your access'',
    ''stays linked to your contribution.'',
    '''',
    ''The invite expires in '' @ show_int days @ '' days, so please complete signup soon.'',
    '''',
    ''  '' @ url,
    '''',
    ''If you cancel your contribution, access will be removed at the end of the current cycle.'']"

definition paymentFailedText :: "string \<Rightarrow> string" where
  "paymentFailedText portalUrl = joined newline [
    ''We couldn'' @ apostrophe @ ''t charge the card on file for your monthly server-cost contribution.'',
    ''Stripe will try it again over the next few days, and your access stays on in the'',
    ''meantime.'',
    '''',
    ''To update your card, open the link below and sign in with this email address:'',
    '''',
    ''  '' @ portalUrl,
    '''',
    ''Please update the card rather than signing up again: a second signup starts a'',
    ''second contribution alongside this one.'']"

definition mailer_send :: "env \<Rightarrow> mail_message \<Rightarrow> unit run" where
  "mailer_send b message = ask (MailCall message) (\<lambda>h. case smtp_fault b h message of Some e \<Rightarrow> Inl e | None \<Rightarrow> Inr ())"

definition invite_message :: "env \<Rightarrow> string \<Rightarrow> string \<Rightarrow> mail_message" where
  "invite_message b recipient url = \<lparr>mail_to = recipient, mail_subject = ''Your Westeroz access link'',
     mail_text = inviteText url (inviteDays (settings_of b)),
     mail_html = Some (renderInviteEmail url (inviteDays (settings_of b)))\<rparr>"

definition sendInvite :: "env \<Rightarrow> string \<Rightarrow> string \<Rightarrow> unit run" where
  "sendInvite b recipient url = mailer_send b (invite_message b recipient url)"

definition alert_message :: "env \<Rightarrow> alert \<Rightarrow> mail_message" where
  "alert_message b a = \<lparr>mail_to = joined '', '' (alert_addresses b),
     mail_subject = ''[westeroz] '' @ al_subject a, mail_text = al_body a, mail_html = None\<rparr>"

definition sendAlert :: "env \<Rightarrow> alert \<Rightarrow> unit run" where
  "sendAlert b a = (if alert_addresses b = [] then ret ()
     else catchM (mailer_send b (alert_message b a)) (\<lambda>_. ret ()))"

definition payment_failed_message :: "string \<Rightarrow> string \<Rightarrow> mail_message" where
  "payment_failed_message recipient portalUrl = \<lparr>mail_to = recipient,
     mail_subject = ''Your Westeroz contribution did not go through'',
     mail_text = paymentFailedText portalUrl, mail_html = None\<rparr>"

definition sendPaymentFailed :: "env \<Rightarrow> string \<Rightarrow> string \<Rightarrow> unit run" where
  "sendPaymentFailed b recipient portalUrl =
     catchM (mailer_send b (payment_failed_message recipient portalUrl)) (\<lambda>_. ret ())"

subsection \<open>Facts\<close>

lemma sendAlert_never_throws [simp]: "never_throws (sendAlert b a)"
  by (simp add: sendAlert_def never_throws_catchM)

lemma sendPaymentFailed_never_throws [simp]: "never_throws (sendPaymentFailed b recipient portalUrl)"
  by (simp add: sendPaymentFailed_def never_throws_catchM)

text \<open>A mail that carries an invite link is the only one with an HTML part.\<close>

fun invite_mail :: "call \<Rightarrow> bool" where
  "invite_mail (MailCall m) = (mail_html m \<noteq> None)"
| "invite_mail _ = False"

lemma emits_send: "P (MailCall m) \<Longrightarrow> keeps (emits P) (mailer_send b m)"
  by (simp add: mailer_send_def emits_ask)

lemma emits_sendInvite: "P (MailCall (invite_message b recipient url)) \<Longrightarrow> keeps (emits P) (sendInvite b recipient url)"
  by (simp add: sendInvite_def emits_send)

lemma emits_sendAlert: "P (MailCall (alert_message b a)) \<Longrightarrow> keeps (emits P) (sendAlert b a)"
  by (auto simp: sendAlert_def intro!: emits_intros emits_send)

lemma emits_sendPaymentFailed:
  "P (MailCall (payment_failed_message recipient portalUrl)) \<Longrightarrow> keeps (emits P) (sendPaymentFailed b recipient portalUrl)"
  by (auto simp: sendPaymentFailed_def intro!: emits_intros emits_send)

lemma table_mail: "keeps (same_table f) (sendInvite b recipient url)" "keeps (same_table f) (sendAlert b a)"
  "keeps (same_table f) (sendPaymentFailed b recipient portalUrl)"
  by (auto simp: sendInvite_def sendAlert_def sendPaymentFailed_def mailer_send_def intro!: table_intros)

lemma dur_mail: "keeps durably (sendInvite b recipient url)" "keeps durably (sendAlert b a)"
  "keeps durably (sendPaymentFailed b recipient portalUrl)"
  by (auto simp: sendInvite_def sendAlert_def sendPaymentFailed_def mailer_send_def intro!: dur_intros)

lemma wp_send [wp_simps]: "wp (mailer_send b m) Q E w =
    (case smtp_fault b (w_trace w) m of Some e \<Rightarrow> E e (logged (MailCall m) w) | None \<Rightarrow> Q () (logged (MailCall m) w))"
  by (simp add: mailer_send_def wp_simps split: option.splits)

end
