(* ===== verification/Members.thy ===== *)
theory Members imports WizarrClient PlexClient StripeClient Mailer begin

text \<open>
  Who a Stripe customer is in Wizarr, resolved live (\<open>apps/stripe-bridge/src/members.ts\<close>).
\<close>

definition invites_of :: "(string \<times> customer_row) list \<Rightarrow> (string \<times> string) list" where
  "invites_of rows = js_map (somes (map (\<lambda>(email, row).
     map_option (\<lambda>code. (email, code)) (nonempty (row_invite_code row))) rows))"

definition storedIdentity :: "env \<Rightarrow> ((string \<times> string) list \<times> (string \<times> string) list) run" where
  "storedIdentity b = bindM (sql_read b allMemberLinks) (\<lambda>links.
     bindM (sql_read b allCustomerRows) (\<lambda>rows. ret (links, invites_of rows)))"

definition snapshotOver :: "env \<Rightarrow> wizarr_user list \<Rightarrow> invitation list \<Rightarrow> identity_snapshot run" where
  "snapshotOver b users invitations = bindM (storedIdentity b) (\<lambda>(links, invites).
     ret \<lparr>snap_users = users, snap_invitations = invitations, snap_links = links, snap_invites = invites\<rparr>)"

definition identitySnapshot :: "env \<Rightarrow> identity_snapshot run" where
  "identitySnapshot b = bindM (bothM (listUsers b) (listInvitations b)) (\<lambda>(users, invitations).
     snapshotOver b users invitations)"

definition storedSnapshot :: "env \<Rightarrow> identity_snapshot run" where
  "storedSnapshot b = snapshotOver b [] []"

definition personAt :: "identity_snapshot \<Rightarrow> string \<Rightarrow> identity" where
  "personAt snapshot email = identityFor snapshot (Some email) (map_of (snap_invites snapshot) (toLowerCase email))"

definition standingOver :: "(string \<times> member_tag) list \<Rightarrow> identity \<Rightarrow> member_tag option" where
  \<comment> \<open>\<open>standingOf\<close> handed the tags it should read\<close>
  "standingOver tags ident = strongestAcross tags (addresses ident)"

definition standingOf :: "env \<Rightarrow> identity \<Rightarrow> member_tag option run" where
  "standingOf b ident = bindM (sql_read b allMemberTags) (\<lambda>tags. ret (standingOver tags ident))"

definition resolveIdentity :: "env \<Rightarrow> identity_snapshot \<Rightarrow> string option \<Rightarrow> string option \<Rightarrow> identity run" where
  "resolveIdentity b snapshot customerId email =
     bindM (case nonempty customerId of
         Some c \<Rightarrow> bindM (sql_read b (getMapping c)) (\<lambda>m. ret (Option.bind m mp_invite_code))
       | None \<Rightarrow> ret None) (\<lambda>inviteCode.
     ret (identityFor snapshot email inviteCode))"

definition resolveUserIds :: "env \<Rightarrow> string option \<Rightarrow> string option \<Rightarrow> int list run" where
  "resolveUserIds b customerId email = bindM (identitySnapshot b) (\<lambda>snapshot.
     bindM (resolveIdentity b snapshot customerId email) (\<lambda>ident.
     ret (map usr_id (id_records ident))))"

definition access_sentence :: "bool option \<Rightarrow> string" where
  "access_sentence held = (case held of
     None \<Rightarrow> ''Whether they hold server access could not be checked (Wizarr unreachable).''
   | Some True \<Rightarrow> ''They still hold server access for the period already paid; it lapses '' @
       ''at their expiry if the retries keep failing.''
   | Some False \<Rightarrow> ''They hold NO server access on any server right now: either their invite '' @
       ''was never redeemed or their records already lapsed.'')"

definition accessLine :: "env \<Rightarrow> string option \<Rightarrow> string \<Rightarrow> string run" where
  "accessLine b customerId email = bindM (outcome (resolveUserIds b customerId (Some email))) (\<lambda>r.
     ret (access_sentence (case r of Inr ids \<Rightarrow> Some (ids \<noteq> []) | Inl _ \<Rightarrow> None)))"

definition statusByCustomer :: "env \<Rightarrow> (string \<times> string) list run" where
  \<comment> \<open>\<open>stripeStatusByCustomer\<close> over the live subscription list\<close>
  "statusByCustomer b = bindM (allSubscriptions b) (\<lambda>subs. ret (stripeStatusByCustomer subs))"

definition liveSiblingCustomer :: "env \<Rightarrow> string \<Rightarrow> string \<Rightarrow> string option run" where
  "liveSiblingCustomer b email deadCustomer = bindM (sql_read b (customerIdsForEmail email)) (\<lambda>ids.
     let siblings = filter (\<lambda>customer. customer \<noteq> deadCustomer) ids in
     if siblings = [] then ret None
     else bindM (statusByCustomer b) (\<lambda>status.
       ret (List.find (\<lambda>customer. isLiveStatus (option_text '''' (map_of status customer))) siblings)))"

definition paying_address :: "(string \<times> customer_row) list \<Rightarrow> string \<Rightarrow> identity \<Rightarrow> string option" where
  "paying_address rows email ident =
     (let lowered = toLowerCase email;
          others = sort (filter (\<lambda>address. address \<noteq> lowered) (addresses ident))
      in List.find (\<lambda>address. case map_of rows address of Some r \<Rightarrow> row_subscribed r | None \<Rightarrow> False) others)"

definition stillSubscribedElsewhere :: "env \<Rightarrow> string \<Rightarrow> identity \<Rightarrow> string option run" where
  "stillSubscribedElsewhere b email ident = bindM (sql_read b allCustomerRows) (\<lambda>rows.
     ret (paying_address rows email ident))"

subsection \<open>What these reads may ask for\<close>

text \<open>Requests that change nothing outside the bridge.\<close>

fun wizarr_read :: "wizarr_request \<Rightarrow> bool" where
  "wizarr_read GetLibraries = True"
| "wizarr_read GetInvitations = True"
| "wizarr_read (GetUsers _) = True"
| "wizarr_read _ = False"

fun reads :: "call \<Rightarrow> bool" where
  "reads (WizarrCall req) = wizarr_read req"
| "reads (PlexCall _) = True"
| "reads (StripeCall req) = stripe_read req"
| "reads (MailCall _) = False"
| "reads ClockRead = True"
| "reads SqlUnit = True"

lemmas members_defs = storedIdentity_def snapshotOver_def identitySnapshot_def storedSnapshot_def
  standingOf_def resolveIdentity_def resolveUserIds_def accessLine_def statusByCustomer_def
  liveSiblingCustomer_def stillSubscribedElsewhere_def Let_def

lemmas emits_clients = emits_wizarr emits_plex emits_stripe emits_sendInvite emits_sendAlert emits_sendPaymentFailed
lemmas table_clients = table_wizarr table_plex table_stripe table_mail
lemmas dur_clients = dur_wizarr dur_plex dur_stripe dur_mail

text \<open>Every read of \<open>members.ts\<close> only asks: a property of requests that all reads have holds of
  whatever it adds to the log.\<close>

lemma emits_members:
  assumes "\<And>c. reads c \<Longrightarrow> P c"
  shows "keeps (emits P) (snapshotOver b users invitations)" "keeps (emits P) (identitySnapshot b)"
    "keeps (emits P) (storedSnapshot b)" "keeps (emits P) (standingOf b ident)"
    "keeps (emits P) (resolveIdentity b snapshot customerId email)" "keeps (emits P) (resolveUserIds b customerId email)"
    "keeps (emits P) (accessLine b customerId address)" "keeps (emits P) (statusByCustomer b)"
    "keeps (emits P) (liveSiblingCustomer b address dead)" "keeps (emits P) (stillSubscribedElsewhere b address ident)"
  unfolding members_defs by (intro emits_intros emits_clients; simp add: assms)+

lemma table_members:
  "keeps (same_table f) (snapshotOver b users invitations)" "keeps (same_table f) (identitySnapshot b)"
  "keeps (same_table f) (storedSnapshot b)" "keeps (same_table f) (standingOf b ident)"
  "keeps (same_table f) (resolveIdentity b snapshot customerId email)" "keeps (same_table f) (resolveUserIds b customerId email)"
  "keeps (same_table f) (accessLine b customerId address)" "keeps (same_table f) (statusByCustomer b)"
  "keeps (same_table f) (liveSiblingCustomer b address dead)" "keeps (same_table f) (stillSubscribedElsewhere b address ident)"
  unfolding members_defs by (intro table_intros table_clients)+

lemma dur_members:
  "keeps durably (snapshotOver b users invitations)" "keeps durably (identitySnapshot b)"
  "keeps durably (storedSnapshot b)" "keeps durably (standingOf b ident)"
  "keeps durably (resolveIdentity b snapshot customerId email)" "keeps durably (resolveUserIds b customerId email)"
  "keeps durably (accessLine b customerId address)" "keeps durably (statusByCustomer b)"
  "keeps durably (liveSiblingCustomer b address dead)" "keeps durably (stillSubscribedElsewhere b address ident)"
  unfolding members_defs by (intro dur_intros dur_clients)+

lemma accessLine_never_throws [simp]: "never_throws (accessLine b customerId email)"
  by (simp add: accessLine_def never_throws_bindM)

end
