(* ===== verification/Invites.thy ===== *)
theory Invites imports Members begin

text \<open>
  The one way an invite is scoped, minted, recorded and delivered
  (\<open>apps/stripe-bridge/src/invites.ts\<close>).
\<close>

subsection \<open>Scoping and minting\<close>

definition tierScope :: "tier \<Rightarrow> library list \<Rightarrow> string \<Rightarrow> exn + tier_scope" where
  "tierScope tier libraries ctx = (let access = resolveTierAccess tierWants tier libraries in
     if library_ids access = [] then
       Inl (TierScopeEmpty (''no libraries resolved for tier '' @ quoted (tier_name tier) @ '' on '' @ quoted ctx))
     else Inr access)"

definition liveLibraries :: "env \<Rightarrow> library list run" where
  "liveLibraries b = bindM (listLibraries b) (\<lambda>libraries.
     bindM (liveSectionsOrNone b) (\<lambda>l. ret (withoutStale libraries l)))"

definition liveScope :: "env \<Rightarrow> tier \<Rightarrow> string \<Rightarrow> tier_scope run" where
  "liveScope b tier ctx = bindM (liveLibraries b) (\<lambda>libraries. liftE (tierScope tier libraries ctx))"

definition mint_request :: "settings \<Rightarrow> tier_scope \<Rightarrow> bool option \<Rightarrow> int \<Rightarrow> bool \<Rightarrow> invite_request" where
  "mint_request st scope allowDownloads days unlimited =
     \<lparr>rq_server_ids = server_ids scope, rq_expires_in_days = days, rq_duration = show_int (accessDays st),
      rq_unlimited = unlimited, rq_library_ids = Some (library_ids scope),
      rq_allow_downloads = (case allowDownloads of Some a \<Rightarrow> a | None \<Rightarrow> allow_downloads scope)\<rparr>"

definition mint :: "env \<Rightarrow> tier_scope \<Rightarrow> bool option \<Rightarrow> int \<Rightarrow> bool \<Rightarrow> created_invite run" where
  "mint b scope allowDownloads days unlimited =
     createInvite b (mint_request (settings_of b) scope allowDownloads days unlimited)"

definition inviteUrl :: "settings \<Rightarrow> string \<Rightarrow> string" where
  "inviteUrl st code = publicInviteBase st @ ''/j/'' @ code"

subsection \<open>Issuing and delivering\<close>

record issued_invite =
  is_code :: string
  is_url :: string
  is_scope :: tier_scope
  is_emailed :: bool
  is_operation :: "invite_operation option"

definition find_issuance :: "env \<Rightarrow> invite_operation option \<Rightarrow> issuance option run" where
  "find_issuance b operation = (case operation of
     Some operation \<Rightarrow> sql_read b (getInviteIssuance operation) | None \<Rightarrow> ret None)"

definition record_issue ::
  "env \<Rightarrow> string \<Rightarrow> tier \<Rightarrow> string option \<Rightarrow> string \<Rightarrow> bool \<Rightarrow> unit run" where
  \<comment> \<open>the transaction: the pending row and, when asked, the settled payment\<close>
  "record_issue b email tier customerId code settlesPayment = bindM (readClock b) (\<lambda>now.
     sql_write b (\<lambda>d.
       let settled = (if settlesPayment then setPaymentState email None else id) in
       (case nonempty customerId of
          Some c \<Rightarrow> Inr (settled (upsertPending c email code (Some tier) (isoformat now) d))
        | None \<Rightarrow> (case upsertPendingByEmail email code (Some tier) (isoformat now) d of
            Inl e \<Rightarrow> Inl e | Inr d' \<Rightarrow> Inr (settled d')))))"

definition issueInvite ::
  "env \<Rightarrow> string \<Rightarrow> tier \<Rightarrow> tier_scope \<Rightarrow> string option \<Rightarrow> bool option \<Rightarrow> invite_operation option \<Rightarrow> bool \<Rightarrow>
   issued_invite run" where
  "issueInvite b email tier scope customerId allowDownloads operation settlesPayment =
     bindM (find_issuance b operation) (\<lambda>issued.
     bindM (case issued of
         Some i \<Rightarrow> ret (iss_invite_code i)
       | None \<Rightarrow> bindM (mint b scope allowDownloads (inviteDays (settings_of b)) False) (\<lambda>invite. ret (ci_code invite)))
     (\<lambda>code.
     andThen (case (issued, operation) of
         (None, Some operation) \<Rightarrow> sql_update b (recordInviteIssuance operation code)
       | _ \<Rightarrow> ret ())
     (andThen (record_issue b email tier customerId code settlesPayment)
     (ret \<lparr>is_code = code, is_url = inviteUrl (settings_of b) code, is_scope = scope,
        is_emailed = (case issued of Some i \<Rightarrow> iss_emailed i | None \<Rightarrow> False), is_operation = operation\<rparr>))))"

definition deliverInvite :: "env \<Rightarrow> string \<Rightarrow> issued_invite \<Rightarrow> bool run" where
  "deliverInvite b email invite =
     (if is_emailed invite then ret False
      else andThen (sendInvite b email (is_url invite))
        (andThen (case is_operation invite of Some operation \<Rightarrow> sql_update b (markInviteEmailed operation) | None \<Rightarrow> ret ())
        (ret True)))"

record rescoped =
  rs_disabled :: "int list"
  rs_surviving :: "wizarr_user list"

definition server_record_of :: "wizarr_user \<Rightarrow> server_record" where
  "server_record_of u = \<lparr>rec_id = usr_id u, rec_server = usr_server u\<rparr>"

definition rescopeRecords :: "env \<Rightarrow> wizarr_user list \<Rightarrow> string list \<Rightarrow> bool \<Rightarrow> rescoped run" where
  "rescopeRecords b records coveredServers evaluable =
     (let disabled = (if evaluable then staleRecordIds (map server_record_of records) coveredServers
        else map usr_id records) in
      andThen (eachInOrder (disableUser b) disabled)
        (ret \<lparr>rs_disabled = disabled, rs_surviving = filter (\<lambda>r. usr_id r \<notin> set disabled) records\<rparr>))"

subsection \<open>Facts\<close>

fun invite_post :: "call \<Rightarrow> bool" where
  "invite_post (WizarrCall (PostInvitation _)) = True"
| "invite_post _ = False"

fun disable_call :: "call \<Rightarrow> bool" where
  "disable_call (WizarrCall (PostDisable _)) = True"
| "disable_call _ = False"

fun expiry_call :: "call \<Rightarrow> bool" where
  "expiry_call (WizarrCall (PutExpiry _ _)) = True"
| "expiry_call _ = False"

lemma reads_not: "reads c \<Longrightarrow> \<not> invite_post c \<and> \<not> disable_call c \<and> \<not> expiry_call c \<and> \<not> invite_mail c"
proof -
  have "wizarr_read req \<Longrightarrow> \<not> invite_post (WizarrCall req) \<and> \<not> disable_call (WizarrCall req) \<and> \<not> expiry_call (WizarrCall req)" for req
    by (cases req) simp_all
  then show "reads c \<Longrightarrow> ?thesis" by (cases c) simp_all
qed

lemmas invites_defs = liveLibraries_def liveScope_def mint_def find_issuance_def record_issue_def issueInvite_def
  deliverInvite_def rescopeRecords_def Let_def

lemma emits_scope: "(\<And>c. reads c \<Longrightarrow> P c) \<Longrightarrow> keeps (emits P) (liveScope b tier ctx)"
  unfolding invites_defs by (intro emits_intros emits_clients; simp)

lemma emits_record_issue: "P ClockRead \<Longrightarrow> P SqlUnit \<Longrightarrow> keeps (emits P) (record_issue b email tier c code settles)"
  unfolding invites_defs by (intro emits_intros)

lemma emits_find_issuance: "P SqlUnit \<Longrightarrow> keeps (emits P) (find_issuance b operation)"
  unfolding invites_defs by (auto intro!: emits_intros)

lemma emits_issueInvite:
  assumes "P ClockRead" "P SqlUnit" "\<And>p. P (WizarrCall (PostInvitation p))"
  shows "keeps (emits P) (issueInvite b email tier scope c downloads operation settles)"
  unfolding issueInvite_def mint_def
  by (intro emits_intros emits_clients emits_find_issuance emits_record_issue assms)

lemma emits_deliverInvite:
  assumes "P SqlUnit" "P (MailCall (invite_message b email (is_url invite)))"
  shows "keeps (emits P) (deliverInvite b email invite)"
  unfolding deliverInvite_def by (intro emits_intros emits_clients assms)

lemma emits_rescope:
  "(\<And>u. P (WizarrCall (PostDisable u))) \<Longrightarrow> keeps (emits P) (rescopeRecords b records covered ev)"
  unfolding rescopeRecords_def Let_def by (intro emits_intros emits_clients)

lemma upsert_processed [simp]:
  "processed_events (upsertPending c email code tier at d) = processed_events d"
  "setByEmailOrPlaceholder email cols d = Inr d' \<Longrightarrow> processed_events d' = processed_events d"
  "processed_events (setPaymentState email state d) = processed_events d"
  "processed_events (setSubscribed email on d) = processed_events d"
  by (auto simp: upsertPending_def Let_def setByEmailOrPlaceholder_def setPaymentState_def setSubscribed_def
      update_customers_def split: if_splits)

lemma processed_invites:
  "keeps (same_table processed_events) (liveScope b tier ctx)"
  "keeps (same_table processed_events) (issueInvite b email tier scope c downloads operation settles)"
  "keeps (same_table processed_events) (deliverInvite b email invite)"
  "keeps (same_table processed_events) (rescopeRecords b records covered ev)"
  unfolding invites_defs
  by (intro table_intros table_clients; auto simp: recordInviteIssuance_def markInviteEmailed_def
      upsertPendingByEmail_def split: option.splits sum.splits)+

lemma durable_record_issue:
  "(case nonempty customerId of
      Some c \<Rightarrow> Inr ((if settles then setPaymentState email None else id) (upsertPending c email code (Some tier) at d))
    | None \<Rightarrow> (case upsertPendingByEmail email code (Some tier) at d of
        Inl e \<Rightarrow> Inl e | Inr d' \<Rightarrow> Inr ((if settles then setPaymentState email None else id) d'))) = Inr d'' \<Longrightarrow>
   durable d d''"
  by (auto intro: store_step_durable store_step.intros durable_trans [OF store_step_durable store_step_durable]
      split: option.splits sum.splits if_splits)

lemma dur_invites:
  "keeps durably (liveScope b tier ctx)"
  "keeps durably (issueInvite b email tier scope c downloads operation settles)"
  "keeps durably (deliverInvite b email invite)"
  "keeps durably (rescopeRecords b records covered ev)"
  unfolding invites_defs
  by (intro dur_intros dur_clients dur_sql_write store_step.intros; simp add: durable_record_issue)+

end
