(* ===== verification/Sample.thy ===== *)
theory Sample imports Members begin

text \<open>
  One concrete environment the witnesses run the model in: a Wizarr with two libraries, one user
  record and one invitation, a Stripe with two customers at one address, and a clock that moves
  a second with every request. The times are epoch milliseconds.
\<close>

definition sample_settings :: settings where
  "sample_settings = \<lparr>publicInviteBase = ''https://join'', accessDays = 32, inviteDays = 7,
     baselineExpiresDays = 30, billingPortalUrl = None\<rparr>"

fun sample_wizarr :: "wizarr_request \<Rightarrow> json" where
  "sample_wizarr GetLibraries = JObj [(''libraries'', JArr [
     JObj [(''id'', JNum 1), (''server_id'', JNum 1), (''name'', JStr ''1. Films''),
       (''server_name'', JStr ''Meleys''), (''enabled'', JBool True)],
     JObj [(''id'', JNum 2), (''server_id'', JNum 1), (''name'', JStr ''90. Attic''),
       (''server_name'', JStr ''Meleys''), (''enabled'', JBool True)]])]"
| "sample_wizarr (PostInvitation _) = JObj [(''invitation'', JObj [(''code'', JStr ''k2''), (''url'', JStr ''u'')])]"
| "sample_wizarr GetInvitations = JObj [(''invitations'', JArr [JObj [(''id'', JNum 5), (''code'', JStr ''k1'')]])]"
| "sample_wizarr (GetUsers _) = JObj [(''users'', JArr [
     JObj [(''id'', JNum 7), (''email'', JStr ''A@x''), (''server'', JStr ''Meleys'')]])]"
| "sample_wizarr _ = JNull"

definition sample_subscription :: "string \<Rightarrow> string \<Rightarrow> sdk_subscription" where
  "sample_subscription customer status = \<lparr>sdk_id = ''sub_'' @ customer, sdk_customer_ref = CustomerId customer,
     sdk_status = status, sdk_cancel_at_period_end = False, sdk_cancel_at = None\<rparr>"

definition sample_env :: env where
  "sample_env = \<lparr>settings_of = sample_settings, wizarr_base = ''http://wizarr'', plex_token = '''',
     plex_base = ''https://plex.tv'', alert_addresses = [''ops@x''],
     wizarr_answer = (\<lambda>h req. Inr (200, sample_wizarr req)),
     plex_answer = (\<lambda>h path. Inl (Failure ''offline'')),
     customer_answer = (\<lambda>h c. Inr \<lparr>sdk_deleted = False, sdk_email = Some ''a@x''\<rparr>),
     customers_answer = (\<lambda>h req. Inr [''cus_1'', ''cus_2'']),
     subscriptions_answer = (\<lambda>h req. Inr [sample_subscription ''cus_1'' ''past_due'', sample_subscription ''cus_2'' ''active'']),
     update_answer = (\<lambda>h req. Inr (sample_subscription ''cus_1'' ''active'')),
     invoices_answer = (\<lambda>h req. Inr [Some ''in_1'']),
     stripe_ack = (\<lambda>h req. None), smtp_fault = (\<lambda>h m. None), sqlite_fault = (\<lambda>h. None),
     clock = (\<lambda>h. 1790000000000 + 1000 * int (length h))\<rparr>"

definition world_of :: "db \<Rightarrow> world" where
  "world_of d = \<lparr>w_db = d, w_trace = []\<rparr>"

lemma world_of_sel [simp]: "w_db (world_of d) = d" "w_trace (world_of d) = []"
  by (simp_all add: world_of_def)

end
