(* ===== verification/Duplicates.thy ===== *)
theory Duplicates imports Sample begin

text \<open>
  Retiring the old subscriptions of a member who checked out again
  (\<open>apps/stripe-bridge/src/duplicates.ts\<close>).
\<close>

datatype retirement = Retired "retired_subscription list" | NoneRetired | RetireFailed

definition dunning_subscriptions :: "env \<Rightarrow> string \<Rightarrow> string \<Rightarrow> subscription list run" where
  "dunning_subscriptions b email payingUnder = bindM (stripe_customerIdsForEmail b email) (\<lambda>ids.
     bindM (mapInOrder (subscriptionsFor b) (filter (\<lambda>customer. customer \<noteq> payingUnder) ids)) (\<lambda>pages.
     ret (filter (\<lambda>s. isDunningStatus (sub_status s)) (concat pages))))"

definition cancel_one :: "env \<Rightarrow> subscription \<Rightarrow> retired_subscription run" where
  "cancel_one b s = andThen (cancelNow b (sub_id s))
     (bindM (openInvoiceIds b (sub_id s)) (\<lambda>invoices.
      andThen (bindM (mapInOrder (voidInvoice b) invoices) (\<lambda>_. ret ()))
        (ret \<lparr>rt_subscription = sub_id s, rt_customer = sub_customer s, rt_invoices = invoices\<rparr>)))"

definition cancelAndVoid :: "env \<Rightarrow> string \<Rightarrow> string \<Rightarrow> retired_subscription list run" where
  "cancelAndVoid b email payingUnder = bindM (dunning_subscriptions b email payingUnder) (mapInOrder (cancel_one b))"

definition retireDuplicates :: "env \<Rightarrow> string \<Rightarrow> string \<Rightarrow> retirement run" where
  "retireDuplicates b email payingUnder =
     bindM (outcome (cancelAndVoid b email payingUnder)) (\<lambda>r. case r of
       Inl _ \<Rightarrow> ret RetireFailed
     | Inr retired \<Rightarrow>
         if retired = [] then ret NoneRetired
         else (let ids = joined '', '' (map rt_subscription retired) in
           andThen (recordEvent b email ''Duplicate cancelled'' (ids @ '' cancelled and voided; pays under '' @ payingUnder))
          (andThen (sendAlert b (duplicatesRetired email payingUnder retired))
          (ret (Retired retired)))))"

subsection \<open>What a retirement may do\<close>

text \<open>Stripe says a subscription is being retried and belongs to somebody other than the customer
  the member pays under.\<close>

definition retirable :: "env \<Rightarrow> string \<Rightarrow> string \<Rightarrow> bool" where
  "retirable b payingUnder i \<longleftrightarrow> (\<exists>h customer subs s.
     customer \<noteq> payingUnder \<and>
     subscriptions_answer b h (ListSubscriptions (Some customer)) = Inr subs \<and>
     s \<in> set subs \<and> sdk_id s = i \<and> isDunningStatus (sdk_status s))"

text \<open>What a retirement may ask for: reads, a mail without invite link, the cancellation of a
  retirable subscription, and voiding.\<close>

fun retirement_call :: "env \<Rightarrow> string \<Rightarrow> call \<Rightarrow> bool" where
  "retirement_call b payingUnder (StripeCall (CancelSubscription i)) = retirable b payingUnder i"
| "retirement_call b payingUnder (StripeCall (VoidInvoice _)) = True"
| "retirement_call b payingUnder (MailCall m) = (mail_html m = None)"
| "retirement_call b payingUnder c = reads c"

lemma reads_retirement: "reads c \<Longrightarrow> retirement_call b p c"
proof -
  have "stripe_read req \<Longrightarrow> retirement_call b p (StripeCall req)" for req by (cases req) simp_all
  then show "reads c \<Longrightarrow> ?thesis" by (cases c) simp_all
qed

lemma dunning_subscriptions_retirable:
  "wp (dunning_subscriptions b email payingUnder)
     (\<lambda>subs w'. emits reads w w' \<and> (\<forall>s\<in>set subs. retirable b payingUnder (sub_id s))) (\<lambda>_ w'. emits reads w w') w"
proof -
  define I where "I = emits reads w"
  have step: "I t \<Longrightarrow> reads c \<Longrightarrow> I (logged c t)" for t c
    unfolding I_def emits_def by fastforce
  have one: "wp (subscriptionsFor b customer)
      (\<lambda>subs t. I t \<and> (\<forall>s\<in>set subs. isDunningStatus (sub_status s) \<longrightarrow> retirable b payingUnder (sub_id s))) (\<lambda>_. I) t"
    if "customer \<noteq> payingUnder" "I t" for customer t
    using that step [OF that(2)]
    by (auto simp: subscriptionsFor_def allPages_def wp_simps retirable_def toSubscription_def split: sum.splits)
  have start: "I w" by (simp add: I_def emits_def)
  have "wp (mapInOrder (subscriptionsFor b) (filter (\<lambda>customer. customer \<noteq> payingUnder) ids))
      (\<lambda>pages t. I t \<and> list_all2 (\<lambda>_ subs. \<forall>s\<in>set subs. isDunningStatus (sub_status s) \<longrightarrow> retirable b payingUnder (sub_id s))
        (filter (\<lambda>customer. customer \<noteq> payingUnder) ids) pages) (\<lambda>_. I) t" if "I t" for t ids
    using one that by (intro wp_mapInOrder_inv) auto
  then have pages: "wp (mapInOrder (subscriptionsFor b) (filter (\<lambda>customer. customer \<noteq> payingUnder) ids))
      (\<lambda>pages t. I t \<and> (\<forall>s\<in>set (concat pages). isDunningStatus (sub_status s) \<longrightarrow> retirable b payingUnder (sub_id s)))
      (\<lambda>_. I) t" if "I t" for t ids
    by (rule wp_cons) (use that in \<open>auto dest!: list_all2_right\<close>)
  show ?thesis
    unfolding dunning_subscriptions_def stripe_customerIdsForEmail_def I_def [symmetric]
    using step [OF start] by (auto simp: wp_simps split: sum.splits intro!: wp_cons [OF pages])
qed

lemma emits_cancel_one: "retirable b p (sub_id s) \<Longrightarrow> keeps (emits (retirement_call b p)) (cancel_one b s)"
  unfolding cancel_one_def by (intro emits_intros emits_clients; simp)

lemma wp_emits: "keeps (emits P) m \<Longrightarrow> wp m (\<lambda>_. emits P w) (\<lambda>_. emits P w) w"
  by (simp add: keeps_wp)

lemma emits_trans: "emits P u v \<Longrightarrow> emits P v w \<Longrightarrow> emits P u w"
  by (rule emit.R_trans)

lemma emits_cancelAndVoid: "keeps (emits (retirement_call b p)) (cancelAndVoid b email p)"
  unfolding keeps_wp
proof
  fix w
  have rest: "wp (mapInOrder (cancel_one b) subs) (\<lambda>_. emits (retirement_call b p) w) (\<lambda>_. emits (retirement_call b p) w) t"
    if "emits reads w t" "\<forall>s\<in>set subs. retirable b p (sub_id s)" for subs t
  proof -
    have "keeps (emits (retirement_call b p)) (mapInOrder (cancel_one b) subs)"
      using that(2) by (intro emit.k_map emits_cancel_one) simp
    moreover have "emits (retirement_call b p) w t" using that(1) reads_retirement by (rule emits_mono)
    ultimately show ?thesis using emits_trans by (blast intro: wp_cons [OF wp_emits])
  qed
  show "wp (cancelAndVoid b email p) (\<lambda>_. emits (retirement_call b p) w) (\<lambda>_. emits (retirement_call b p) w) w"
    unfolding cancelAndVoid_def wp_bindM
    by (rule wp_cons [OF dunning_subscriptions_retirable]) (auto intro: rest emits_mono reads_retirement)
qed

lemma emits_retire: "keeps (emits (retirement_call b payingUnder)) (retireDuplicates b email payingUnder)"
  unfolding retireDuplicates_def Let_def
  by (intro emits_intros emits_cancelAndVoid emits_clients; simp add: alert_message_def)

text \<open>C30: Retiring duplicates never throws, whatever Stripe, the store or the mail host do, and it
  cancels nothing but subscriptions Stripe reported as being retried for a customer other than the
  one the member pays under. Wizarr is not touched and no invite is mailed.\<close>

theorem retirement_is_safe:
  "never_throws (retireDuplicates b email payingUnder) \<and>
   keeps (emits (retirement_call b payingUnder)) (retireDuplicates b email payingUnder)"
  by (rule conjI [OF _ emits_retire])
    (auto simp: retireDuplicates_def Let_def intro!: never_throws_intros split: sum.splits)

lemma table_retire:
  "(\<And>at email action detail d. f (append_event at email action detail d) = f d) \<Longrightarrow>
     keeps (same_table f) (retireDuplicates b email payingUnder)"
  unfolding retireDuplicates_def cancelAndVoid_def dunning_subscriptions_def cancel_one_def Let_def
  by (intro table_intros table_clients)

lemma dur_retire: "keeps durably (retireDuplicates b email payingUnder)"
  unfolding retireDuplicates_def cancelAndVoid_def dunning_subscriptions_def cancel_one_def Let_def
  by (intro dur_intros dur_clients)

end
