(* ===== verification/Handlers.thy ===== *)
theory Handlers imports Invites Duplicates begin

text \<open>
  Stripe events in, Wizarr and store changes out
  (\<open>apps/stripe-bridge/src/webhook/handlers.ts\<close>): a checkout becomes an invite, a renewal
  extends, a failed charge flags, a cancellation disables. The field readers \<open>truthyText\<close> and
  \<open>nested\<close> are in \<open>Json\<close>.
\<close>

subsection \<open>Reading the event\<close>

definition requiredText :: "json_object \<Rightarrow> string \<Rightarrow> exn + string" where
  "requiredText obj key = (case truthyText obj key of
     Some s \<Rightarrow> Inr s
   | None \<Rightarrow> Inl (TypeErr (''the Stripe object carries no '' @ key @ '': '' @ shown (field obj key))))"

definition customerEmail :: "env \<Rightarrow> string option \<Rightarrow> string option run" where
  "customerEmail b customerId = (case nonempty customerId of
     None \<Rightarrow> throw (Failure ''the event names no customer to look an email up for'')
   | Some c \<Rightarrow> stripe_customerEmail b c)"

definition own_email :: "json_object \<Rightarrow> string option" where
  "own_email obj = (case truthyText (nested obj ''customer_details'') ''email'' of
     Some e \<Rightarrow> Some e | None \<Rightarrow> truthyText obj ''customer_email'')"

definition payerEmail :: "env \<Rightarrow> json_object \<Rightarrow> string option \<Rightarrow> string option run" where
  "payerEmail b obj customerId =
     (case (own_email obj, nonempty customerId) of
        (None, Some c) \<Rightarrow> bindM (sql_read b (getMapping c)) (\<lambda>m.
          case nonempty (Option.bind m mp_email) of
            Some e \<Rightarrow> ret (Some e)
          | None \<Rightarrow> customerEmail b (Some c))
      | (own, _) \<Rightarrow> ret own)"

definition accessExpiryIso :: "env \<Rightarrow> string run" where
  "accessExpiryIso b = bindM (readClock b) (\<lambda>now. ret (isoformat (addDays now (accessDays (settings_of b)))))"

definition resolveTierScope :: "env \<Rightarrow> tier \<Rightarrow> string \<Rightarrow> tier_scope run" where
  "resolveTierScope b tier ctx = liveScope b tier ctx"

subsection \<open>The steps the handlers share\<close>

definition restoreAccess :: "env \<Rightarrow> string \<Rightarrow> string option \<Rightarrow> tier option \<Rightarrow> string \<Rightarrow> unit run" where
  "restoreAccess b email customerId tier invoiceId =
     (let resolved = (case tier of Some t \<Rightarrow> t | None \<Rightarrow> Bronze) in
      bindM (resolveTierScope b resolved (''access recovery for '' @ email)) (\<lambda>scope.
      bindM (issueInvite b email resolved scope customerId None (Some (Recovery invoiceId)) False) (\<lambda>invite.
      bindM (deliverInvite b email invite) (\<lambda>sent.
      whenM sent
        (andThen (recordEvent b email ''Access restored''
            (''paid with no active records; '' @ tier_name resolved @ '' invite reissued''))
          (sendAlert b (accessRestored email resolved)))))))"

definition blockBannedCheckout :: "env \<Rightarrow> string \<Rightarrow> tier \<Rightarrow> string option \<Rightarrow> string option \<Rightarrow> unit run" where
  "blockBannedCheckout b email tier sessionId customerId =
     andThen (recordEvent b email ''Checkout blocked''
         (''banned member paid for '' @ tier_name tier @ ''; no invite issued''))
       (sendAlert b (bannedCheckout email tier sessionId customerId))"

definition resetExistingRecords ::
  "env \<Rightarrow> identity_snapshot \<Rightarrow> string \<Rightarrow> string option \<Rightarrow> tier_scope \<Rightarrow> unit run" where
  "resetExistingRecords b snapshot email customerId access =
     bindM (resolveIdentity b snapshot customerId (Some email)) (\<lambda>ident.
     bindM (rescopeRecords b (id_records ident) (server_names access) (via ident = ViaEmail)) (\<lambda>r.
     bindM (accessExpiryIso b) (\<lambda>expires.
     eachInOrder (\<lambda>record. setExpiry b (usr_id record) (Some expires)) (rs_surviving r))))"

definition renewRecords :: "env \<Rightarrow> identity \<Rightarrow> (int list \<times> string) run" where
  "renewRecords b ident =
     (let ids = map usr_id (id_records ident) in
      bindM (accessExpiryIso b) (\<lambda>expires.
      andThen (eachInOrder (\<lambda>userId. setExpiry b userId (Some expires)) ids) (ret (ids, expires))))"

definition disableRecords :: "env \<Rightarrow> identity \<Rightarrow> nat run" where
  "disableRecords b ident =
     (let ids = map usr_id (id_records ident) in
      andThen (eachInOrder (disableUser b) ids) (ret (length ids)))"

definition resolveLive :: "env \<Rightarrow> string option \<Rightarrow> string option \<Rightarrow> (identity_snapshot \<times> identity) run" where
  "resolveLive b customerId email = bindM (identitySnapshot b) (\<lambda>snapshot.
     bindM (resolveIdentity b snapshot customerId email) (\<lambda>ident. ret (snapshot, ident)))"

subsection \<open>The handlers\<close>

definition checkout_context :: "string option \<Rightarrow> string" where
  "checkout_context sessionId = ''checkout '' @ option_text ''with no id'' sessionId"

text \<open>The part of a checkout after the invite is out: retire duplicates, and re-scope the records
  unless they are a standing grant.\<close>

definition retire_after_checkout :: "env \<Rightarrow> string \<Rightarrow> string option \<Rightarrow> unit run" where
  "retire_after_checkout b email customerId = (case customerId of
     None \<Rightarrow> ret ()
   | Some c \<Rightarrow> bindM (retireDuplicates b email c) (\<lambda>status.
       whenM (status = RetireFailed) (sendAlert b (duplicateNotRetired email c None))))"

definition announce_signup :: "env \<Rightarrow> string \<Rightarrow> tier \<Rightarrow> json_object \<Rightarrow> string option \<Rightarrow> string option \<Rightarrow> string \<Rightarrow> unit run" where
  "announce_signup b email tier obj sessionId customerId url =
     andThen (recordEvent b email ''Signed up'' (tier_name tier @ '' tier '' @ em_dash @ '' invite emailed''))
       (sendAlert b (signup_alert email tier obj sessionId customerId url))"

definition fulfil_checkout ::
  "env \<Rightarrow> json_object \<Rightarrow> string option \<Rightarrow> string option \<Rightarrow> string \<Rightarrow> identity_snapshot \<Rightarrow> member_tag option \<Rightarrow> unit run" where
  "fulfil_checkout b obj customerId sessionId email snapshot tag =
     (let tier = normalizeTier (field (nested obj ''metadata'') ''tier'') in
      if isBanned tag then blockBannedCheckout b email tier sessionId customerId
      else
        bindM (resolveTierScope b tier (checkout_context sessionId)) (\<lambda>access.
        bindM (issueInvite b email tier access customerId None (map_option Checkout sessionId) True) (\<lambda>invite.
        bindM (deliverInvite b email invite) (\<lambda>sent.
        andThen (whenM sent (announce_signup b email tier obj sessionId customerId (is_url invite)))
       (andThen (retire_after_checkout b email customerId)
          (if holdsStandingGrant tag then ret ()
           else resetExistingRecords b snapshot email customerId access))))))"

definition checkout_for ::
  "env \<Rightarrow> json_object \<Rightarrow> string option \<Rightarrow> string option \<Rightarrow> string \<Rightarrow> unit run" where
  "checkout_for b obj customerId sessionId email =
     bindM (resolveLive b customerId (Some email)) (\<lambda>(snapshot, ident).
     bindM (standingOf b ident) (fulfil_checkout b obj customerId sessionId email snapshot))"

definition onCheckoutCompleted :: "env \<Rightarrow> json_object \<Rightarrow> unit run" where
  "onCheckoutCompleted b obj = bindM (payerEmail b obj None) (\<lambda>email.
     case nonempty email of
       None \<Rightarrow> ret ()
     | Some e \<Rightarrow> checkout_for b obj (truthyText obj ''customer'') (truthyText obj ''id'') e)"

definition extend_access :: "env \<Rightarrow> json_object \<Rightarrow> string \<Rightarrow> string \<Rightarrow> identity \<Rightarrow> member_tag option \<Rightarrow> unit run" where
  "extend_access b obj customerId email ident tag =
     (if isBanned tag then recordEvent b email ''Payment received'' ''banned; access not extended''
     else andThen (sql_update b (setSubscribed email True))
       (if holdsStandingGrant tag then
          recordEvent b email ''Payment received'' (''VIP '' @ em_dash @ '' expiry untouched'')
        else bindM (renewRecords b ident) (\<lambda>(ids, expires).
          if ids \<noteq> [] then recordEvent b email ''Payment received'' (''access extended to '' @ take 10 expires)
          else bindM (sql_read b (customerRow email)) (\<lambda>row.
            bindM (liftE (requiredText obj ''id'')) (\<lambda>invoiceId.
            restoreAccess b email (Some customerId) (Option.bind row row_tier) invoiceId)))))"

definition renewal_for :: "env \<Rightarrow> json_object \<Rightarrow> string \<Rightarrow> string \<Rightarrow> unit run" where
  "renewal_for b obj customerId email =
     bindM (resolveLive b (Some customerId) (Some email)) (\<lambda>(_, ident).
     bindM (standingOf b ident) (extend_access b obj customerId email ident))"

definition onInvoicePaid :: "env \<Rightarrow> json_object \<Rightarrow> unit run" where
  "onInvoicePaid b obj = bindM (liftE (requiredText obj ''customer'')) (\<lambda>customerId.
     bindM (payerEmail b obj (Some customerId)) (\<lambda>email.
     andThen (case nonempty email of Some e \<Rightarrow> sql_update b (setPaymentState e None) | None \<Rightarrow> ret ())
       (if field obj ''billing_reason'' = Some (JStr ''subscription_create'') then ret ()
        else (case nonempty email of
            None \<Rightarrow> bindM (resolveLive b (Some customerId) None) (\<lambda>(_, ident).
              bindM (renewRecords b ident) (\<lambda>_. ret ()))
          | Some e \<Rightarrow> renewal_for b obj customerId e))))"

definition failed_duplicate :: "env \<Rightarrow> json_object \<Rightarrow> string \<Rightarrow> string \<Rightarrow> unit run" where
  "failed_duplicate b obj email payingUnder = bindM (retireDuplicates b email payingUnder) (\<lambda>status.
     whenM (case status of Retired _ \<Rightarrow> False | _ \<Rightarrow> True)
       (sendAlert b (duplicateNotRetired email payingUnder (Some obj))))"

definition flag_failed_charge :: "env \<Rightarrow> json_object \<Rightarrow> string option \<Rightarrow> string \<Rightarrow> unit run" where
  "flag_failed_charge b obj customerId email =
     andThen (sql_update b (setPaymentState email (Some PastDue)))
    (andThen (recordEvent b email ''Payment failed''
        (''Stripe charge declined; access held while it retries ('' @ describeInvoice obj @ '')''))
    (bindM (accessLine b customerId email) (\<lambda>access.
     andThen (sendAlert b (paymentFailed_alert email obj access))
       (case nonempty (billingPortalUrl (settings_of b)) of
          Some url \<Rightarrow> sendPaymentFailed b email url
        | None \<Rightarrow> ret ()))))"

definition onPaymentFailed :: "env \<Rightarrow> json_object \<Rightarrow> unit run" where
  "onPaymentFailed b obj = (let customerId = truthyText obj ''customer'' in
     bindM (payerEmail b obj customerId) (\<lambda>email.
     case nonempty email of
       None \<Rightarrow> ret ()
     | Some e \<Rightarrow>
         bindM (case customerId of Some c \<Rightarrow> liveSiblingCustomer b e c | None \<Rightarrow> ret None) (\<lambda>payingUnder.
         case nonempty payingUnder of
           Some p \<Rightarrow> failed_duplicate b obj e p
         | None \<Rightarrow> flag_failed_charge b obj customerId e)))"

definition onSubscriptionUpdated :: "env \<Rightarrow> json_object \<Rightarrow> unit run" where
  "onSubscriptionUpdated b obj =
     (let status = option_text '''' (truthyText obj ''status'') in
      bindM (payerEmail b obj (truthyText obj ''customer'')) (\<lambda>email.
      case (nonempty email, statusRule status) of
        (Some e, Some rule) \<Rightarrow> sql_update b (setPaymentState e (st_payment rule))
      | _ \<Rightarrow> ret ()))"

definition end_access :: "env \<Rightarrow> string \<Rightarrow> string option \<Rightarrow> identity \<Rightarrow> member_tag option \<Rightarrow> unit run" where
  "end_access b email sibling ident tag =
     (if holdsStandingGrant tag then
        recordEvent b email ''Canceled'' ''subscription ended; access kept, VIP''
      else
        bindM (case nonempty sibling of Some s \<Rightarrow> ret (Some s) | None \<Rightarrow> stillSubscribedElsewhere b email ident) (\<lambda>paying.
        case nonempty paying of
          Some p \<Rightarrow> recordEvent b email ''Canceled'' (''subscription ended; access kept, still paying under '' @ p)
        | None \<Rightarrow> bindM (disableRecords b ident) (\<lambda>disabled.
            recordEvent b email ''Canceled''
              (''subscription ended '' @ em_dash @ '' '' @ show_nat disabled @ '' server record(s) disabled''))))"

definition cancel_for :: "env \<Rightarrow> string \<Rightarrow> string \<Rightarrow> unit run" where
  "cancel_for b customerId email =
     bindM (liveSiblingCustomer b email customerId) (\<lambda>sibling.
     andThen (case nonempty sibling of
         Some _ \<Rightarrow> sql_update b (setPaymentState email None)
       | None \<Rightarrow> sql_update b (setSubscribed email False))
     (bindM (resolveLive b (Some customerId) (Some email)) (\<lambda>(_, ident).
      bindM (standingOf b ident) (end_access b email sibling ident))))"

definition onSubscriptionDeleted :: "env \<Rightarrow> json_object \<Rightarrow> unit run" where
  "onSubscriptionDeleted b obj = bindM (liftE (requiredText obj ''customer'')) (\<lambda>customerId.
     bindM (payerEmail b obj (Some customerId)) (\<lambda>email.
     case nonempty email of
       None \<Rightarrow> bindM (resolveLive b (Some customerId) None) (\<lambda>(_, ident).
         bindM (disableRecords b ident) (\<lambda>_. ret ()))
     | Some e \<Rightarrow> cancel_for b customerId e))"

subsection \<open>Dispatch\<close>

definition HANDLERS :: "(string \<times> (env \<Rightarrow> json_object \<Rightarrow> unit run)) list" where
  "HANDLERS =
     [(''checkout.session.completed'', onCheckoutCompleted),
      (''invoice.paid'', onInvoicePaid),
      (''invoice.payment_failed'', onPaymentFailed),
      (''customer.subscription.updated'', onSubscriptionUpdated),
      (''customer.subscription.deleted'', onSubscriptionDeleted)]"

definition envelopeField :: "json \<Rightarrow> string \<Rightarrow> exn + json" where
  "envelopeField value key = (case Option.bind (fields_of value) (\<lambda>kvs. field kvs key) of
     Some v \<Rightarrow> Inr v
   | None \<Rightarrow> Inl (TypeErr (''the Stripe event carries no '' @ key)))"

definition event_id :: "json \<Rightarrow> string option" where
  "event_id event = Option.bind (fields_of event) (\<lambda>kvs. truthyText kvs ''id'')"

definition run_handler :: "env \<Rightarrow> json \<Rightarrow> json \<Rightarrow> unit run" where
  "run_handler b type obj = (case type of
     JStr name \<Rightarrow> (case map_of HANDLERS name of
         Some handler \<Rightarrow> (case obj of
             JObj kvs \<Rightarrow> handler b kvs
           | _ \<Rightarrow> throw (TypeErr (name @ '' carries no object: '' @ stringify obj)))
       | None \<Rightarrow> ret ())
   | _ \<Rightarrow> ret ())"

definition act_on :: "env \<Rightarrow> json \<Rightarrow> unit run" where
  "act_on b event = bindM (liftE (envelopeField event ''type'')) (\<lambda>type.
     bindM (liftE (envelopeField event ''data'')) (\<lambda>payload.
     bindM (liftE (envelopeField payload ''object'')) (\<lambda>obj.
     run_handler b type obj)))"

definition handleEvent :: "env \<Rightarrow> json \<Rightarrow> unit run" where
  "handleEvent b event =
     bindM (case event_id event of Some eventId \<Rightarrow> sql_read b (isEventProcessed eventId) | None \<Rightarrow> ret False) (\<lambda>seen.
     if seen then ret ()
     else andThen (act_on b event)
       (case event_id event of Some eventId \<Rightarrow> sql_update b (markEventProcessed eventId) | None \<Rightarrow> ret ()))"


subsection \<open>What every handler keeps\<close>

lemmas step_defs = customerEmail_def accessExpiryIso_def resolveTierScope_def restoreAccess_def
  blockBannedCheckout_def resetExistingRecords_def renewRecords_def disableRecords_def resolveLive_def
  retire_after_checkout_def announce_signup_def fulfil_checkout_def checkout_for_def extend_access_def renewal_for_def failed_duplicate_def
  flag_failed_charge_def end_access_def cancel_for_def Let_def

lemmas handler_defs = onCheckoutCompleted_def onInvoicePaid_def onPaymentFailed_def
  onSubscriptionUpdated_def onSubscriptionDeleted_def

lemma append_event_processed [simp]: "processed_events (append_event at email action detail d) = processed_events d"
  by (simp add: append_event_def)

lemma processed_payer: "keeps (same_table f) (payerEmail b obj customerId)"
  unfolding payerEmail_def customerEmail_def by (intro table_intros table_clients)

lemma processed_handlers:
  "keeps (same_table processed_events) (onCheckoutCompleted b obj)"
  "keeps (same_table processed_events) (onInvoicePaid b obj)"
  "keeps (same_table processed_events) (onPaymentFailed b obj)"
  "keeps (same_table processed_events) (onSubscriptionUpdated b obj)"
  "keeps (same_table processed_events) (onSubscriptionDeleted b obj)"
  unfolding handler_defs step_defs
  by (intro table_intros table_clients table_members processed_invites processed_payer table_retire; simp)+

lemma dur_payer: "keeps durably (payerEmail b obj customerId)"
  unfolding payerEmail_def customerEmail_def by (intro dur_intros dur_clients)

lemma dur_handlers:
  "keeps durably (onCheckoutCompleted b obj)"
  "keeps durably (onInvoicePaid b obj)"
  "keeps durably (onPaymentFailed b obj)"
  "keeps durably (onSubscriptionUpdated b obj)"
  "keeps durably (onSubscriptionDeleted b obj)"
  unfolding handler_defs step_defs
  by (intro dur_intros dur_clients dur_members dur_invites dur_payer dur_retire store_step.intros; simp)+

text \<open>The table of handlers, case by case.\<close>

lemma HANDLERS_cases:
  assumes "map_of HANDLERS name = Some handler"
    "P onCheckoutCompleted" "P onInvoicePaid" "P onPaymentFailed" "P onSubscriptionUpdated" "P onSubscriptionDeleted"
  shows "P handler"
  using assms by (auto simp: HANDLERS_def split: if_splits)

lemma run_handler_keeps:
  assumes "\<And>name handler obj. map_of HANDLERS name = Some handler \<Longrightarrow> keeps R (handler b obj)" "frame R"
  shows "keeps R (run_handler b type obj)"
proof (cases type)
  case (JStr name)
  note frame_rules = frame.k_ret [OF assms(2)] frame.k_throw [OF assms(2)]
  show ?thesis
  proof (cases "map_of HANDLERS name")
    case None
    then show ?thesis by (simp add: run_handler_def JStr frame_rules)
  next
    case (Some handler)
    then show ?thesis using assms(1) [OF Some] by (cases obj) (simp_all add: run_handler_def JStr frame_rules)
  qed
qed (simp_all add: run_handler_def frame.k_ret [OF assms(2)])

lemma act_on_keeps:
  assumes "\<And>name handler obj. map_of HANDLERS name = Some handler \<Longrightarrow> keeps R (handler b obj)" "frame R"
  shows "keeps R (act_on b event)"
  unfolding act_on_def
  by (intro frame.k_bindM [OF assms(2)] frame.k_liftE [OF assms(2)] run_handler_keeps assms)

lemma processed_act_on: "keeps (same_table processed_events) (act_on b event)"
  by (rule act_on_keeps, erule HANDLERS_cases) (rule processed_handlers table.frame_axioms)+

lemma dur_act_on: "keeps durably (act_on b event)"
  by (rule act_on_keeps, erule HANDLERS_cases) (rule dur_handlers dur.frame_axioms)+

subsection \<open>Once per event\<close>

text \<open>A delivery whose event was already processed does nothing: it asks for nothing, writes
  nothing, and returns.\<close>

theorem processed_event_is_dropped:
  assumes "event_id event = Some eventId" "isEventProcessed eventId (w_db w)"
  shows "wp (handleEvent b event)
     (\<lambda>_ w'. w' = logged SqlUnit w) (\<lambda>e w'. w' = logged SqlUnit w \<and> sqlite_fault b (w_trace w) = Some e) w"
  using assms by (auto simp: handleEvent_def wp_simps split: option.splits)

theorem processed_event_is_dropped_witness:
  "wp (handleEvent sample_env (JObj [(''id'', JStr ''evt_1'')]))
     (\<lambda>_ w'. w' = logged SqlUnit (world_of (markEventProcessed ''evt_1'' empty_db)))
     (\<lambda>e w'. w' = logged SqlUnit (world_of (markEventProcessed ''evt_1'' empty_db)) \<and>
        sqlite_fault sample_env (w_trace (world_of (markEventProcessed ''evt_1'' empty_db))) = Some e)
     (world_of (markEventProcessed ''evt_1'' empty_db))"
  by (rule processed_event_is_dropped)
    (simp_all add: event_id_def truthyText_def field_def isEventProcessed_def markEventProcessed_def empty_db_def)

text \<open>C12: An event is marked processed exactly when its handling came to an end. A delivery that
  throws at any point, including while marking, leaves the set of processed events as it was, so
  Stripe's retry is handled again; one that returns has its event marked and no other. No delivery
  takes back an issued or mailed invite, a processed mark or a line of a member's history.\<close>

theorem marked_only_after_success:
  "wp (handleEvent b event)
     (\<lambda>_ w'. set (processed_events (w_db w')) =
        set_option (event_id event) \<union> set (processed_events (w_db w)) \<and> durably w w')
     (\<lambda>_ w'. processed_events (w_db w') = processed_events (w_db w) \<and> durably w w') w"
proof -
  have act: "wp (act_on b event)
      (\<lambda>_ t. processed_events (w_db t) = processed_events (w_db u) \<and> durable (w_db u) (w_db t))
      (\<lambda>_ t. processed_events (w_db t) = processed_events (w_db u) \<and> durable (w_db u) (w_db t)) u" for u
    using wp_conj [of "act_on b event" _ _ u] processed_act_on [of b event] dur_act_on [of b event]
    unfolding keeps_wp same_table_def durably_def by blast
  show ?thesis
  proof (cases "event_id event")
    case None
    then show ?thesis using wp_cons [OF act [of w]] by (simp add: handleEvent_def wp_simps durably_def)
  next
    case (Some eventId)
    have mark: "durable d d' \<Longrightarrow> durable d (markEventProcessed eventId d')" for d d'
      by (rule durable_trans [OF _ store_step_durable [OF store_step.processed]])
    have marked: "set (processed_events (markEventProcessed eventId d)) = insert eventId (set (processed_events d))" for d
      by (auto simp: markEventProcessed_def)
    show ?thesis
      using act [of "logged SqlUnit w"] Some
      by (auto simp: handleEvent_def wp_simps durably_def isEventProcessed_def durable_refl
          split: option.splits elim!: wp_cons intro: mark simp: marked)
  qed
qed
end
