(* ===== verification/AccessSafety.thy ===== *)
theory AccessSafety imports Handlers begin

text \<open>
  What the webhook handlers of \<open>Handlers\<close> may do to a member's access: who is never invited,
  extended or disabled, that one session issues one invite, and that nothing is disabled before
  the invite that replaces it has reached the member.
\<close>

subsection \<open>Reads\<close>

text \<open>Some reads were made and nothing was written.\<close>

definition observed :: "world \<Rightarrow> world \<Rightarrow> bool" where
  "observed w w' \<longleftrightarrow> emits reads w w' \<and> w_db w' = w_db w"

lemma observed_refl: "observed w w"
  by (simp add: observed_def emits_def)

lemma observed_trans: "observed u v \<Longrightarrow> observed v w \<Longrightarrow> observed u w"
  by (auto simp: observed_def intro: emits_trans)

lemma observed_logged [simp]: "reads c \<Longrightarrow> observed w (logged c w)"
  by (simp add: observed_def)

lemma wp_observed:
  assumes "keeps (emits reads) m" "keeps (same_table (\<lambda>d. d)) m"
  shows "wp m (\<lambda>_. observed w) (\<lambda>_. observed w) w"
  using wp_conj [of m _ _ w] assms unfolding keeps_wp observed_def same_table_def by blast

lemma observed_resolve: "wp (identitySnapshot b)
    (\<lambda>s w'. observed w w' \<and> snap_links s = allMemberLinks (w_db w)) (\<lambda>_. observed w) w"
proof -
  have "wp (bothM (listUsers b) (listInvitations b)) (\<lambda>_. observed w) (\<lambda>_. observed w) w"
    by (intro wp_observed emits_intros emits_clients table_intros table_clients) simp_all
  then show ?thesis
    unfolding identitySnapshot_def snapshotOver_def storedIdentity_def wp_bindM
    by (rule wp_cons) (auto simp: wp_simps observed_def split: option.splits prod.splits intro!: emits_logged)
qed

text \<open>The person an event is about: found from a fresh snapshot that carries the stored links.\<close>

lemma wp_person:
  assumes "\<And>s code w'. observed w w' \<Longrightarrow> snap_links s = allMemberLinks (w_db w) \<Longrightarrow>
      wp (K s (identityFor s email code)) Q E w'"
    and "\<And>e w'. observed w w' \<Longrightarrow> E e w'"
  shows "wp (bindM (resolveLive b customerId email) (\<lambda>(s, i). K s i)) Q E w"
proof -
  have res: "wp (resolveIdentity b s customerId email)
      (\<lambda>i w'. observed w w' \<and> (\<exists>code. i = identityFor s email code)) (\<lambda>_. observed w) v" if "observed w v" for s v
    using that by (auto simp: resolveIdentity_def wp_simps split: option.splits
        intro: observed_trans [OF _ observed_logged])
  then show ?thesis
    unfolding resolveLive_def wp_bindM wp_ret
    by (intro wp_cons [OF observed_resolve] wp_cons [OF res]) (auto simp: wp_simps intro: assms)
qed

lemma wp_standing:
  assumes "\<And>w'. observed w w' \<Longrightarrow> wp (K (standingOver (allMemberTags (w_db w)) i)) Q E w'"
    and "\<And>e w'. observed w w' \<Longrightarrow> E e w'"
  shows "wp (bindM (standingOf b i) K) Q E w"
  using assms by (auto simp: standingOf_def wp_simps split: option.splits)

lemma wp_person_standing:
  assumes "\<And>s code w'. observed w w' \<Longrightarrow> snap_links s = allMemberLinks (w_db w) \<Longrightarrow>
      wp (K s (identityFor s email code) (standingOver (allMemberTags (w_db w)) (identityFor s email code))) Q E w'"
    and "\<And>e w'. observed w w' \<Longrightarrow> E e w'"
  shows "wp (bindM (resolveLive b customerId email) (\<lambda>(s, i). bindM (standingOf b i) (K s i))) Q E w"
proof (rule wp_person)
  fix s :: identity_snapshot and code w' assume o: "observed w w'" and l: "snap_links s = allMemberLinks (w_db w)"
  show "wp (bindM (standingOf b (identityFor s email code)) (K s (identityFor s email code))) Q E w'"
  proof (rule wp_standing)
    fix w'' assume "observed w' w''"
    moreover have "w_db w' = w_db w" using o by (simp add: observed_def)
    ultimately show "wp (K s (identityFor s email code)
        (standingOver (allMemberTags (w_db w')) (identityFor s email code))) Q E w''"
      using assms(1) [OF observed_trans [OF o] l] by simp
  qed (use assms(2) observed_trans [OF o] in blast)
qed (rule assms(2))

subsection \<open>Who the event is about\<close>

text \<open>The address a handler works out for the payer from the event and the tables alone.\<close>

definition known_payer :: "db \<Rightarrow> json_object \<Rightarrow> string \<Rightarrow> bool" where
  "known_payer d obj email \<longleftrightarrow> (case own_email obj of
     Some e \<Rightarrow> e = email
   | None \<Rightarrow> (case truthyText obj ''customer'' of
       Some c \<Rightarrow> nonempty (Option.bind (getMapping c d) mp_email) = Some email
     | None \<Rightarrow> False))"

lemma own_email_nonempty: "own_email obj = Some e \<Longrightarrow> e \<noteq> []"
  by (auto simp: own_email_def dest: truthyText_nonempty split: option.splits)

lemma known_payer_nonempty: "known_payer d obj email \<Longrightarrow> email \<noteq> []"
  by (auto simp: known_payer_def dest: own_email_nonempty split: option.splits)

lemma wp_payer:
  assumes "known_payer (w_db w) obj email" "truthyText obj ''customer'' = c"
    and "\<And>w'. observed w w' \<Longrightarrow> wp (K (Some email)) Q E w'" "\<And>e w'. observed w w' \<Longrightarrow> E e w'"
  shows "wp (bindM (payerEmail b obj c) K) Q E w"
proof (cases "own_email obj")
  case None
  then obtain i where "c = Some i" "i \<noteq> []" "nonempty (Option.bind (getMapping i (w_db w)) mp_email) = Some email"
    using assms(1,2) by (auto simp: known_payer_def dest: truthyText_nonempty split: option.splits)
  then show ?thesis
    using None assms(3,4) by (auto simp: payerEmail_def wp_simps nonempty_def split: option.splits)
next
  case (Some e)
  then have "payerEmail b obj c = ret (Some email)" using assms(1) by (simp add: payerEmail_def known_payer_def)
  then show ?thesis using assms(3) [OF observed_refl] by (simp add: wp_simps)
qed

text \<open>A payer carries a tag when it was set on the address paid under or on the Plex address an
  admin linked that one to.\<close>

definition tagged :: "db \<Rightarrow> string \<Rightarrow> member_tag \<Rightarrow> bool" where
  "tagged d email t \<longleftrightarrow> (let a = toLowerCase (trim email) in
     a \<noteq> [] \<and> (map_of (allMemberTags d) a = Some t \<or>
       (case map_of (allMemberLinks d) a of
          Some p \<Rightarrow> p \<noteq> [] \<and> map_of (allMemberTags d) p = Some t | None \<Rightarrow> False)))"

lemma addresses_identityFor: "addresses (identityFor s email code) =
    linkedTo (all_links s) (filter (\<lambda>seed. seed \<noteq> []) [text_or_empty (asked_address email),
      case redeemerOf s code of Some r \<Rightarrow> emailOf r | None \<Rightarrow> []])"
  by (simp add: identityFor_def Let_def)

lemma payer_in_addresses:
  assumes "toLowerCase (trim email) \<noteq> []"
  shows "toLowerCase (trim email) \<in> set (addresses (identityFor s (Some email) code))"
    "owner_of (all_links s) (toLowerCase (trim email)) \<in> set (addresses (identityFor s (Some email) code))"
proof -
  have "email \<noteq> []" using assms by auto
  then have "asked_address (Some email) = Some (toLowerCase (trim email))"
    by (cases email) (simp_all add: asked_address_def)
  then show "toLowerCase (trim email) \<in> set (addresses (identityFor s (Some email) code))"
    "owner_of (all_links s) (toLowerCase (trim email)) \<in> set (addresses (identityFor s (Some email) code))"
    unfolding addresses_identityFor using assms by (intro owner_in_addresses [THEN conjunct1] owner_in_addresses [THEN conjunct2]; simp)+
qed

lemma tagged_in_addresses:
  assumes "tagged d email t" "snap_links s = allMemberLinks d"
  shows "\<exists>a\<in>set (addresses (identityFor s (Some email) code)). map_of (allMemberTags d) a = Some t"
proof -
  let ?a = "toLowerCase (trim email)"
  have a: "?a \<noteq> []" using assms(1) by (auto simp: tagged_def Let_def)
  consider "map_of (allMemberTags d) ?a = Some t"
    | p where "map_of (allMemberLinks d) ?a = Some p" "p \<noteq> []" "map_of (allMemberTags d) p = Some t"
    using assms(1) by (auto simp: tagged_def Let_def split: option.splits)
  then show ?thesis
  proof cases
    case 2
    have "distinct_keys (snap_links s)" by (simp add: assms(2) allMemberLinks_def keyed_all_def)
    then have "map_of (all_links s) ?a = Some p" using 2 assms(2) by (simp add: all_links_stated)
    then show ?thesis using payer_in_addresses(2) [OF a, of s code] 2 by (auto simp: owner_of_simps)
  qed (use payer_in_addresses(1) [OF a] in blast)
qed

lemma banned_standing: "tagged d email Banned \<Longrightarrow> snap_links s = allMemberLinks d \<Longrightarrow>
    isBanned (standingOver (allMemberTags d) (identityFor s (Some email) code))"
  unfolding standingOver_def banned_across by (rule tagged_in_addresses)

lemma vip_standing: "tagged d email Vip \<Longrightarrow> snap_links s = allMemberLinks d \<Longrightarrow>
    isBanned (standingOver (allMemberTags d) (identityFor s (Some email) code)) \<or>
    holdsStandingGrant (standingOver (allMemberTags d) (identityFor s (Some email) code))"
  unfolding standingOver_def banned_across vip_across using tagged_in_addresses by (fastforce simp: image_iff)


subsection \<open>Bounded computations\<close>

text \<open>Only requests with property \<open>P\<close> were made, and the part \<open>f\<close> of the tables is as it was.\<close>

definition bounded :: "(call \<Rightarrow> bool) \<Rightarrow> (db \<Rightarrow> 'a) \<Rightarrow> world \<Rightarrow> world \<Rightarrow> bool" where
  "bounded P f w w' \<longleftrightarrow> emits P w w' \<and> f (w_db w') = f (w_db w)"

lemma bounded_trans: "bounded P f u v \<Longrightarrow> bounded P f v w \<Longrightarrow> bounded P f u w"
  by (auto simp: bounded_def intro: emits_trans)

lemma bounded_refl: "bounded P f w w"
  by (simp add: bounded_def emits_def)

lemma observed_bounded: "observed w v \<Longrightarrow> (\<And>c. reads c \<Longrightarrow> P c) \<Longrightarrow> bounded P f w v"
  by (auto simp: observed_def bounded_def intro: emits_mono)

lemma wp_bounded:
  assumes "keeps (emits P) m" "keeps (same_table f) m" "bounded P f w v"
  shows "wp m (\<lambda>_. bounded P f w) (\<lambda>_. bounded P f w) v"
proof -
  have "wp m (\<lambda>_. bounded P f v) (\<lambda>_. bounded P f v) v"
    using wp_conj [of m _ _ v] assms(1,2) unfolding keeps_wp bounded_def same_table_def by blast
  then show ?thesis by (rule wp_cons) (use assms(3) bounded_trans in blast)+
qed

lemma wp_const_observed: "observed w v \<Longrightarrow> (\<And>c. reads c \<Longrightarrow> P c) \<Longrightarrow> bounded P f w v"
  by (rule observed_bounded)

text \<open>Reads and mails that carry no invite.\<close>

definition quiet_call :: "call \<Rightarrow> bool" where
  "quiet_call c \<longleftrightarrow> reads c \<or> (case c of MailCall m \<Rightarrow> mail_html m = None | _ \<Rightarrow> False)"

text \<open>The tables apart from the members' history, and apart from the dunning flags as well.\<close>

definition but_history :: "db \<Rightarrow> db" where
  "but_history d = d\<lparr>event_log := [], event_seq := 0\<rparr>"

definition but_dunning :: "db \<Rightarrow> db" where
  "but_dunning d = (but_history d)\<lparr>customer_map := map (\<lambda>r. r\<lparr>cm_payment_state := None\<rparr>) (customer_map d)\<rparr>"

lemma quiet_reads [simp]: "reads c \<Longrightarrow> quiet_call c"
  by (simp add: quiet_call_def)

lemma quiet_alert [simp]: "quiet_call (MailCall (alert_message b a))" "quiet_call (MailCall (payment_failed_message t u))"
  by (simp_all add: quiet_call_def alert_message_def payment_failed_message_def)

lemma but_history_event [simp]: "but_history (append_event at email action detail d) = but_history d"
  by (simp add: but_history_def append_event_def)

lemma but_dunning_event [simp]: "but_dunning (append_event at email action detail d) = but_dunning d"
  by (simp add: but_dunning_def but_history_def append_event_def)

lemma but_dunning_state [simp]: "but_dunning (setPaymentState email state d) = but_dunning d"
  by (simp add: but_dunning_def but_history_def setPaymentState_def update_customers_def)

lemma overrides_kept [simp]:
  "allMemberTags (setPaymentState email state d) = allMemberTags d"
  "allMemberLinks (setPaymentState email state d) = allMemberLinks d"
  "allMemberTags (setSubscribed email on d) = allMemberTags d"
  "allMemberLinks (setSubscribed email on d) = allMemberLinks d"
  by (simp_all add: setPaymentState_def setSubscribed_def update_customers_def allMemberTags_def
      allMemberLinks_def)

lemma tagged_kept [simp]:
  "tagged (setPaymentState email state d) address t = tagged d address t"
  "tagged (setSubscribed email on d) address t = tagged d address t"
  by (simp_all only: tagged_def overrides_kept)

lemma observed_quiet: "observed w v \<Longrightarrow> bounded quiet_call f w v"
  by (rule observed_bounded) simp_all

lemma checkout_payer:
  assumes "known_payer d obj email"
  shows "payerEmail b obj None = ret (Some email) \<or> payerEmail b obj None = ret None"
  using assms by (auto simp: payerEmail_def known_payer_def split: option.splits)

lemma nonempty_payer: "known_payer d obj email \<Longrightarrow> nonempty (Some email) = Some email"
  using known_payer_nonempty by simp

text \<open>The course of a paid invoice: the dunning flag is cleared, then the renewal runs.\<close>

lemma wp_invoice_paid:
  assumes "known_payer (w_db w) obj email"
    and "\<And>e v. observed w v \<Longrightarrow> E e v"
    and "\<And>u. observed w u \<Longrightarrow> Q () (logged SqlUnit (u\<lparr>w_db := setPaymentState email None (w_db w)\<rparr>))"
    and "\<And>c u. truthyText obj ''customer'' = Some c \<Longrightarrow> observed w u \<Longrightarrow>
      wp (renewal_for b obj c email) Q E (logged SqlUnit (u\<lparr>w_db := setPaymentState email None (w_db w)\<rparr>))"
  shows "wp (onInvoicePaid b obj) Q E w"
proof (cases "requiredText obj ''customer''")
  case (Inl e)
  then show ?thesis using assms(2) [OF observed_refl] by (simp add: onInvoicePaid_def wp_simps)
next
  case (Inr c)
  then have c: "truthyText obj ''customer'' = Some c" by (simp add: requiredText_def split: option.splits)
  have same: "observed w v \<Longrightarrow> w_db v = w_db w" "observed w v \<Longrightarrow> observed w (logged SqlUnit v)" for v
    by (auto simp: observed_def intro: emits_logged)
  show ?thesis
    unfolding onInvoicePaid_def Inr liftE_simps bindM_ret
    using nonempty_payer [OF assms(1)]
    by (intro wp_payer [OF assms(1) c])
      (auto simp: wp_simps same split: option.splits intro!: assms(2,3) assms(4) [OF c] same(2))
qed

subsection \<open>A ban\<close>

lemma bounded_extend: "bounded P f w v \<Longrightarrow> observed v v' \<Longrightarrow> (\<And>c. reads c \<Longrightarrow> P c) \<Longrightarrow> bounded P f w v'"
  by (rule bounded_trans) (auto intro: observed_bounded)

lemma banned_checkout:
  assumes "tagged (w_db w) email Banned"
  shows "wp (checkout_for b obj c sid email)
    (\<lambda>_. bounded quiet_call but_history w) (\<lambda>_. bounded quiet_call but_history w) w"
  unfolding checkout_for_def
proof (rule wp_person_standing)
  fix s :: identity_snapshot and code v
  assume "observed w v" and l: "snap_links s = allMemberLinks (w_db w)"
  then have v: "bounded quiet_call but_history w v" by (simp add: observed_quiet)
  show "wp (fulfil_checkout b obj c sid email s (standingOver (allMemberTags (w_db w)) (identityFor s (Some email) code)))
      (\<lambda>_. bounded quiet_call but_history w) (\<lambda>_. bounded quiet_call but_history w) v"
    unfolding fulfil_checkout_def Let_def blockBannedCheckout_def
    using banned_standing [OF assms l, of code]
    by (auto intro!: wp_bounded [OF _ _ v] emits_intros emits_clients table_intros table_clients)
qed (simp add: observed_quiet)

lemma banned_renewal:
  assumes "tagged (w_db v) email Banned"
  shows "wp (renewal_for b obj c email)
    (\<lambda>_. bounded quiet_call but_history v) (\<lambda>_. bounded quiet_call but_history v) v"
  unfolding renewal_for_def
proof (rule wp_person_standing)
  fix s :: identity_snapshot and code v'
  assume "observed v v'" and l: "snap_links s = allMemberLinks (w_db v)"
  then have v': "bounded quiet_call but_history v v'" by (simp add: observed_quiet)
  show "wp (extend_access b obj c email (identityFor s (Some email) code)
      (standingOver (allMemberTags (w_db v)) (identityFor s (Some email) code)))
      (\<lambda>_. bounded quiet_call but_history v) (\<lambda>_. bounded quiet_call but_history v) v'"
    unfolding extend_access_def using banned_standing [OF assms l, of code]
    by (auto intro!: wp_bounded [OF _ _ v'] emits_intros table_intros)
qed (simp add: observed_quiet)

text \<open>The tables with the dunning flag cleared on the customer rows of one address, and nothing else done.\<close>

definition dunning_cleared :: "string \<Rightarrow> db \<Rightarrow> db" where
  "dunning_cleared email d = d\<lparr>customer_map :=
     map (\<lambda>r. if map_option toLowerCase (cm_email r) = Some (toLowerCase email) then r\<lparr>cm_payment_state := None\<rparr> else r)
       (customer_map d)\<rparr>"

lemma clearing_is_cleared: "setPaymentState email None d = dunning_cleared email d"
  by (simp add: setPaymentState_def update_customers_def dunning_cleared_def for_email_def state_text_def)

text \<open>Quiet requests only, and the tables, apart from the members' history, are now the given ones.\<close>

definition quietly_now :: "db \<Rightarrow> world \<Rightarrow> world \<Rightarrow> bool" where
  "quietly_now d w w' \<longleftrightarrow> emits quiet_call w w' \<and> but_history (w_db w') = but_history d"

text \<open>C8: A ban on the payer, under the address paid with or under the Plex address an admin linked
  it to, outranks every payment. Whatever the outside services answer, a checkout of theirs mints
  and mails no invite, extends or disables no record, cancels nothing at Stripe and leaves every
  table but the history as it was. A paid invoice of theirs asks for no more; one that is handled to the end
  has cleared the dunning flag on the customer rows of the address paid with, and but for the history changed
  nothing else in the tables, and one that throws has done that or nothing.\<close>

theorem banned_payer_gains_nothing:
  assumes "known_payer (w_db w) obj email" "tagged (w_db w) email Banned"
  shows "wp (onCheckoutCompleted b obj)
      (\<lambda>_. bounded quiet_call but_history w) (\<lambda>_. bounded quiet_call but_history w) w \<and>
    wp (onInvoicePaid b obj)
      (\<lambda>_. quietly_now (dunning_cleared email (w_db w)) w)
      (\<lambda>_ v. quietly_now (w_db w) w v \<or> quietly_now (dunning_cleared email (w_db w)) w v) w"
proof
  show "wp (onCheckoutCompleted b obj)
      (\<lambda>_. bounded quiet_call but_history w) (\<lambda>_. bounded quiet_call but_history w) w"
    using checkout_payer [OF assms(1), of b] nonempty_payer [OF assms(1)] banned_checkout [OF assms(2)]
    by (auto simp: onCheckoutCompleted_def wp_simps bounded_refl)
  let ?Q = "quietly_now (dunning_cleared email (w_db w)) w"
  show "wp (onInvoicePaid b obj) (\<lambda>_. ?Q) (\<lambda>_ v. quietly_now (w_db w) w v \<or> ?Q v) w"
  proof (rule wp_invoice_paid [OF assms(1)])
    fix u assume o: "observed w u"
    let ?v = "logged SqlUnit (u\<lparr>w_db := setPaymentState email None (w_db w)\<rparr>)"
    have v: "?Q ?v" using observed_quiet [OF o, of but_history]
      by (auto simp: quietly_now_def clearing_is_cleared bounded_def emits_def logged_def)
    then show "?Q ?v" .
    have later: "bounded quiet_call but_history ?v t \<Longrightarrow> ?Q t" for t
      using v by (auto simp: quietly_now_def bounded_def intro: emits_trans)
    show "wp (renewal_for b obj c email) (\<lambda>_. ?Q) (\<lambda>_ v. quietly_now (w_db w) w v \<or> ?Q v) ?v" for c
      by (rule wp_cons [OF banned_renewal]) (use assms(2) later in \<open>auto simp: logged_def\<close>)
  next
    show "observed w v \<Longrightarrow> quietly_now (w_db w) w v \<or> ?Q v" for v
      using observed_quiet [of w v but_history] by (simp add: quietly_now_def bounded_def)
  qed
qed

text \<open>A banned member whose charge had failed, and who then pays the invoice.\<close>

definition banned_debtor :: db where
  "banned_debtor = setMemberTag ''a@X'' (Some Banned) (setPaymentState ''A@x'' (Some PastDue)
     (upsertPending ''cus_1'' ''A@x'' ''k1'' None ''2026-01-01'' empty_db))"

theorem banned_payer_gains_nothing_witness:
  "wp (onCheckoutCompleted sample_env [(''customer'', JStr ''cus_1''), (''customer_email'', JStr ''A@x'')])
      (\<lambda>_. bounded quiet_call but_history (world_of banned_debtor))
      (\<lambda>_. bounded quiet_call but_history (world_of banned_debtor)) (world_of banned_debtor) \<and>
    wp (onInvoicePaid sample_env [(''customer'', JStr ''cus_1''), (''customer_email'', JStr ''A@x'')])
      (\<lambda>_. quietly_now (dunning_cleared ''A@x'' banned_debtor) (world_of banned_debtor))
      (\<lambda>_ v. quietly_now banned_debtor (world_of banned_debtor) v \<or>
         quietly_now (dunning_cleared ''A@x'' banned_debtor) (world_of banned_debtor) v) (world_of banned_debtor) \<and>
    dunning_cleared ''A@x'' banned_debtor \<noteq> banned_debtor"
proof -
  have "known_payer banned_debtor [(''customer'', JStr ''cus_1''), (''customer_email'', JStr ''A@x'')] ''A@x''" "tagged banned_debtor ''A@x'' Banned"
    "dunning_cleared ''A@x'' banned_debtor \<noteq> banned_debtor" by code_simp+
  then show ?thesis
    using banned_payer_gains_nothing [of "world_of banned_debtor" "[(''customer'', JStr ''cus_1''), (''customer_email'', JStr ''A@x'')]" "''A@x''" sample_env]
    by simp
qed

subsection \<open>A standing grant\<close>

text \<open>No record is disabled and no expiry is set.\<close>

definition leaves_records :: "call \<Rightarrow> bool" where
  "leaves_records c \<longleftrightarrow> \<not> disable_call c \<and> \<not> expiry_call c"

lemma leaves_records_simps [simp]:
  "reads c \<Longrightarrow> leaves_records c" "leaves_records (MailCall m)" "leaves_records (StripeCall req)"
  "leaves_records ClockRead" "leaves_records SqlUnit" "leaves_records (WizarrCall (PostInvitation p))"
  using reads_not [of c] by (auto simp: leaves_records_def)

lemma leaves_records_retire: "retirement_call b p c \<Longrightarrow> leaves_records c"
proof -
  have "wizarr_read req \<Longrightarrow> leaves_records (WizarrCall req)" for req by (cases req) (simp_all add: leaves_records_def)
  then show "retirement_call b p c \<Longrightarrow> ?thesis" by (cases c) simp_all
qed

lemma wp_emits_from: "keeps (emits P) m \<Longrightarrow> emits P w v \<Longrightarrow> wp m (\<lambda>_. emits P w) (\<lambda>_. emits P w) v"
  by (rule wp_cons [OF wp_emits]) (auto intro: emits_trans)

lemma emits_retire_leaves: "keeps (emits leaves_records) (retireDuplicates b email p)"
  using emits_retire by (rule keeps_mono) (auto elim!: emits_mono dest: leaves_records_retire)

lemma observed_emits: "observed w v \<Longrightarrow> (\<And>c. reads c \<Longrightarrow> P c) \<Longrightarrow> emits P w v"
  by (auto simp: observed_def intro: emits_mono)

text \<open>The course of a cancellation for a known payer.\<close>

lemma wp_subscription_deleted:
  assumes "known_payer (w_db w) obj email"
    and "\<And>e v. observed w v \<Longrightarrow> E e v"
    and "\<And>c u. truthyText obj ''customer'' = Some c \<Longrightarrow> observed w u \<Longrightarrow> wp (cancel_for b c email) Q E u"
  shows "wp (onSubscriptionDeleted b obj) Q E w"
proof (cases "requiredText obj ''customer''")
  case (Inl e)
  then show ?thesis using assms(2) [OF observed_refl] by (simp add: onSubscriptionDeleted_def wp_simps)
next
  case (Inr c)
  then have c: "truthyText obj ''customer'' = Some c" by (simp add: requiredText_def split: option.splits)
  show ?thesis
    unfolding onSubscriptionDeleted_def Inr liftE_simps bindM_ret
    using nonempty_payer [OF assms(1)]
    by (intro wp_payer [OF assms(1) c]) (auto intro!: assms(2) assms(3) [OF c])
qed

text \<open>Another customer of the address that Stripe says is still paying, whenever it answers.\<close>

definition live_sibling :: "env \<Rightarrow> db \<Rightarrow> string \<Rightarrow> string \<Rightarrow> string \<Rightarrow> bool" where
  "live_sibling b d email dead c \<longleftrightarrow> c \<in> set (customerIdsForEmail email d) \<and> c \<noteq> dead \<and>
     (\<forall>h. case subscriptions_answer b h (ListSubscriptions None) of
        Inr subs \<Rightarrow> list_ex (\<lambda>s. sub_customer (toSubscription s) = c \<and> isLiveStatus (sdk_status s)) subs
      | Inl _ \<Rightarrow> True)"

lemma wp_liveSiblingCustomer: "wp (liveSiblingCustomer b email dead) Q E w =
    (case sqlite_fault b (w_trace w) of
       Some e \<Rightarrow> E e (logged SqlUnit w)
     | None \<Rightarrow> (let sib = filter (\<lambda>customer. customer \<noteq> dead) (customerIdsForEmail email (w_db w)) in
         if sib = [] then Q None (logged SqlUnit w)
         else (case subscriptions_answer b (w_trace w @ [SqlUnit]) (ListSubscriptions None) of
             Inl e \<Rightarrow> E e (logged (StripeCall (ListSubscriptions None)) (logged SqlUnit w))
           | Inr subs \<Rightarrow> Q (List.find (\<lambda>c. isLiveStatus (option_text []
                (map_of (stripeStatusByCustomer (map toSubscription subs)) c))) sib)
               (logged (StripeCall (ListSubscriptions None)) (logged SqlUnit w)))))"
  by (simp add: liveSiblingCustomer_def statusByCustomer_def allSubscriptions_def allPages_def wp_simps Let_def
      split: option.splits sum.splits)

lemma wp_sibling: "wp (liveSiblingCustomer b email dead)
    (\<lambda>sib v. observed w v \<and> (sib = None \<longrightarrow> (\<forall>c. \<not> live_sibling b (w_db w) email dead c)) \<and>
       (\<forall>c. sib = Some c \<longrightarrow> c \<in> set (customerIdsForEmail email (w_db w)) \<and> c \<noteq> dead))
    (\<lambda>_. observed w) w"
proof -
  have pick: "\<exists>c'. List.find (\<lambda>c. isLiveStatus (option_text '''' (map_of (stripeStatusByCustomer (map toSubscription subs)) c))) cs = Some c'"
    if "c \<in> set cs" "list_ex (\<lambda>s. sub_customer (toSubscription s) = c \<and> isLiveStatus (sdk_status s)) subs" for c cs subs
  proof -
    have "isLiveStatus (option_text '''' (map_of (stripeStatusByCustomer (map toSubscription subs)) c))"
      using that(2) unfolding live_in_status_table by (auto simp: list_ex_iff toSubscription_def)
    then show ?thesis using that(1) by (metis find_None not_Some_eq)
  qed
  let ?ids = "customerIdsForEmail email (w_db w)"
  let ?sib = "filter (\<lambda>customer. customer \<noteq> dead) ?ids"
  let ?found = "\<lambda>subs. List.find (\<lambda>c. isLiveStatus (option_text [] (map_of (stripeStatusByCustomer (map toSubscription subs)) c))) ?sib"
  have none: "\<not> live_sibling b (w_db w) email dead c" if "?sib = []" for c
    using that by (auto simp: live_sibling_def filter_empty_conv)
  have missed: "\<not> live_sibling b (w_db w) email dead c"
    if "subscriptions_answer b h (ListSubscriptions None) = Inr subs" "?found subs = None" for c h subs
  proof
    assume live: "live_sibling b (w_db w) email dead c"
    then have "c \<in> set ?sib" by (simp add: live_sibling_def)
    moreover have "list_ex (\<lambda>s. sub_customer (toSubscription s) = c \<and> isLiveStatus (sdk_status s)) subs"
      using live that(1) unfolding live_sibling_def by (auto dest: spec [of _ h])
    ultimately show False using pick that(2) by fastforce
  qed
  have some: "c \<in> set ?ids \<and> c \<noteq> dead" if "?found subs = Some c" for c subs
    using find_in_set [OF that] by simp
  have o: "observed w (logged SqlUnit w)" "observed w (logged (StripeCall (ListSubscriptions None)) (logged SqlUnit w))"
    by (auto intro: observed_trans [OF observed_logged observed_logged])
  show ?thesis
  proof (cases "sqlite_fault b (w_trace w)")
    case (Some e)
    then show ?thesis using o by (simp add: liveSiblingCustomer_def wp_simps)
  next
    case fault: None
    show ?thesis
    proof (cases "?sib = []")
      case True
      then show ?thesis using fault o none by (simp add: liveSiblingCustomer_def wp_simps Let_def)
    next
      case False
      show ?thesis
      proof (cases "subscriptions_answer b (w_trace w @ [SqlUnit]) (ListSubscriptions None)")
        case (Inl e)
        then show ?thesis
          unfolding wp_liveSiblingCustomer Let_def fault option.case if_not_P [OF False] by (simp only: sum.case o)
      next
        case (Inr subs)
        have "?found subs = None \<longrightarrow> (\<forall>c. \<not> live_sibling b (w_db w) email dead c)"
          "\<forall>c. ?found subs = Some c \<longrightarrow> c \<in> set ?ids \<and> c \<noteq> dead"
          using missed [OF Inr] some by blast+
        then show ?thesis
          unfolding wp_liveSiblingCustomer Let_def fault Inr option.case sum.case if_not_P [OF False]
          using o(2) by (intro conjI)
      qed
    qed
  qed
qed


lemma wp_cancel:
  assumes "\<And>e v. emits reads w v \<Longrightarrow> E e v"
    and "\<And>sib s code v. emits reads w v \<Longrightarrow>
      w_db v = (case nonempty sib of Some _ \<Rightarrow> setPaymentState email None (w_db w)
        | None \<Rightarrow> setSubscribed email False (w_db w)) \<Longrightarrow>
      snap_links s = allMemberLinks (w_db w) \<Longrightarrow>
      sib = None \<longrightarrow> (\<forall>c. \<not> live_sibling b (w_db w) email dead c) \<Longrightarrow>
      \<forall>c. sib = Some c \<longrightarrow> c \<in> set (customerIdsForEmail email (w_db w)) \<and> c \<noteq> dead \<Longrightarrow>
      wp (end_access b email sib (identityFor s (Some email) code)
        (standingOver (allMemberTags (w_db w)) (identityFor s (Some email) code))) Q E v"
  shows "wp (cancel_for b dead email) Q E w"
proof -
  have after: "wp (bindM (resolveLive b (Some dead) (Some email)) (\<lambda>(_, ident).
      bindM (standingOf b ident) (end_access b email sib ident))) Q E v"
    if v: "emits reads w v" "w_db v = (case nonempty sib of Some _ \<Rightarrow> setPaymentState email None (w_db w)
        | None \<Rightarrow> setSubscribed email False (w_db w))"
      and sib: "sib = None \<longrightarrow> (\<forall>c. \<not> live_sibling b (w_db w) email dead c)"
        "\<forall>c. sib = Some c \<longrightarrow> c \<in> set (customerIdsForEmail email (w_db w)) \<and> c \<noteq> dead" for sib v
  proof -
    have same: "allMemberTags (w_db v) = allMemberTags (w_db w)" "allMemberLinks (w_db v) = allMemberLinks (w_db w)"
      using v(2) by (simp_all split: option.splits)
    show ?thesis
    proof (rule wp_person_standing)
      fix s :: identity_snapshot and code v' assume "observed v v'" "snap_links s = allMemberLinks (w_db v)"
      then show "wp (end_access b email sib (identityFor s (Some email) code)
          (standingOver (allMemberTags (w_db v)) (identityFor s (Some email) code))) Q E v'"
        unfolding same using v sib by (intro assms(2)) (auto simp: observed_def intro: emits_trans)
    next
      show "observed v v' \<Longrightarrow> E e v'" for e v'
        using v(1) by (auto intro!: assms(1) simp: observed_def intro: emits_trans)
    qed
  qed
  have "wp (andThen (case nonempty sib of Some _ \<Rightarrow> sql_update b (setPaymentState email None)
        | None \<Rightarrow> sql_update b (setSubscribed email False))
      (bindM (resolveLive b (Some dead) (Some email)) (\<lambda>(_, ident).
        bindM (standingOf b ident) (end_access b email sib ident)))) Q E u"
    if "observed w u" "sib = None \<longrightarrow> (\<forall>c. \<not> live_sibling b (w_db w) email dead c)"
      "\<forall>c. sib = Some c \<longrightarrow> c \<in> set (customerIdsForEmail email (w_db w)) \<and> c \<noteq> dead" for sib u
  proof -
    have u: "emits reads w (logged SqlUnit u)" "w_db u = w_db w"
      "emits reads w (logged SqlUnit (u\<lparr>w_db := d\<rparr>))" for d
      using that(1) by (auto simp: observed_def intro: emits_logged) (auto simp: emits_def logged_def)
    show ?thesis
      using u that(2,3)
      by (cases "nonempty sib")
        (auto simp: wp_simps split: option.splits intro!: assms(1) after [unfolded wp_bindM] simp del: nonempty_Some)
  qed
  then show ?thesis
    unfolding cancel_for_def wp_bindM [of "liveSiblingCustomer b email dead"]
    by (intro wp_cons [OF wp_sibling]) (auto intro!: assms(1) simp: observed_def)
qed


lemma leaves_recordEvent: "emits leaves_records w v \<Longrightarrow>
    wp (recordEvent b email action detail) (\<lambda>_. emits leaves_records w) (\<lambda>_. emits leaves_records w) v"
  by (intro wp_emits_from emits_intros) simp_all

lemma leaves_reads: "emits reads w v \<Longrightarrow> emits leaves_records w v"
  by (erule emits_mono) simp

text \<open>The part of a checkout that follows the standing check, for a payer who is not banned.\<close>

lemma emits_issue_and_deliver:
  "keeps (emits leaves_records) (issueInvite b email tier scope c dl operation settles)"
  "keeps (emits leaves_records) (deliverInvite b email invite)"
  "keeps (emits leaves_records) (liveScope b tier ctx)"
  "keeps (emits leaves_records) (announce_signup b email tier obj sid c url)"
  "keeps (emits leaves_records) (retire_after_checkout b email c)"
  unfolding announce_signup_def retire_after_checkout_def
  by (intro emits_intros emits_clients emits_issueInvite emits_deliverInvite emits_scope emits_retire_leaves; simp)+

lemma vip_checkout:
  assumes "tagged (w_db w) email Vip"
  shows "wp (checkout_for b obj c sid email) (\<lambda>_. emits leaves_records w) (\<lambda>_. emits leaves_records w) w"
  unfolding checkout_for_def
proof (rule wp_person_standing)
  fix s :: identity_snapshot and code v
  assume "observed w v" and l: "snap_links s = allMemberLinks (w_db w)"
  then have v: "emits leaves_records w v" by (simp add: observed_emits)
  show "wp (fulfil_checkout b obj c sid email s (standingOver (allMemberTags (w_db w)) (identityFor s (Some email) code)))
      (\<lambda>_. emits leaves_records w) (\<lambda>_. emits leaves_records w) v"
    unfolding fulfil_checkout_def Let_def blockBannedCheckout_def resolveTierScope_def
    using vip_standing [OF assms l, of code]
    by (auto intro!: wp_emits_from [OF _ v] emits_intros emits_clients emits_issue_and_deliver)
qed (simp add: observed_emits)

lemma vip_renewal:
  assumes "tagged (w_db v) email Vip" "emits leaves_records w v"
  shows "wp (renewal_for b obj c email) (\<lambda>_. emits leaves_records w) (\<lambda>_. emits leaves_records w) v"
  unfolding renewal_for_def
proof (rule wp_person_standing)
  fix s :: identity_snapshot and code v'
  assume "observed v v'" and l: "snap_links s = allMemberLinks (w_db v)"
  then have v': "emits leaves_records w v'" by (intro emits_trans [OF assms(2)]) (simp add: observed_emits)
  show "wp (extend_access b obj c email (identityFor s (Some email) code)
      (standingOver (allMemberTags (w_db v)) (identityFor s (Some email) code)))
      (\<lambda>_. emits leaves_records w) (\<lambda>_. emits leaves_records w) v'"
    unfolding extend_access_def using vip_standing [OF assms(1) l, of code]
    by (auto intro!: wp_emits_from [OF _ v'] emits_intros)
qed (intro emits_trans [OF assms(2)], simp add: observed_emits)

lemma vip_cancel:
  assumes "tagged (w_db w) email Vip" "Banned \<notin> snd ` set (allMemberTags (w_db w))"
  shows "wp (cancel_for b c email) (\<lambda>_. emits leaves_records w) (\<lambda>_. emits leaves_records w) w"
proof (rule wp_cancel)
  fix sib code v and s :: identity_snapshot
  assume v: "emits reads w v" and l: "snap_links s = allMemberLinks (w_db w)"
  have "holdsStandingGrant (standingOver (allMemberTags (w_db w)) (identityFor s (Some email) code))"
    using vip_standing [OF assms(1) l, of code] assms(2)
    by (auto simp: standingOver_def banned_across image_iff dest!: map_of_SomeD)
  then show "wp (end_access b email sib (identityFor s (Some email) code)
      (standingOver (allMemberTags (w_db w)) (identityFor s (Some email) code)))
      (\<lambda>_. emits leaves_records w) (\<lambda>_. emits leaves_records w) v"
    using leaves_recordEvent [OF leaves_reads [OF v]] by (simp add: end_access_def)
qed (rule leaves_reads)

text \<open>C10: What a VIP holds is not a subscription's to change. When the payer is tagged vip, under the
  address paid with or the Plex address an admin linked it to, neither a checkout nor a paid invoice
  of theirs disables a record or touches an expiry, whatever the outside services answer; nor does
  a cancellation while nobody is banned.\<close>

theorem vip_access_is_left_alone:
  assumes "known_payer (w_db w) obj email" "tagged (w_db w) email Vip"
  shows "wp (onCheckoutCompleted b obj) (\<lambda>_. emits leaves_records w) (\<lambda>_. emits leaves_records w) w \<and>
    wp (onInvoicePaid b obj) (\<lambda>_. emits leaves_records w) (\<lambda>_. emits leaves_records w) w \<and>
    (Banned \<notin> snd ` set (allMemberTags (w_db w)) \<longrightarrow>
      wp (onSubscriptionDeleted b obj) (\<lambda>_. emits leaves_records w) (\<lambda>_. emits leaves_records w) w)"
proof (intro conjI impI)
  let ?Q = "emits leaves_records w"
  show "wp (onCheckoutCompleted b obj) (\<lambda>_. ?Q) (\<lambda>_. ?Q) w"
    using checkout_payer [OF assms(1), of b] nonempty_payer [OF assms(1)] vip_checkout [OF assms(2)]
    by (auto simp: onCheckoutCompleted_def wp_simps emits_def)
  show "wp (onInvoicePaid b obj) (\<lambda>_. ?Q) (\<lambda>_. ?Q) w"
  proof (rule wp_invoice_paid [OF assms(1)])
    fix u c assume o: "observed w u"
    let ?v = "logged SqlUnit (u\<lparr>w_db := setPaymentState email None (w_db w)\<rparr>)"
    have "?Q ?v" using observed_emits [OF o, of leaves_records] by (auto simp: emits_def logged_def)
    then show "?Q ?v" "wp (renewal_for b obj c email) (\<lambda>_. ?Q) (\<lambda>_. ?Q) ?v"
      using assms(2) by (auto intro: vip_renewal)
  qed (simp add: observed_emits)
  assume "Banned \<notin> snd ` set (allMemberTags (w_db w))"
  then show "wp (onSubscriptionDeleted b obj) (\<lambda>_. ?Q) (\<lambda>_. ?Q) w"
    using assms(2)
    by (intro wp_subscription_deleted [OF assms(1)] wp_cons [OF vip_cancel])
      (auto simp: observed_def intro: leaves_reads emits_trans)
qed


theorem vip_access_is_left_alone_witness:
  "Banned \<notin> snd ` set (allMemberTags (setMemberTag ''a@X'' (Some Vip) empty_db)) \<and>
    wp (onCheckoutCompleted sample_env [(''customer_email'', JStr ''A@x'')])
      (\<lambda>_. emits leaves_records (world_of (setMemberTag ''a@X'' (Some Vip) empty_db)))
      (\<lambda>_. emits leaves_records (world_of (setMemberTag ''a@X'' (Some Vip) empty_db)))
      (world_of (setMemberTag ''a@X'' (Some Vip) empty_db))"
  by (intro conjI vip_access_is_left_alone [where email = "''A@x''", THEN conjunct1]; code_simp)

subsection \<open>Somebody still pays\<close>

lemma filter_map_elsewhere:
  assumes "\<And>r. P (f r) = P r" "\<And>r. P r \<Longrightarrow> \<not> Q r"
  shows "filter P (map (\<lambda>r. if Q r then f r else r) xs) = filter P xs"
  using assms by (induction xs) auto

lemma rows_elsewhere:
  assumes "p \<noteq> toLowerCase email" "\<And>r. cm_email (f r) = cm_email r"
  shows "map_of (allCustomerRows (update_customers email f d)) p = map_of (allCustomerRows d) p"
proof -
  let ?P = "\<lambda>r. cm_email r \<noteq> None \<and> toLowerCase (text_or_empty (cm_email r)) = p"
  have "filter ?P (customer_map (update_customers email f d)) = filter ?P (customer_map d)"
    unfolding update_customers_def using assms
    by (simp, intro filter_map_elsewhere) (auto simp: for_email_def)
  then show ?thesis
    unfolding allCustomerRows_def map_of_js_map map_of_rev_map CUSTOMER_ORDER_def filter_sort
      CUSTOMER_SELECT_def filter_filter by simp
qed

text \<open>An admin linked the payer to another address, which is subscribed as well.\<close>

definition linked_payer :: "db \<Rightarrow> string \<Rightarrow> bool" where
  "linked_payer d email \<longleftrightarrow> (case map_of (allMemberLinks d) (toLowerCase (trim email)) of
     Some p \<Rightarrow> p \<noteq> [] \<and> toLowerCase (trim email) \<noteq> [] \<and> p \<noteq> toLowerCase email \<and>
       (case map_of (allCustomerRows d) p of Some r \<Rightarrow> row_subscribed r | None \<Rightarrow> False)
   | None \<Rightarrow> False)"

lemma linked_payer_found:
  assumes "linked_payer d email" "snap_links s = allMemberLinks d" "map_of (allCustomerRows d) [] = None"
  shows "\<exists>p. nonempty (paying_address (allCustomerRows d) email (identityFor s (Some email) code)) = Some p"
proof -
  let ?a = "toLowerCase (trim email)" and ?i = "identityFor s (Some email) code"
  obtain p r where p: "map_of (allMemberLinks d) ?a = Some p" "p \<noteq> []" "?a \<noteq> []" "p \<noteq> toLowerCase email"
    "map_of (allCustomerRows d) p = Some r" "row_subscribed r"
    using assms(1) by (auto simp: linked_payer_def split: option.splits)
  have "distinct_keys (snap_links s)" by (simp add: assms(2) allMemberLinks_def keyed_all_def)
  then have "map_of (all_links s) ?a = Some p" using p assms(2) by (simp add: all_links_stated)
  then have "p \<in> set (addresses ?i)"
    using payer_in_addresses(2) [of email s code] p(3) by (simp add: owner_of_simps)
  then have "paying_address (allCustomerRows d) email ?i \<noteq> None"
    using p(4-) by (auto simp: paying_address_def Let_def find_None)
  then obtain q where q: "paying_address (allCustomerRows d) email ?i = Some q" by auto
  then have "q \<noteq> []"
    using assms(3) by (auto simp: paying_address_def Let_def dest!: find_in_set)
  then show ?thesis using q by simp
qed

lemma nonempty_again: "nonempty v = Some s \<Longrightarrow> nonempty (Some s) = Some s"
  by (auto simp: nonempty_def split: option.splits if_splits)

lemma cancel_while_paid:
  assumes "(\<exists>c. live_sibling b (w_db w) email dead c) \<or> linked_payer (w_db w) email"
    "[] \<notin> set (customerIdsForEmail email (w_db w))" "map_of (allCustomerRows (w_db w)) [] = None" "email \<noteq> []"
  shows "wp (cancel_for b dead email) (\<lambda>_. emits leaves_records w) (\<lambda>_. emits leaves_records w) w"
proof (rule wp_cancel)
  fix sib code v and s :: identity_snapshot
  assume v: "emits reads w v"
    and d: "w_db v = (case nonempty sib of Some _ \<Rightarrow> setPaymentState email None (w_db w)
        | None \<Rightarrow> setSubscribed email False (w_db w))"
    and l: "snap_links s = allMemberLinks (w_db w)"
    and none: "sib = None \<longrightarrow> (\<forall>c. \<not> live_sibling b (w_db w) email dead c)"
    and some: "\<forall>c. sib = Some c \<longrightarrow> c \<in> set (customerIdsForEmail email (w_db w)) \<and> c \<noteq> dead"
  let ?i = "identityFor s (Some email) code"
  have still: "\<exists>p. nonempty (paying_address (allCustomerRows (w_db v)) email ?i) = Some p" if "nonempty sib = None"
  proof -
    have "sib = None" using that some assms(2) by (cases sib) (auto simp: nonempty_def split: if_splits)
    then have lp: "linked_payer (w_db w) email" using none assms(1) by auto
    have dv: "w_db v = setSubscribed email False (w_db w)" using d that by simp
    have rows: "map_of (allCustomerRows (w_db v)) q = map_of (allCustomerRows (w_db w)) q" if "q \<noteq> toLowerCase email" for q
      using that unfolding dv setSubscribed_def by (rule rows_elsewhere) simp
    have "linked_payer (w_db v) email"
      using lp rows dv by (auto simp: linked_payer_def split: option.splits)
    moreover have "map_of (allCustomerRows (w_db v)) [] = None"
      using rows [of "[]"] assms(3,4) toLowerCase_Nil(1) [of email] by metis
    moreover have "snap_links s = allMemberLinks (w_db v)" using l dv by simp
    ultimately show ?thesis by (intro linked_payer_found)
  qed
  show "wp (end_access b email sib ?i (standingOver (allMemberTags (w_db w)) ?i))
      (\<lambda>_. emits leaves_records w) (\<lambda>_. emits leaves_records w) v"
    using still leaves_reads [OF v]
    by (cases "nonempty sib")
      (auto simp: end_access_def stillSubscribedElsewhere_def wp_simps emits_logged nonempty_again split: option.splits
        intro!: leaves_recordEvent simp del: nonempty_Some)
qed (rule leaves_reads)

text \<open>C9: A cancellation takes nobody's access away while somebody still pays for it. If another
  customer of the payer's address is live at Stripe whenever Stripe answers, or an admin linked the
  payer to another address that is subscribed, the end of the one subscription disables no record
  and touches no expiry, whatever fails on the way.\<close>

theorem paid_for_elsewhere_keeps_access:
  assumes "known_payer (w_db w) obj email" "truthyText obj ''customer'' = Some dead"
    and "(\<exists>c. live_sibling b (w_db w) email dead c) \<or> linked_payer (w_db w) email"
    and "[] \<notin> set (customerIdsForEmail email (w_db w))" "map_of (allCustomerRows (w_db w)) [] = None"
  shows "wp (onSubscriptionDeleted b obj) (\<lambda>_. emits leaves_records w) (\<lambda>_. emits leaves_records w) w"
proof (rule wp_subscription_deleted [OF assms(1)])
  fix c u assume "truthyText obj ''customer'' = Some c" and o: "observed w u"
  then have c: "c = dead" using assms(2) by simp
  have u: "w_db u = w_db w" "emits leaves_records w u" using o by (auto simp: observed_def intro: leaves_reads)
  have "wp (cancel_for b dead email) (\<lambda>_. emits leaves_records u) (\<lambda>_. emits leaves_records u) u"
    using assms(3-5) known_payer_nonempty [OF assms(1)] by (intro cancel_while_paid) (simp_all add: u)
  then show "wp (cancel_for b c email) (\<lambda>_. emits leaves_records w) (\<lambda>_. emits leaves_records w) u"
    unfolding c by (rule wp_cons) (use u emits_trans in blast)+
qed (simp add: observed_emits)

text \<open>The sample payer with a second, live customer at the same address.\<close>

theorem paid_for_elsewhere_keeps_access_witness:
  "wp (onSubscriptionDeleted sample_env [(''customer'', JStr ''cus_1''), (''customer_email'', JStr ''A@x'')])
     (\<lambda>_. emits leaves_records (world_of (setMemberLink ''a@x'' (Some ''b@x'')
        (upsertPending ''cus_2'' ''b@X'' ''k2'' (Some Gold) ''2026'' (upsertPending ''cus_1'' ''a@X'' ''k1'' (Some Gold) ''2026'' empty_db)))))
     (\<lambda>_. emits leaves_records (world_of (setMemberLink ''a@x'' (Some ''b@x'')
        (upsertPending ''cus_2'' ''b@X'' ''k2'' (Some Gold) ''2026'' (upsertPending ''cus_1'' ''a@X'' ''k1'' (Some Gold) ''2026'' empty_db)))))
     (world_of (setMemberLink ''a@x'' (Some ''b@x'')
        (upsertPending ''cus_2'' ''b@X'' ''k2'' (Some Gold) ''2026'' (upsertPending ''cus_1'' ''a@X'' ''k1'' (Some Gold) ''2026'' empty_db))))"
  by (rule paid_for_elsewhere_keeps_access [where email = "''A@x''" and dead = "''cus_1''"], code_simp,
      code_simp, rule disjI2, code_simp+)


subsection \<open>A failed charge\<close>

text \<open>Nothing is minted or mailed with an invite link, and no record is disabled or extended.\<close>

definition leaves_access :: "call \<Rightarrow> bool" where
  "leaves_access c \<longleftrightarrow> leaves_records c \<and> \<not> invite_post c \<and> \<not> invite_mail c"

lemma leaves_access_simps [simp]:
  "reads c \<Longrightarrow> leaves_access c" "leaves_access (MailCall (alert_message b a))"
  "leaves_access (MailCall (payment_failed_message t u))" "leaves_access ClockRead" "leaves_access SqlUnit"
  using reads_not [of c] by (auto simp: leaves_access_def alert_message_def payment_failed_message_def)

lemma leaves_access_retire: "keeps (emits leaves_access) (retireDuplicates b email p)"
proof -
  have "retirement_call b p c \<Longrightarrow> leaves_access c" for c
  proof -
    have "wizarr_read req \<Longrightarrow> \<not> invite_post (WizarrCall req)" for req by (cases req) simp_all
    then show "retirement_call b p c \<Longrightarrow> ?thesis"
      using leaves_records_retire [of b p c] by (cases c) (simp_all add: leaves_access_def)
  qed
  then show ?thesis by (intro keeps_mono [OF emits_retire]) (erule emits_mono)
qed

lemma emits_payer: "(\<And>c. reads c \<Longrightarrow> P c) \<Longrightarrow> keeps (emits P) (payerEmail b obj customerId)"
  unfolding payerEmail_def customerEmail_def by (intro emits_intros emits_clients; simp)

text \<open>C11: A failed charge, and whatever else Stripe reports of a subscription while it retries,
  takes nothing away: no record is disabled, no expiry is touched and no invite goes out, in any
  state and whatever fails. Of the tables only the dunning flags and the history change.\<close>

theorem dunning_never_touches_access:
  "keeps (bounded leaves_access but_dunning) (onPaymentFailed b obj) \<and>
   keeps (bounded reads but_dunning) (onSubscriptionUpdated b obj)"
proof -
  have both: "keeps (emits P) m \<Longrightarrow> keeps (same_table f) m \<Longrightarrow> keeps (bounded P f) m" for P f and m :: "unit run"
    unfolding keeps_def bounded_def same_table_def by simp
  show ?thesis
    unfolding onPaymentFailed_def onSubscriptionUpdated_def failed_duplicate_def flag_failed_charge_def Let_def
    by (intro conjI both emits_intros table_intros emits_clients table_clients emits_members table_members
        emits_payer processed_payer leaves_access_retire table_retire; simp)
qed

end
