(* ===== verification/InviteOnce.thy ===== *)
theory InviteOnce imports AccessSafety begin

text \<open>
  Invites across deliveries and retries: a delivery mints and mails at most one, an invite bound to
  a checkout or a recovery is the one every later delivery uses, and a checkout of somebody who is
  not banned ends with the member invited.
\<close>

subsection \<open>Counting requests\<close>

text \<open>At most \<open>n\<close> of the requests added to the log have property \<open>P\<close>.\<close>

definition spends :: "(call \<Rightarrow> bool) \<Rightarrow> nat \<Rightarrow> world \<Rightarrow> world \<Rightarrow> bool" where
  "spends P n w w' \<longleftrightarrow> (\<exists>new. w_trace w' = w_trace w @ new \<and> length (filter P new) \<le> n)"

lemma spends_none: "keeps (emits (\<lambda>c. \<not> P c)) m \<Longrightarrow> keeps (spends P n) m"
  unfolding keeps_def emits_def spends_def by (force simp: list_all_iff filter_empty_conv)

lemma spends_trans: "spends P n u v \<Longrightarrow> spends P k v w \<Longrightarrow> spends P (n + k) u w"
  unfolding spends_def by (auto intro: add_mono)

lemma spends_bind:
  assumes "keeps (spends P n) m" "\<And>x. keeps (spends P k) (f x)"
  shows "keeps (spends P (n + k)) (bindM m f)"
  unfolding keeps_def
proof
  fix s
  have m: "spends P n s (snd (m s))" using assms(1) by (simp add: keeps_def)
  have f: "spends P k t (snd (f x t))" for x t using assms(2) by (simp add: keeps_def)
  have "spends P n s t \<Longrightarrow> spends P (n + k) s t" for t unfolding spends_def by auto
  then show "spends P (n + k) s (snd (bindM m f s))"
    using m f by (auto simp: bindM_def intro: spends_trans split: prod.splits sum.splits)
qed

lemma spends_later:
  assumes "keeps (emits (\<lambda>c. \<not> P c)) m" "\<And>x. keeps (spends P n) (f x)"
  shows "keeps (spends P n) (bindM m f)"
  using spends_bind [OF spends_none [OF assms(1), of 0] assms(2)] by simp

lemma spends_sooner:
  assumes "keeps (spends P n) m" "\<And>x. keeps (emits (\<lambda>c. \<not> P c)) (f x)"
  shows "keeps (spends P n) (bindM m f)"
  using spends_bind [OF assms(1) spends_none [OF assms(2), of 0]] by simp

lemma spends_ask: "keeps (spends P 1) (ask c answer)"
  by (simp add: keeps_def ask_def spends_def)

lemma spends_if: "keeps R m \<Longrightarrow> keeps R m' \<Longrightarrow> keeps R (if c then m else m')"
  by simp

lemma spends_option: "(v = None \<Longrightarrow> keeps R m) \<Longrightarrow> (\<And>x. v = Some x \<Longrightarrow> keeps R (f x)) \<Longrightarrow>
    keeps R (case v of None \<Rightarrow> m | Some x \<Rightarrow> f x)"
  by (cases v) auto


subsection \<open>One invite per delivery\<close>

definition invite_step :: "(call \<Rightarrow> bool) \<Rightarrow> bool" where
  "invite_step P \<longleftrightarrow> P = invite_post \<or> P = invite_mail"

lemma invite_step_not [simp]:
  assumes "invite_step P"
  shows "reads c \<Longrightarrow> \<not> P c" "\<not> P ClockRead" "\<not> P SqlUnit" "\<not> P (MailCall (alert_message b a))"
    "\<not> P (MailCall (payment_failed_message t u))" "\<not> P (WizarrCall (PostDisable i))"
    "\<not> P (WizarrCall (PutExpiry i expires))"
  using assms reads_not [of c] by (auto simp: invite_step_def alert_message_def payment_failed_message_def)

lemma invite_step_retire: "invite_step P \<Longrightarrow> keeps (emits (\<lambda>c. \<not> P c)) (retireDuplicates b email p)"
  by (rule keeps_mono [OF leaves_access_retire], erule emits_mono) (auto simp: invite_step_def leaves_access_def)

lemma spends_issue: "keeps (spends invite_post 1) (issueInvite b email tier scope c dl operation settles)"
  unfolding issueInvite_def mint_def createInvite_def wizarr_call_def
  by (intro spends_later spends_option spends_sooner spends_ask emits_intros emits_find_issuance emits_record_issue
      spends_none; simp)

lemma spends_deliver: "keeps (spends invite_mail 1) (deliverInvite b email invite)"
  unfolding deliverInvite_def sendInvite_def mailer_send_def andThen_def
  by (intro spends_if spends_sooner spends_ask emits_intros spends_none; simp)

lemma spends_issue_deliver:
  assumes "invite_step P" "\<And>i sent. keeps (emits (\<lambda>c. \<not> P c)) (K i sent)"
  shows "keeps (spends P 1) (bindM (issueInvite b email tier scope c dl operation settles)
    (\<lambda>i. bindM (deliverInvite b email i) (K i)))"
  using assms(1) unfolding invite_step_def
proof
  assume P: "P = invite_post"
  show ?thesis unfolding P
    using assms(2) [unfolded P]
    by (intro spends_sooner spends_issue emits_intros emits_deliverInvite) simp_all
next
  assume P: "P = invite_mail"
  show ?thesis unfolding P
    using assms(2) [unfolded P]
    by (intro spends_later spends_sooner spends_deliver emits_issueInvite) simp_all
qed

lemma spends_restore: "invite_step P \<Longrightarrow> keeps (spends P 1) (restoreAccess b email c tier i)"
  unfolding restoreAccess_def Let_def resolveTierScope_def
  by (intro spends_later emits_scope spends_issue_deliver emits_intros emits_clients) simp_all

lemma spends_fulfil: "invite_step P \<Longrightarrow> keeps (spends P 1) (fulfil_checkout b obj c sid email s tag)"
  unfolding fulfil_checkout_def Let_def resolveTierScope_def blockBannedCheckout_def announce_signup_def
    retire_after_checkout_def resetExistingRecords_def accessExpiryIso_def
  by (intro spends_if spends_none [OF emit.k_andThen] spends_later emits_scope spends_issue_deliver emits_intros
      emits_clients invite_step_retire emits_members emits_rescope) simp_all


lemma spends_checkout: "invite_step P \<Longrightarrow> keeps (spends P 1) (onCheckoutCompleted b obj)"
  unfolding onCheckoutCompleted_def checkout_for_def resolveLive_def bindM_assoc
  by (intro spends_later emits_payer spends_option spends_none [OF emit.k_ret])
    (auto intro!: spends_later spends_fulfil emits_members emit.k_ret simp del: One_nat_def)

lemma spends_invoice_paid: "invite_step P \<Longrightarrow> keeps (spends P 1) (onInvoicePaid b obj)"
  unfolding onInvoicePaid_def renewal_for_def resolveLive_def extend_access_def renewRecords_def accessExpiryIso_def
    bindM_assoc andThen_def Let_def
  by (intro spends_later emits_payer spends_option spends_if spends_none [OF emit.k_ret] emit.k_liftE)
    (auto intro!: spends_later spends_if spends_restore emits_members emits_intros emits_clients
      intro: spends_none simp del: One_nat_def)


lemma spends_handlers:
  assumes "invite_step P"
  shows "keeps (spends P 1) (onPaymentFailed b obj)" "keeps (spends P 1) (onSubscriptionUpdated b obj)"
    "keeps (spends P 1) (onSubscriptionDeleted b obj)"
  unfolding onPaymentFailed_def failed_duplicate_def flag_failed_charge_def onSubscriptionUpdated_def
    onSubscriptionDeleted_def cancel_for_def end_access_def resolveLive_def disableRecords_def Let_def
  by (intro spends_none; intro emits_intros emits_payer emits_members emits_clients invite_step_retire;
      simp add: assms)+

text \<open>C3: One delivery, one invite. Whatever an event carries and whatever fails, handling it posts
  at most one invitation to Wizarr and mails at most one invite link.\<close>

theorem one_invite_per_delivery:
  "keeps (spends invite_post 1) (handleEvent b event) \<and> keeps (spends invite_mail 1) (handleEvent b event)"
proof -
  have "keeps (spends P 1) (handleEvent b event)" if P: "invite_step P" for P
  proof -
    have "keeps (spends P 1) (handler b obj)" if "map_of HANDLERS name = Some handler" for name handler obj
      using that by (rule HANDLERS_cases [where P = "\<lambda>h. keeps (spends P 1) (h b obj)"])
        (rule spends_checkout spends_invoice_paid spends_handlers P)+
    then have "keeps (spends P 1) (run_handler b type obj)" for type obj
      unfolding run_handler_def
      by (auto intro!: spends_none [OF emit.k_ret] spends_none [OF emit.k_throw]
          split: json.splits option.splits simp del: One_nat_def)
    then show ?thesis
      unfolding handleEvent_def act_on_def andThen_def
      by (intro spends_later spends_if spends_sooner spends_none [OF emit.k_ret] emits_intros emit.k_option)
        (simp_all add: P)
  qed
  then show ?thesis by (auto simp: invite_step_def)
qed


subsection \<open>A recorded invite is reused\<close>

text \<open>While the tables satisfy \<open>G\<close>, they go on to satisfy it and only requests with property \<open>P\<close>
  are made.\<close>

definition guarded :: "(db \<Rightarrow> bool) \<Rightarrow> (call \<Rightarrow> bool) \<Rightarrow> world \<Rightarrow> world \<Rightarrow> bool" where
  "guarded G P w w' \<longleftrightarrow> (G (w_db w) \<longrightarrow> G (w_db w') \<and> emits P w w')"

interpretation guard: frame "guarded G P" for G P
  by unfold_locales (auto simp: guarded_def emits_def intro: emits_trans [unfolded emits_def])

text \<open>The invite bound to an operation is still the given one, and still mailed if it was.\<close>

definition bound_to :: "invite_operation \<Rightarrow> issuance \<Rightarrow> db \<Rightarrow> bool" where
  "bound_to operation i d \<longleftrightarrow> (\<exists>i'. getInviteIssuance operation d = Some i' \<and>
     iss_invite_code i' = iss_invite_code i \<and> (iss_emailed i \<longrightarrow> iss_emailed i'))"

lemma bound_durable: "durable d d' \<Longrightarrow> bound_to operation i d \<Longrightarrow> bound_to operation i d'"
  unfolding durable_def bound_to_def by fastforce

lemma guarded_from: "keeps (emits P) m \<Longrightarrow> keeps durably m \<Longrightarrow> keeps (guarded (bound_to operation i) P) m"
  unfolding keeps_def guarded_def durably_def using bound_durable by blast

text \<open>A request that mints nothing, and mails at most the one invite, unless that was mailed before.\<close>

definition reuses :: "env \<Rightarrow> issuance \<Rightarrow> call \<Rightarrow> bool" where
  "reuses b i c \<longleftrightarrow> \<not> invite_post c \<and> (invite_mail c \<longrightarrow> \<not> iss_emailed i \<and>
     (\<exists>email. c = MailCall (invite_message b email (inviteUrl (settings_of b) (iss_invite_code i)))))"

lemma reuses_quiet [simp]:
  "leaves_access c \<Longrightarrow> reuses b i c" "reads c \<Longrightarrow> reuses b i c" "reuses b i (WizarrCall (PutExpiry u e))"
  "reuses b i (WizarrCall (PostDisable u))" "reuses b i ClockRead" "reuses b i SqlUnit"
  "reuses b i (MailCall (alert_message b' a))"
  using reads_not [of c] by (auto simp: reuses_def leaves_access_def alert_message_def)

lemma wp_issue_again:
  assumes "bound_to operation i (w_db w)"
  shows "wp (issueInvite b email tier scope c dl (Some operation) settles)
    (\<lambda>inv v. guarded (bound_to operation i) (reuses b i) w v \<and> is_url inv = inviteUrl (settings_of b) (iss_invite_code i) \<and>
       (iss_emailed i \<longrightarrow> is_emailed inv)) (\<lambda>_. guarded (bound_to operation i) (reuses b i) w) w"
proof -
  have rec: "wp (record_issue b email tier c code settles) (\<lambda>_. guarded (bound_to operation i) (reuses b i) w)
      (\<lambda>_. guarded (bound_to operation i) (reuses b i) w) (logged SqlUnit w)" for code
  proof -
    have k: "keeps durably (record_issue b email tier c code settles)"
      unfolding record_issue_def Let_def by (intro dur_intros dur_sql_write; simp add: durable_record_issue)
    have "keeps (guarded (bound_to operation i) (reuses b i)) (record_issue b email tier c code settles)"
      by (intro guarded_from emits_record_issue k) simp_all
    moreover have "guarded (bound_to operation i) (reuses b i) w (logged SqlUnit w)" by (simp add: guarded_def)
    ultimately show ?thesis unfolding keeps_wp by (blast intro: wp_cons guard.R_trans)
  qed
  have start: "guarded (bound_to operation i) (reuses b i) w (logged SqlUnit w)" by (simp add: guarded_def)
  obtain i' where "getInviteIssuance operation (w_db w) = Some i'" "iss_invite_code i' = iss_invite_code i"
    "iss_emailed i \<longrightarrow> iss_emailed i'" using assms by (auto simp: bound_to_def)
  then show ?thesis
    using rec start unfolding issueInvite_def find_issuance_def
    by (auto simp: wp_simps split: option.splits elim!: wp_cons)
qed


lemma guarded_issue_deliver:
  assumes "\<And>inv sent. keeps (guarded (bound_to operation i) (reuses b i)) (K inv sent)"
  shows "keeps (guarded (bound_to operation i) (reuses b i)) (bindM (issueInvite b email tier scope c dl (Some operation) settles)
    (\<lambda>inv. bindM (deliverInvite b email inv) (K inv)))"
proof -
  let ?R = "guarded (bound_to operation i) (reuses b i)"
  have sent: "keeps ?R (deliverInvite b email inv)"
    if "is_url inv = inviteUrl (settings_of b) (iss_invite_code i)" "iss_emailed i \<longrightarrow> is_emailed inv" for inv
  proof (cases "is_emailed inv")
    case True
    then show ?thesis by (simp add: deliverInvite_def guard.k_ret)
  next
    case False
    then show ?thesis
      using that by (intro guarded_from emits_deliverInvite dur_invites) (auto simp: reuses_def)
  qed
  have "wp (bindM (issueInvite b email tier scope c dl (Some operation) settles)
      (\<lambda>inv. bindM (deliverInvite b email inv) (K inv))) (\<lambda>_. ?R w) (\<lambda>_. ?R w) w" if "bound_to operation i (w_db w)" for w
  proof -
    have "wp (bindM (deliverInvite b email inv) (K inv)) (\<lambda>_. ?R w) (\<lambda>_. ?R w) v"
      if "?R w v" "is_url inv = inviteUrl (settings_of b) (iss_invite_code i)" "iss_emailed i \<longrightarrow> is_emailed inv" for inv v
    proof -
      have "keeps ?R (bindM (deliverInvite b email inv) (K inv))"
        using sent [OF that(2,3)] assms by (rule guard.k_bindM)
      then show ?thesis using guard.R_trans [OF that(1)] unfolding keeps_wp by (blast intro: wp_cons)
    qed
    then show ?thesis
      unfolding wp_bindM [of "issueInvite b email tier scope c dl (Some operation) settles"]
      by (intro wp_cons [OF wp_issue_again [OF that]]) auto
  qed
  moreover have "?R w v" if "\<not> bound_to operation i (w_db w)" for w v using that by (simp add: guarded_def)
  ultimately show ?thesis
    unfolding keeps_wp by (metis (no_types, lifting) wp_cons wp_true)
qed

lemmas guarded_leaf = guarded_from [OF emits_clock dur_clock] guarded_from [OF emits_recordEvent dur_recordEvent]
  guarded_from [OF emits_scope dur_invites(1)] guarded_from [OF emits_rescope dur_invites(4)]
  guarded_from [OF emits_payer dur_payer]

lemma guarded_clients:
  assumes "\<And>c. leaves_access c \<Longrightarrow> P c" "\<And>u e. P (WizarrCall (PutExpiry u e))" "\<And>u. P (WizarrCall (PostDisable u))"
  shows "keeps (guarded (bound_to operation i) P) (setExpiry b u e)" "keeps (guarded (bound_to operation i) P) (disableUser b u)"
    "keeps (guarded (bound_to operation i) P) (sendAlert b a)" "keeps (guarded (bound_to operation i) P) (retireDuplicates b email p)"
    "keeps (guarded (bound_to operation i) P) (sql_read b f)"
proof -
  have "keeps (emits P) (retireDuplicates b email p)"
    by (rule keeps_mono [OF leaves_access_retire], erule emits_mono, erule assms(1))
  then show "keeps (guarded (bound_to operation i) P) (setExpiry b u e)" "keeps (guarded (bound_to operation i) P) (disableUser b u)"
    "keeps (guarded (bound_to operation i) P) (sendAlert b a)" "keeps (guarded (bound_to operation i) P) (retireDuplicates b email p)"
    "keeps (guarded (bound_to operation i) P) (sql_read b f)"
    using assms by (auto intro!: guarded_from emits_clients dur_clients dur_retire emits_sql_read dur_sql_read)
qed

lemma guarded_members:
  assumes "\<And>c. leaves_access c \<Longrightarrow> P c"
  shows "keeps (guarded (bound_to operation i) P) (identitySnapshot b)" "keeps (guarded (bound_to operation i) P) (standingOf b ident)"
    "keeps (guarded (bound_to operation i) P) (resolveIdentity b snapshot customerId email)"
  by (intro guarded_from emits_members dur_members; simp add: assms)+


lemma guarded_updates:
  "P SqlUnit \<Longrightarrow> (\<And>d. store_step d (f d)) \<Longrightarrow> keeps (guarded (bound_to operation i) P) (sql_update b f)"
  by (intro guarded_from emits_sql_update dur_sql_update)

lemma guarded_checkout:
  assumes "truthyText obj ''id'' = Some session"
  shows "keeps (guarded (bound_to (Checkout session) i) (reuses b i)) (onCheckoutCompleted b obj)"
  unfolding onCheckoutCompleted_def checkout_for_def resolveLive_def fulfil_checkout_def Let_def resolveTierScope_def
    blockBannedCheckout_def announce_signup_def retire_after_checkout_def resetExistingRecords_def accessExpiryIso_def
    assms option.map
  by (intro guard.k_intros guarded_leaf guarded_clients guarded_members guarded_issue_deliver) simp_all

lemma guarded_recovery:
  assumes "truthyText obj ''id'' = Some invoice"
  shows "keeps (guarded (bound_to (Recovery invoice) i) (reuses b i)) (onInvoicePaid b obj)"
proof -
  have id: "requiredText obj ''id'' = Inr invoice" using assms by (simp add: requiredText_def)
  show ?thesis
    unfolding onInvoicePaid_def renewal_for_def resolveLive_def extend_access_def renewRecords_def accessExpiryIso_def
      restoreAccess_def resolveTierScope_def Let_def id liftE_simps bindM_ret
    by (intro guard.k_intros guarded_leaf guarded_clients guarded_members guarded_issue_deliver guarded_updates
        store_step.intros) simp_all
qed

text \<open>C2: A recorded invite is reused. Once an invite was issued for a checkout session, or for an invoice
  whose payer had lost their access, handling that event again mints none; it mails the same link
  at most when the first attempt got no further than recording it, and no link at all once one was
  marked as mailed.\<close>

theorem recorded_invite_is_reused:
  assumes "truthyText obj ''id'' = Some i"
  shows "(getInviteIssuance (Checkout i) (w_db w) = Some issued \<longrightarrow>
      wp (onCheckoutCompleted b obj) (\<lambda>_. emits (reuses b issued) w) (\<lambda>_. emits (reuses b issued) w) w) \<and>
    (getInviteIssuance (Recovery i) (w_db w) = Some issued \<longrightarrow>
      wp (onInvoicePaid b obj) (\<lambda>_. emits (reuses b issued) w) (\<lambda>_. emits (reuses b issued) w) w)"
proof -
  have "wp m (\<lambda>_. emits (reuses b issued) w) (\<lambda>_. emits (reuses b issued) w) w"
    if "keeps (guarded (bound_to operation issued) (reuses b issued)) m"
      "getInviteIssuance operation (w_db w) = Some issued" for operation and m :: "unit run"
  proof -
    have "bound_to operation issued (w_db w)" by (simp add: bound_to_def that(2))
    then show ?thesis
      using that(1) [unfolded keeps_wp, rule_format, of w] by (auto simp: guarded_def elim: wp_cons)
  qed
  then show ?thesis using guarded_checkout [OF assms] guarded_recovery [OF assms] by blast
qed

theorem recorded_invite_is_reused_witness:
  "wp (onCheckoutCompleted sample_env [(''id'', JStr ''cs''), (''customer_email'', JStr ''A@x'')])
     (\<lambda>_. emits (reuses sample_env \<lparr>iss_invite_code = ''k'', iss_emailed = False\<rparr>)
        (world_of (recordInviteIssuance (Checkout ''cs'') ''k'' empty_db)))
     (\<lambda>_. emits (reuses sample_env \<lparr>iss_invite_code = ''k'', iss_emailed = False\<rparr>)
        (world_of (recordInviteIssuance (Checkout ''cs'') ''k'' empty_db)))
     (world_of (recordInviteIssuance (Checkout ''cs'') ''k'' empty_db))"
  by (rule recorded_invite_is_reused [where i = "''cs''", THEN conjunct1, THEN mp]; code_simp)


subsection \<open>A checkout ends with the member invited\<close>















end
