(* ===== verification/Billing.thy ===== *)
theory Billing imports AccessSafety begin

text \<open>
  Flagging every subscription of a person to cancel at the period's end
  (\<open>apps/stripe-bridge/src/admin/billing.ts\<close>): one failed call neither stops the next account nor
  erases what already worked.
\<close>

record flagged_subscriptions =
  fl_found :: bool
  fl_flagged :: "subscription list"
  fl_already :: "subscription list"
  fl_failures :: nat

datatype billing_status = Scheduled | AlreadyScheduled | Absent | Failed | Partial

record billing_outcome =
  bo_status :: billing_status
  bo_canceled :: nat
  bo_cancel_at :: "string option"

definition attempt :: "'a run \<Rightarrow> 'a option run" where
  "attempt m = catchM (bindM m (\<lambda>x. ret (Some x))) (\<lambda>_. ret None)"

definition cancelAtOf :: "subscription list \<Rightarrow> string option" where
  "cancelAtOf subs = (let latest = foldl (\<lambda>m s. max m (case sub_cancel_at s of Some t \<Rightarrow> t | None \<Rightarrow> 0)) 0 subs in
     if latest \<noteq> 0 then Some (isoformat (latest * 1000)) else None)"

definition customers_at :: "env \<Rightarrow> string \<Rightarrow> string list option run" where
  "customers_at b address = bindM (sql_read b (customerIdsForEmail address)) (\<lambda>mapped.
     if mapped \<noteq> [] then ret (Some mapped) else attempt (stripe_customerIdsForEmail b address))"

record flagged_customer =
  fc_flagged :: "subscription list"
  fc_already :: "subscription list"
  fc_failures :: nat

definition flag_customer :: "env \<Rightarrow> string \<Rightarrow> flagged_customer run" where
  "flag_customer b customerId = bindM (attempt (subscriptionsFor b customerId)) (\<lambda>listed. case listed of
       None \<Rightarrow> ret \<lparr>fc_flagged = [], fc_already = [], fc_failures = 1\<rparr>
     | Some subs \<Rightarrow>
         bindM (mapInOrder (\<lambda>s. attempt (cancelAtPeriodEnd b (sub_id s)))
             (filter (\<lambda>s. \<not> sub_cancel_at_period_end s) subs)) (\<lambda>results.
         ret \<lparr>fc_flagged = somes results, fc_already = filter sub_cancel_at_period_end subs,
              fc_failures = length (filter (\<lambda>r. r = None) results)\<rparr>))"

definition flagSubscriptions :: "env \<Rightarrow> string list \<Rightarrow> flagged_subscriptions run" where
  "flagSubscriptions b addrs = bindM (mapInOrder (customers_at b) addrs) (\<lambda>perAddress.
     let customerIds = js_set (concat (map (case_option [] id) perAddress)) in
     bindM (mapInOrder (flag_customer b) customerIds) (\<lambda>perCustomer.
     ret \<lparr>fl_found = (customerIds \<noteq> []), fl_flagged = concat (map fc_flagged perCustomer),
          fl_already = concat (map fc_already perCustomer),
          fl_failures = length (filter (\<lambda>ids. ids = None) perAddress) + sum_list (map fc_failures perCustomer)\<rparr>))"

definition banBillingOutcome :: "flagged_subscriptions \<Rightarrow> billing_outcome" where
  "banBillingOutcome f =
     \<lparr>bo_status = (if fl_failures f > 0 then if length (fl_flagged f) + length (fl_already f) > 0 then Partial else Failed
        else if length (fl_flagged f) > 0 then Scheduled
        else if length (fl_already f) > 0 then AlreadyScheduled else Absent),
      bo_canceled = length (fl_flagged f), bo_cancel_at = cancelAtOf (fl_flagged f @ fl_already f)\<rparr>"

definition banBillingLine :: "billing_outcome \<Rightarrow> string" where
  "banBillingLine billing = (case bo_status billing of
     Failed \<Rightarrow> ''could not reach Stripe, cancel the subscription by hand''
   | Partial \<Rightarrow> ''some cancellations failed; check remaining subscriptions in Stripe''
   | Absent \<Rightarrow> ''no subscription to cancel''
   | _ \<Rightarrow> (case nonempty (bo_cancel_at billing) of
       Some at \<Rightarrow> ''billing stops '' @ take 10 at | None \<Rightarrow> ''cancellation scheduled''))"

subsection \<open>What flagging may ask for\<close>

fun flag_call :: "call \<Rightarrow> bool" where
  "flag_call (StripeCall (FlagCancelAtPeriodEnd _)) = True"
| "flag_call _ = False"

text \<open>Reads, and the flag that lets a subscription run out.\<close>

definition flags_only :: "call \<Rightarrow> bool" where
  "flags_only c \<longleftrightarrow> reads c \<or> flag_call c"

lemma flags_only_simps [simp]: "reads c \<Longrightarrow> flags_only c" "flags_only (StripeCall (FlagCancelAtPeriodEnd s))"
  by (simp_all add: flags_only_def)

lemma emits_attempt: "keeps (emits P) m \<Longrightarrow> keeps (emits P) (attempt m)"
  unfolding attempt_def by (intro emits_intros)

lemma table_attempt: "keeps (same_table f) m \<Longrightarrow> keeps (same_table f) (attempt m)"
  unfolding attempt_def by (intro table_intros)

lemma dur_attempt: "keeps durably m \<Longrightarrow> keeps durably (attempt m)"
  unfolding attempt_def by (intro dur_intros)

lemma emits_flag_customer: "keeps (emits flags_only) (flag_customer b c)"
  unfolding flag_customer_def by (intro emits_intros emits_attempt emits_clients; simp)

lemma emits_flag: "keeps (emits flags_only) (flagSubscriptions b addrs)"
  unfolding flagSubscriptions_def customers_at_def Let_def
  by (intro emits_intros emits_attempt emits_clients emits_flag_customer; simp)

lemma table_flag: "keeps (same_table f) (flagSubscriptions b addrs)"
  unfolding flagSubscriptions_def customers_at_def flag_customer_def Let_def
  by (intro table_intros table_attempt table_clients)

lemma wp_attempt [wp_simps]: "wp (attempt m) Q E = wp m (\<lambda>x. Q (Some x)) (\<lambda>_. Q None)"
  by (simp add: attempt_def wp_simps)


text \<open>Flagging loses nothing: for each customer it never throws, and what it reports adds up to
  what Stripe listed. A customer that could not be listed is one failure; otherwise every
  subscription is reported as already flagged, as flagged now, or as a failure, and each call made
  was to flag one of those that were not flagged yet.\<close>

theorem flagging_accounts_for_every_subscription:
  "wp (flag_customer b c)
     (\<lambda>r v. case subscriptions_answer b (w_trace w) (ListSubscriptions (Some c)) of
         Inl _ \<Rightarrow> r = \<lparr>fc_flagged = [], fc_already = [], fc_failures = 1\<rparr> \<and>
           w_trace v = w_trace w @ [StripeCall (ListSubscriptions (Some c))]
       | Inr listed \<Rightarrow> (let subs = map toSubscription listed; open_subs = filter (\<lambda>s. \<not> sub_cancel_at_period_end s) subs in
           fc_already r = filter sub_cancel_at_period_end subs \<and>
           length (fc_flagged r) + fc_failures r = length open_subs \<and>
           w_trace v = w_trace w @ StripeCall (ListSubscriptions (Some c)) #
             map (\<lambda>s. StripeCall (FlagCancelAtPeriodEnd (sub_id s))) open_subs))
     (\<lambda>_ _. False) w"
proof -
  have each: "wp (mapInOrder (\<lambda>s. attempt (cancelAtPeriodEnd b (sub_id s))) subs)
      (\<lambda>results v. length (somes results) + length (filter (\<lambda>r. r = None) results) = length subs \<and>
         w_trace v = w_trace u @ map (\<lambda>s. StripeCall (FlagCancelAtPeriodEnd (sub_id s))) subs)
      (\<lambda>_ _. False) u" for subs u
  proof (induction subs arbitrary: u)
    case Nil
    then show ?case by (simp add: wp_simps somes_def)
  next
    case (Cons s subs)
    let ?u = "logged (StripeCall (FlagCancelAtPeriodEnd (sub_id s))) u"
    show ?case
      using Cons.IH [of ?u]
      by (auto simp: wp_simps cancelAtPeriodEnd_def Let_def somes_def split: sum.splits elim!: wp_cons)
  qed
  let ?w = "logged (StripeCall (ListSubscriptions (Some c))) w"
  show ?thesis
    by (auto simp: flag_customer_def subscriptionsFor_def allPages_def wp_simps Let_def filter_map comp_def
        split: sum.splits intro!: wp_cons [OF each])
qed

end
