(* ===== verification/Actions.thy ===== *)
theory Actions imports Billing begin

text \<open>
  What each admin POST does once its body is read (\<open>apps/stripe-bridge/src/admin/actions.ts\<close>). A
  refusal is the HTTP error the route answers with. The calendar check zod makes of an absolute
  expiry is a parameter, \<open>iso_datetime\<close>.
\<close>

subsection \<open>Labels and overrides\<close>

record notes_result = nr_email :: string  nr_notes :: string
record tag_result = tg_email :: string  tg_tag :: "member_tag option"
record downloads_result = dl_email :: string  dl_downloads :: bool
record link_result = lr_stripe_email :: string  lr_plex_email :: "string option"

definition saveNotes :: "env \<Rightarrow> string \<Rightarrow> string \<Rightarrow> notes_result run" where
  "saveNotes b email notes = andThen (sql_update b (setMemberNotes email notes))
     (ret \<lparr>nr_email = email, nr_notes = notes\<rparr>)"

definition setTag :: "env \<Rightarrow> string \<Rightarrow> string option \<Rightarrow> tag_result run" where
  "setTag b email tag = (case map_option tag_of_name tag of
       Some None \<Rightarrow> throw (HttpErr 400 (''unknown tag '' @ json_string (text_or_empty tag)))
     | known \<Rightarrow> (let t = Option.bind known id in
         andThen (sql_update b (setMemberTag email t))
        (andThen (recordEvent b email ''Tag changed''
            (case nonempty tag of Some name \<Rightarrow> ''tagged '' @ toUpperCase name | None \<Rightarrow> ''tag cleared''))
        (ret \<lparr>tg_email = email, tg_tag = t\<rparr>))))"

definition setDownloads :: "env \<Rightarrow> string \<Rightarrow> bool \<Rightarrow> downloads_result run" where
  "setDownloads b email allow = andThen (sql_update b (setMemberDownloads email allow))
     (andThen (recordEvent b email ''Downloads toggled'' (''turned '' @ (if allow then ''on'' else ''off'') @ '' by admin''))
     (ret \<lparr>dl_email = email, dl_downloads = allow\<rparr>))"

definition record_link :: "env \<Rightarrow> string \<Rightarrow> string option \<Rightarrow> unit run" where
  "record_link b stripeEmail plexEmail = (case nonempty plexEmail of
       Some plex \<Rightarrow> andThen (recordEvent b plex ''Address linked'' (''pays under '' @ stripeEmail))
         (recordEvent b stripeEmail ''Address linked'' (''billing address for '' @ plex))
     | None \<Rightarrow> recordEvent b stripeEmail ''Address unlinked'' ''stands as its own member again'')"

definition linkAddress :: "env \<Rightarrow> string \<Rightarrow> string option \<Rightarrow> link_result run" where
  "linkAddress b rawStripeEmail rawPlexEmail =
     (let stripeEmail = toLowerCase (trim rawStripeEmail);
          plexEmail = map_option (\<lambda>p. toLowerCase (trim p)) (nonempty rawPlexEmail) in
      if stripeEmail = [] then throw (HttpErr 400 ''stripe_email is required'')
      else bindM (sql_read b allMemberLinks) (\<lambda>links.
        case nonempty (memberLinkConflict links stripeEmail plexEmail) of
          Some conflict \<Rightarrow> throw (HttpErr 400 conflict)
        | None \<Rightarrow> andThen (sql_update b (setMemberLink stripeEmail plexEmail))
           (andThen (record_link b stripeEmail plexEmail)
           (ret \<lparr>lr_stripe_email = stripeEmail, lr_plex_email = plexEmail\<rparr>))))"

subsection \<open>Cancelling and banning\<close>

record cancel_result =
  cr_email :: string
  cr_canceled :: nat
  cr_cancel_at :: "string option"

record ban_result =
  br_email :: string
  br_disabled :: nat
  br_billing :: billing_outcome

definition addressesOf :: "string \<Rightarrow> identity \<Rightarrow> string list" where
  "addressesOf email ident = (let asked = toLowerCase email in
     asked # sort (filter (\<lambda>a. a \<noteq> asked) (addresses ident)))"

definition cancelSubscription ::
  "env \<Rightarrow> string \<Rightarrow> (wizarr_user list \<times> invitation list) option \<Rightarrow> cancel_result run" where
  "cancelSubscription b email seen =
     bindM (case seen of Some (users, invitations) \<Rightarrow> snapshotOver b users invitations | None \<Rightarrow> storedSnapshot b)
     (\<lambda>snapshot. bindM (flagSubscriptions b (addressesOf email (personAt snapshot email))) (\<lambda>f.
       if fl_failures f > 0 then
         throw (HttpErr 502 ''some cancellations failed; check remaining subscriptions in Stripe'')
       else if \<not> fl_found f then throw (HttpErr 404 ''no stripe customer for that email'')
       else if fl_flagged f = [] \<and> fl_already f = [] then throw (HttpErr 404 ''no active subscription for that email'')
       else (let cancelAt = cancelAtOf (fl_flagged f @ fl_already f) in
         andThen (whenM (fl_flagged f \<noteq> []) (recordEvent b email ''Cancellation scheduled''
             (case nonempty cancelAt of
                Some at \<Rightarrow> ''by admin '' @ em_dash @ '' access ends '' @ take 10 at | None \<Rightarrow> ''by admin'')))
           (ret \<lparr>cr_email = email, cr_canceled = length (fl_flagged f), cr_cancel_at = cancelAt\<rparr>))))"

definition revoke_records :: "env \<Rightarrow> string \<Rightarrow> identity_snapshot \<Rightarrow> ban_result run" where
  \<comment> \<open>a ban after its tag is set and the person is read\<close>
  "revoke_records b email snapshot =
     (let ident = personAt snapshot email; ids = map usr_id (everyRecord snapshot ident) in
      andThen (eachInOrder (disableUser b) ids)
     (bindM (flagSubscriptions b (addressesOf email ident)) (\<lambda>f.
      let billing = banBillingOutcome f;
          revoked = (if ids \<noteq> [] then show_nat (length ids) @ '' server record(s) disabled'' else ''no server records to disable'')
      in andThen (recordEvent b email ''Banned'' (revoked @ ''; '' @ banBillingLine billing))
        (ret \<lparr>br_email = email, br_disabled = length ids, br_billing = billing\<rparr>))))"

definition banMember :: "env \<Rightarrow> string \<Rightarrow> ban_result run" where
  "banMember b email = andThen (sql_update b (setMemberTag email (Some Banned)))
     (bindM (identitySnapshot b) (revoke_records b email))"

subsection \<open>Expiry and tier\<close>

record expiry_result =
  xr_updated :: nat
  xr_expires :: "string option"

definition MAX_TIME :: int where
  \<comment> \<open>the largest time value a \<open>Date\<close> holds\<close>
  "MAX_TIME = 8640000000000000"

definition daysFromNow :: "env \<Rightarrow> int \<Rightarrow> string run" where
  "daysFromNow b days = bindM (readClock b) (\<lambda>now. let at = addDays now days in
     if \<bar>at\<bar> > MAX_TIME \<or> utc_year at < 1 \<or> utc_year at > 9999
     then throw (RangeErr (''date value out of range: '' @ show_int days @ '' days''))
     else ret (isoformat at))"

definition absoluteExpiry :: "(string \<Rightarrow> bool) \<Rightarrow> string \<Rightarrow> string option" where
  "absoluteExpiry iso_datetime text = (if \<not> iso_datetime text then None
     else (case parseIso text of Inr at \<Rightarrow> Some (isoformat at) | Inl _ \<Rightarrow> None))"

definition expiryFor :: "(string \<Rightarrow> bool) \<Rightarrow> env \<Rightarrow> int option \<Rightarrow> string option \<Rightarrow> (string option \<times> string) run" where
  "expiryFor iso_datetime b days expiresAt = (case (expiresAt, days) of
       (Some text, _) \<Rightarrow> (case absoluteExpiry iso_datetime text of
           None \<Rightarrow> throw (HttpErr 400 ''expires_at is not an ISO datetime'')
         | Some expires \<Rightarrow> ret (Some expires, ''to '' @ expires))
     | (None, Some d) \<Rightarrow> bindM (daysFromNow b d) (\<lambda>expires. ret (Some expires, show_int d @ '' days''))
     | (None, None) \<Rightarrow> ret (None, ''cleared''))"

definition resetExpiry :: "(string \<Rightarrow> bool) \<Rightarrow> env \<Rightarrow> string \<Rightarrow> int option \<Rightarrow> string option \<Rightarrow> expiry_result run" where
  "resetExpiry iso_datetime b email days expiresAt = bindM (findUsersByEmail b email) (\<lambda>users.
     let ids = map usr_id users in
     if ids = [] then throw (HttpErr 404 ''no member for that email'')
     else bindM (expiryFor iso_datetime b days expiresAt) (\<lambda>(expires, detail).
       andThen (eachInOrder (\<lambda>userId. setExpiry b userId expires) ids)
      (andThen (recordEvent b email ''Expiry reset'' detail)
      (ret \<lparr>xr_updated = length ids, xr_expires = expires\<rparr>))))"

definition resetTier :: "env \<Rightarrow> string \<Rightarrow> string \<Rightarrow> (string \<times> tier) run" where
  "resetTier b email tier = (case tier_of_name tier of
       None \<Rightarrow> throw (HttpErr 400 (''unknown tier '' @ json_string tier))
     | Some t \<Rightarrow> andThen (sql_write b (setTier email t))
        (andThen (recordEvent b email ''Tier reset'' (''hard reset to '' @ tier)) (ret (email, t))))"

subsection \<open>Reissuing\<close>

record reissue_result =
  re_url :: string
  re_code :: string
  re_tier :: tier
  re_disabled :: nat
  re_emailed :: bool

definition reissue_scope :: "env \<Rightarrow> tier \<Rightarrow> string \<Rightarrow> tier_scope run" where
  "reissue_scope b tier email = catchM (liveScope b tier (''reissue for '' @ email)) (\<lambda>e. case e of
       TierScopeEmpty _ \<Rightarrow> throw (HttpErr 502 (''no libraries resolved for tier '' @ tier_name tier))
     | _ \<Rightarrow> throw e)"

definition reissue_to :: "env \<Rightarrow> string \<Rightarrow> tier \<Rightarrow> tier_scope \<Rightarrow> wizarr_user list \<Rightarrow> reissue_result run" where
  \<comment> \<open>a reissue once it is known to be allowed\<close>
  "reissue_to b email tier access records = bindM (sql_read b (getMemberDownloads email)) (\<lambda>override.
     bindM (issueInvite b email tier access None override None False) (\<lambda>invite.
     bindM (rescopeRecords b records (server_names access) True) (\<lambda>r.
     bindM (outcome (sendInvite b email (is_url invite))) (\<lambda>sent.
     let emailed = (case sent of Inr _ \<Rightarrow> True | Inl _ \<Rightarrow> False) in
     andThen (recordEvent b email ''Invite issued'' (tier_name tier @ '' tier '' @ em_dash @ '' '' @
         (if emailed then ''link emailed'' else ''email failed, link sent manually'')))
       (ret \<lparr>re_url = is_url invite, re_code = is_code invite, re_tier = tier,
          re_disabled = length (rs_disabled r), re_emailed = emailed\<rparr>)))))"

definition reissueInvite :: "env \<Rightarrow> string \<Rightarrow> string \<Rightarrow> reissue_result run" where
  "reissueInvite b email requested = (case tier_of_name requested of
       None \<Rightarrow> throw (HttpErr 400 (''unknown tier '' @ json_string requested))
     | Some tier \<Rightarrow>
         if publicInviteBase (settings_of b) = [] then throw (HttpErr 500 ''PUBLIC_INVITE_BASE not configured'')
         else bindM (identitySnapshot b) (\<lambda>snapshot.
           bindM (standingOf b (personAt snapshot email)) (\<lambda>tag.
           if isBanned tag then throw (HttpErr 409 ''member is banned; clear the tag first'')
           else bindM (reissue_scope b tier email) (\<lambda>access.
             reissue_to b email tier access (recordsAt (snap_users snapshot) (toLowerCase email))))))"


subsection \<open>A ban\<close>

fun disabled_of :: "call \<Rightarrow> int option" where
  "disabled_of (WizarrCall (PostDisable u)) = Some u"
| "disabled_of _ = None"

definition disabled_by :: "call list \<Rightarrow> int list" where
  "disabled_by new = somes (map disabled_of new)"

lemma disabled_by_simps [simp]: "disabled_by [] = []" "disabled_by (xs @ ys) = disabled_by xs @ disabled_by ys"
  "disabled_by (map (\<lambda>u. WizarrCall (PostDisable u)) ids) = ids"
  by (simp_all add: disabled_by_def somes_def map_filter_def filter_map comp_def)

lemma disables_nothing: "emits P w v \<Longrightarrow> (\<And>c. P c \<Longrightarrow> disabled_of c = None) \<Longrightarrow>
    \<exists>new. w_trace v = w_trace w @ new \<and> disabled_by new = []"
  unfolding emits_def disabled_by_def
  by (fastforce simp: list_all_iff somes_def map_filter_def filter_empty_conv)

lemma disabled_of_reads [simp]: "reads c \<Longrightarrow> disabled_of c = None" "flags_only c \<Longrightarrow> disabled_of c = None"
proof -
  have "wizarr_read req \<Longrightarrow> disabled_of (WizarrCall req) = None" for req by (cases req) simp_all
  then show *: "reads c \<Longrightarrow> disabled_of c = None" by (cases c) simp_all
  have "flag_call c \<Longrightarrow> disabled_of c = None" by (cases c rule: flag_call.cases) simp_all
  then show "flags_only c \<Longrightarrow> disabled_of c = None" using * by (auto simp: flags_only_def)
qed

lemma wp_disableUser: "wp (disableUser b u) (\<lambda>_ v. v = logged (WizarrCall (PostDisable u)) w)
    (\<lambda>_ v. v = logged (WizarrCall (PostDisable u)) w) w"
  by (auto simp: disableUser_def wizarr_call_def wp_simps split: sum.splits prod.splits)

lemma wp_disable_all: "wp (eachInOrder (disableUser b) ids)
    (\<lambda>_ v. w_trace v = w_trace w @ map (\<lambda>u. WizarrCall (PostDisable u)) ids \<and> w_db v = w_db w)
    (\<lambda>_ v. w_db v = w_db w) w"
proof (induction ids arbitrary: w)
  case Nil
  then show ?case by (simp add: wp_simps)
next
  case (Cons u ids)
  show ?case
    using Cons.IH [of "logged (WizarrCall (PostDisable u)) w"]
    by (auto simp: wp_simps intro!: wp_cons [OF wp_disableUser] elim!: wp_cons)
qed


lemma identitySnapshot_ok: "wp (identitySnapshot b) (\<lambda>s v. observed w v \<and> snap_links s = allMemberLinks (w_db u)) (\<lambda>_. observed w) u"
  if "observed w u"
  by (rule wp_cons [OF observed_resolve]) (auto intro: observed_trans [OF that])

lemma banned_tag: "getMemberTag email (setMemberTag email (Some Banned) d) = Some Banned"
  by (simp add: tags.get_set)

text \<open>The billing half of a ban: what it reports is worked out before, and the tag is left alone.\<close>

lemma wp_ban_billing:
  "wp (bindM (flagSubscriptions b addrs) (\<lambda>f. andThen (recordEvent b email action (line f)) (ret (res f))))
     (\<lambda>r v. (\<exists>f. r = res f) \<and> emits flags_only u v \<and> getMemberTag a (w_db v) = getMemberTag a (w_db u))
     (\<lambda>_ v. getMemberTag a (w_db v) = getMemberTag a (w_db u)) u"
proof -
  let ?m = "bindM (flagSubscriptions b addrs) (\<lambda>f. andThen (recordEvent b email action (line f)) (ret (res f)))"
  have "wp ?m (\<lambda>_. emits flags_only u) (\<lambda>_. emits flags_only u) u"
    by (intro wp_emits emits_intros emits_flag) simp_all
  moreover have "wp ?m (\<lambda>_ v. getMemberTag a (w_db v) = getMemberTag a (w_db u))
      (\<lambda>_ v. getMemberTag a (w_db v) = getMemberTag a (w_db u)) u"
    by (intro wp_same table_intros table_flag) (simp add: getMemberTag_def append_event_def)
  moreover have "wp ?m (\<lambda>r _. \<exists>f. r = res f) (\<lambda>_ _. True) u"
    unfolding wp_bindM wp_andThen wp_ret by (rule wp_cons [OF wp_true], rule wp_cons [OF wp_true]) auto
  ultimately show ?thesis by (rule wp_cons [OF wp_conj [OF wp_conj]]) auto
qed

text \<open>What a revocation that returns has disabled, and how many records it says it did. The snapshot
  is the one Wizarr and the store answered with in this run, from the world \<open>w\<close> in which the tag was set.\<close>

definition revoked_person :: "env \<Rightarrow> world \<Rightarrow> string \<Rightarrow> ban_result \<Rightarrow> world \<Rightarrow> bool" where
  "revoked_person b w email r v \<longleftrightarrow> (\<exists>s u ids rest. identitySnapshot b w = (Inr s, u) \<and>
     w_trace v = w_trace u @ map (\<lambda>i. WizarrCall (PostDisable i)) ids @ rest \<and> disabled_by rest = [] \<and>
     set ids = usr_id ` {x \<in> set (snap_users s). x \<in> set (id_records (personAt s email)) \<or>
       emailOf x \<in> set (addresses (personAt s email))} \<and>
     found_records_ok s (personAt s email) \<and> (distinct (map usr_id (snap_users s)) \<longrightarrow> distinct ids) \<and>
     br_disabled r = length ids)"

lemma distinct_id_records:
  assumes "distinct (map usr_id (snap_users s))"
  shows "distinct (map usr_id (id_records (identityFor s email code)))"
proof -
  have at: "distinct (map usr_id (recordsAt (snap_users s) a))" for a
    using assms by (simp add: recordsAt_def distinct_map_filter)
  have "distinct (map usr_id (redeemerRecords (snap_users s) red))" for red
    using at by (simp add: redeemerRecords_def Let_def split: option.split)
  with at show ?thesis by (cases rule: identityFor_found_by [of email s code]) simp_all
qed

lemma distinct_everyRecord:
  assumes "distinct (map usr_id (snap_users s))"
  shows "distinct (map usr_id (everyRecord s (identityFor s email code)))"
  using distinct_id_records [OF assms, of email code] assms
  by (auto simp: everyRecord_def Let_def distinct_map_filter) (metis image_eqI)

lemma everyRecord_reaches:
  assumes "found_records_ok s i"
  shows "usr_id ` set (everyRecord s i) = usr_id ` {x \<in> set (snap_users s). x \<in> set (id_records i) \<or> emailOf x \<in> set (addresses i)}"
  using assms by (auto simp: everyRecord_def Let_def found_records_ok_def image_iff)

lemma wp_revoke:
  assumes "identitySnapshot b w = (Inr s, u)" "distinct_keys (snap_links s)" "getMemberTag email (w_db u) = Some Banned"
  shows "wp (revoke_records b email s) (\<lambda>r v. getMemberTag email (w_db v) = Some Banned \<and> revoked_person b w email r v)
    (\<lambda>_ v. getMemberTag email (w_db v) = Some Banned) u"
proof -
  let ?ids = "map usr_id (everyRecord s (personAt s email))"
  have found: "found_records_ok s (personAt s email)"
    unfolding personAt_def by (rule conjunct1 [OF identity_records_are_theirs [OF assms(2)]])
  have fin: "revoked_person b w email r v"
    if ran: "w_trace t = w_trace u @ map (\<lambda>u. WizarrCall (PostDisable u)) ?ids" "emits flags_only t v" "br_disabled r = length ?ids" for t r v
  proof -
    obtain rest where "w_trace v = w_trace t @ rest" "disabled_by rest = []"
      using disables_nothing [of flags_only t v] ran(2) by auto
    moreover have "set ?ids = usr_id ` {x \<in> set (snap_users s). x \<in> set (id_records (personAt s email)) \<or>
        emailOf x \<in> set (addresses (personAt s email))}"
      using everyRecord_reaches [OF found] by simp
    moreover have "distinct (map usr_id (snap_users s)) \<longrightarrow> distinct ?ids"
      unfolding personAt_def using distinct_everyRecord by blast
    ultimately show ?thesis
      using ran(1,3) assms(1) found unfolding revoked_person_def
      by (intro exI [of _ s] exI [of _ u] exI [of _ ?ids] exI [of _ rest]) (simp del: map_map)
  qed
  show ?thesis
    unfolding revoke_records_def Let_def wp_andThen
    by (rule wp_cons [OF wp_disable_all], rule wp_cons [OF wp_ban_billing [where a = email]])
      (use assms(3) fin in auto)
qed

text \<open>C7: A ban takes hold before anything that can fail. However the ban of an address ends, the tag
  is set, unless the store refused that very write and nothing at all happened. One that returns has
  asked Wizarr, after reading its users and invitations in that same run, to disable every record
  those users hold under any address of the person or are found by, and nobody else's (each record they
  are found by is itself under one of the addresses, unless it is the one record of a redeemer
  without an address); once each where Wizarr's ids are distinct; it reports their number, and
  Stripe failing does not undo it.\<close>

theorem ban_takes_hold:
  "wp (banMember b email)
     (\<lambda>r v. getMemberTag email (w_db v) = Some Banned \<and>
        revoked_person b (logged SqlUnit (w\<lparr>w_db := setMemberTag email (Some Banned) (w_db w)\<rparr>)) email r v)
     (\<lambda>_ v. getMemberTag email (w_db v) = Some Banned \<or> v = logged SqlUnit w) w"
proof -
  let ?d = "setMemberTag email (Some Banned) (w_db w)"
  let ?w = "logged SqlUnit (w\<lparr>w_db := ?d\<rparr>)"
  have links: "distinct_keys (allMemberLinks ?d)" by (simp add: allMemberLinks_def keyed_all_def)
  have ran: "wp m (\<lambda>x t. m s = (Inr x, t)) (\<lambda>_ _. True) s" for m :: "identity_snapshot run" and s
    by (simp add: wp_def split: prod.split sum.split)
  have snap: "wp (identitySnapshot b) (\<lambda>s u. identitySnapshot b ?w = (Inr s, u) \<and> observed ?w u \<and> distinct_keys (snap_links s))
      (\<lambda>_. observed ?w) ?w"
    by (rule wp_cons [OF wp_conj [OF ran identitySnapshot_ok [OF observed_refl]]]) (use links in auto)
  have "wp (bindM (identitySnapshot b) (revoke_records b email))
      (\<lambda>r v. getMemberTag email (w_db v) = Some Banned \<and> revoked_person b ?w email r v)
      (\<lambda>_ v. getMemberTag email (w_db v) = Some Banned \<or> v = logged SqlUnit w) ?w"
    by (rule wp_bind_cons [OF snap], rule wp_cons [OF wp_revoke])
      (use banned_tag in \<open>auto simp: observed_def\<close>)
  then show ?thesis
    unfolding banMember_def wp_andThen wp_sql_update by (simp split: option.split)
qed

text \<open>C6: A ban outranks a payment that arrives later. However the ban of a payer's address ended, a
  checkout of theirs handled afterwards mints and mails no invite, touches no record and leaves
  every table but the history as it was, unless the store had refused the tag.\<close>

theorem ban_outranks_later_payment:
  assumes "own_email obj = Some email" "trim email = email" "db_ok (w_db w)"
  shows "wp (banMember b email)
    (\<lambda>_ v. wp (onCheckoutCompleted b obj) (\<lambda>_. bounded quiet_call but_history v) (\<lambda>_. bounded quiet_call but_history v) v)
    (\<lambda>_ v. v = logged SqlUnit w \<or>
       wp (onCheckoutCompleted b obj) (\<lambda>_. bounded quiet_call but_history v) (\<lambda>_. bounded quiet_call but_history v) v) w"
proof -
  have email: "email \<noteq> []" "nonempty (Some email) = Some email" using own_email_nonempty [OF assms(1)] by simp_all
  have after: "wp (onCheckoutCompleted b obj) (\<lambda>_. bounded quiet_call but_history v) (\<lambda>_. bounded quiet_call but_history v) v"
    if "map_of (allMemberTags (w_db v)) (toLowerCase email) = Some Banned" for v
  proof -
    have "tagged (w_db v) email Banned" using that assms(2) email(1) by (simp add: tagged_def)
    then show ?thesis
      using assms(1) email(2) by (simp add: onCheckoutCompleted_def payerEmail_def banned_checkout)
  qed
  let ?P = "\<lambda>v. map_of (allMemberTags (w_db v)) (toLowerCase email) = Some Banned"
  let ?w = "logged SqlUnit (w\<lparr>w_db := setMemberTag email (Some Banned) (w_db w)\<rparr>)"
  have set: "?P ?w" using assms(3) by (simp add: tags.all_after_set db_ok_def)
  have "keeps (same_table allMemberTags) (bindM (identitySnapshot b) (revoke_records b email))"
    unfolding revoke_records_def Let_def
    by (intro table_intros table_members table_clients table_flag) (simp add: allMemberTags_def append_event_def)
  from wp_same [OF this, of ?w]
  have "wp (bindM (identitySnapshot b) (revoke_records b email)) (\<lambda>_. ?P) (\<lambda>_. ?P) ?w"
    by (rule wp_cons) (use set in simp_all)
  then have "wp (banMember b email) (\<lambda>_. ?P) (\<lambda>_ v. v = logged SqlUnit w \<or> ?P v) w"
    unfolding banMember_def wp_andThen wp_sql_update by (auto split: option.split elim: wp_cons)
  then show ?thesis by (rule wp_cons) (use after in auto)
qed

theorem ban_outranks_later_payment_witness:
  "wp (banMember sample_env ''A@x'')
    (\<lambda>_ v. wp (onCheckoutCompleted sample_env [(''customer_email'', JStr ''A@x'')])
       (\<lambda>_. bounded quiet_call but_history v) (\<lambda>_. bounded quiet_call but_history v) v)
    (\<lambda>_ v. v = logged SqlUnit (world_of empty_db) \<or>
       wp (onCheckoutCompleted sample_env [(''customer_email'', JStr ''A@x'')])
         (\<lambda>_. bounded quiet_call but_history v) (\<lambda>_. bounded quiet_call but_history v) v) (world_of empty_db)"
  by (rule ban_outranks_later_payment; code_simp)

subsection \<open>A reissue\<close>

lemma reads_not_disable [simp]: "reads c \<Longrightarrow> \<not> disable_call c" "reads c \<Longrightarrow> \<not> invite_post c"
  using reads_not by blast+

text \<open>The requests of a run so far: an invitation was posted before anything was disabled.\<close>

definition invited_first :: "world \<Rightarrow> world \<Rightarrow> bool" where
  "invited_first w v \<longleftrightarrow> (\<exists>first second. w_trace v = w_trace w @ first @ second \<and>
     list_all (\<lambda>c. \<not> disable_call c) first \<and> list_ex invite_post first)"

lemma invited_first_later:
  assumes "keeps (emits (\<lambda>_. True)) m" "invited_first w v"
  shows "wp m (\<lambda>_. invited_first w) (\<lambda>_. invited_first w) v"
proof -
  have "invited_first w u" if "emits (\<lambda>_. True) v u" for u
    using assms(2) that unfolding invited_first_def emits_def by (metis append.assoc)
  then show ?thesis using wp_emits [OF assms(1), of v] by (auto elim: wp_cons)
qed

lemma wp_issue_posts:
  assumes "emits (\<lambda>c. \<not> disable_call c) w u"
  shows "wp (issueInvite b email tier scope c dl None settles) (\<lambda>_. invited_first w)
    (\<lambda>_. emits (\<lambda>c. \<not> disable_call c) w) u"
proof -
  let ?nd = "emits (\<lambda>c. \<not> disable_call c) w"
  have post: "wp (createInvite b req) (\<lambda>_ v. v = logged (WizarrCall (PostInvitation (invite_payload_of req))) u)
      (\<lambda>_ v. v = logged (WizarrCall (PostInvitation (invite_payload_of req))) u) u" for req
    by (auto simp: createInvite_def wizarr_call_def wp_simps split: sum.splits prod.splits)
  obtain n where n: "w_trace u = w_trace w @ n" "list_all (\<lambda>c. \<not> disable_call c) n" using assms by (auto simp: emits_def)
  let ?u = "\<lambda>req. logged (WizarrCall (PostInvitation (invite_payload_of req))) u"
  have inv: "invited_first w (?u req)" "?nd (?u req)" for req
  proof -
    show "invited_first w (?u req)" unfolding invited_first_def
      by (intro exI [of _ "n @ [WizarrCall (PostInvitation (invite_payload_of req))]"] exI [of _ "[]"]) (use n in simp)
    show "?nd (?u req)" using assms by (simp add: emits_logged)
  qed
  have rest: "wp (andThen (record_issue b email tier c code settles) (ret r)) (\<lambda>_. invited_first w) (\<lambda>_. ?nd) (?u req)" for req code r
  proof -
    have k: "keeps (emits P) (andThen (record_issue b email tier c code settles) (ret r))" if "P ClockRead" "P SqlUnit" for P
      by (intro emits_intros emits_record_issue that)
    show ?thesis
      by (rule wp_cons [OF wp_conj [OF invited_first_later [OF k inv(1)] wp_emits_from [OF k inv(2)]]]) simp_all
  qed
  show ?thesis
    unfolding issueInvite_def find_issuance_def mint_def option.case bindM_ret bindM_assoc
    by (rule wp_bind_cons [OF post]) (use rest inv in \<open>auto simp: wp_andThen wp_ret\<close>)
qed

lemma emits_reissue_scope: "(\<And>c. reads c \<Longrightarrow> P c) \<Longrightarrow> keeps (emits P) (reissue_scope b tier email)"
  unfolding reissue_scope_def by (auto intro!: emits_intros emits_scope split: exn.splits)

lemma reissue_refused:
  assumes "tagged (w_db w) email Banned"
  shows "wp (reissueInvite b email tier) (\<lambda>_ _. False) (\<lambda>_. emits reads w) w"
proof -
  have banned: "isBanned (standingOver (allMemberTags (w_db w)) (personAt s email))"
    if "snap_links s = allMemberLinks (w_db w)" for s :: identity_snapshot
    using banned_standing [OF assms that] unfolding personAt_def .
  have refuse: "wp (bindM (standingOf b (personAt s email)) (\<lambda>tag. if isBanned tag then throw e else K tag))
      (\<lambda>_ _. False) (\<lambda>_. emits reads w) u"
    if o: "observed w u" "snap_links s = allMemberLinks (w_db w)" for e K u and s :: identity_snapshot
  proof (rule wp_standing)
    fix u' assume o': "observed u u'"
    have "emits reads w u'" using observed_trans [OF o(1) o'] by (simp add: observed_def)
    moreover have "w_db u = w_db w" using o(1) by (simp add: observed_def)
    ultimately show "wp (if isBanned (standingOver (allMemberTags (w_db u)) (personAt s email)) then throw e
        else K (standingOver (allMemberTags (w_db u)) (personAt s email))) (\<lambda>_ _. False) (\<lambda>_. emits reads w) u'"
      using banned [OF o(2)] by (simp add: wp_simps)
  qed (use observed_trans [OF o(1)] in \<open>auto simp: observed_def\<close>)
  show ?thesis
    unfolding reissueInvite_def
    by (auto simp: wp_throw emits_def [of reads w w] observed_def split: option.split
        intro!: wp_bind_cons [OF identitySnapshot_ok [OF observed_refl]] refuse)
qed

text \<open>A reissue never locks a member out. However it ends, nothing was disabled unless the new
  invitation had been asked for before, and one that returns has asked for it; and when the
  member's address is tagged banned it refuses, with nothing posted and nothing disabled.\<close>

theorem reissue_invites_before_disabling:
  "wp (reissueInvite b email tier) (\<lambda>_. invited_first w)
     (\<lambda>_ v. invited_first w v \<or> emits (\<lambda>c. \<not> disable_call c) w v) w \<and>
   (tagged (w_db w) email Banned \<longrightarrow>
     wp (reissueInvite b email tier) (\<lambda>_ _. False) (\<lambda>_. emits reads w) w)"
proof (intro conjI impI)
  let ?nd = "emits (\<lambda>c. \<not> disable_call c) w"
  have any: "keeps (emits (\<lambda>_. True)) (bindM (rescopeRecords b records covered True) (\<lambda>r.
      bindM (outcome (sendInvite b email url)) (\<lambda>sent. andThen (recordEvent b email action (detail sent)) (ret (res r sent)))))"
    for records covered url action detail and res :: "rescoped \<Rightarrow> exn + unit \<Rightarrow> reissue_result"
    by (intro emits_intros emits_rescope emits_clients) simp_all
  have to: "wp (reissue_to b email t access records) (\<lambda>_. invited_first w) (\<lambda>_ v. invited_first w v \<or> ?nd v) u"
    if "?nd u" for t access records u
    unfolding reissue_to_def Let_def
    by (rule wp_bind_cons [OF wp_emits_from [OF emits_sql_read that]], simp, rule wp_bind_cons [OF wp_issue_posts], assumption)
      (auto intro: wp_cons [OF invited_first_later [OF any]])
  have start: "?nd w" by (simp add: emits_def)
  show "wp (reissueInvite b email tier) (\<lambda>_. invited_first w) (\<lambda>_ v. invited_first w v \<or> ?nd v) w"
  proof (cases "tier_of_name tier = None \<or> publicInviteBase (settings_of b) = []")
    case True
    then show ?thesis using start by (auto simp: reissueInvite_def wp_simps split: option.splits)
  next
    case False
    then obtain t where t: "tier_of_name tier = Some t" "publicInviteBase (settings_of b) \<noteq> []" by auto
    have allowed: "wp (bindM (reissue_scope b t email) (\<lambda>access. reissue_to b email t access records))
        (\<lambda>_. invited_first w) (\<lambda>_ v. invited_first w v \<or> ?nd v) u" if "?nd u" for records u
      by (rule wp_bind_cons [OF wp_emits_from [OF emits_reissue_scope that]]) (auto intro: to)
    show ?thesis
      unfolding reissueInvite_def t option.case if_not_P [OF t(2)]
      by (rule wp_bind_cons [OF wp_emits_from [OF emits_members(2) start]], simp,
          rule wp_bind_cons [OF wp_emits_from [OF emits_members(4)]]) (auto simp: wp_simps intro: allowed [unfolded wp_bindM])
  qed
qed (rule reissue_refused)


theorem reissue_invites_before_disabling_witness:
  "tagged (w_db (world_of (setMemberTag ''a@x'' (Some Banned) empty_db))) ''A@x'' Banned \<and>
   wp (reissueInvite sample_env ''A@x'' ''gold'') (\<lambda>_ _. False)
     (\<lambda>_. emits reads (world_of (setMemberTag ''a@x'' (Some Banned) empty_db))) (world_of (setMemberTag ''a@x'' (Some Banned) empty_db))"
proof -
  have t: "tagged (w_db (world_of (setMemberTag ''a@x'' (Some Banned) empty_db))) ''A@x'' Banned" by code_simp
  then show ?thesis
    using reissue_invites_before_disabling [of sample_env "''A@x''" "''gold''" "world_of (setMemberTag ''a@x'' (Some Banned) empty_db)"]
    by blast
qed

subsection \<open>The link route over the store\<close>

lemma star_links_iff: "distinct_keys links \<Longrightarrow> star_links links \<longleftrightarrow> (\<forall>p d. map_of links p = Some d \<longrightarrow> map_of links d = None)"
  unfolding star_links_def by (auto simp: map_of_iff map_of_eq_None_iff)

lemma all_links_lookup: "distinct_keys (member_links d) \<Longrightarrow> map_of (allMemberLinks d) = map_of (member_links d)"
  using decoded_lookup [of "member_links d" Some] by (auto simp: allMemberLinks_def keyed_all_decoded js_map_distinct fun_eq_iff)

lemma all_links_after:
  assumes "distinct_keys (member_links d)"
  shows "map_of (allMemberLinks (setMemberLink s v d)) =
    (map_of (allMemberLinks d))(toLowerCase s := map_option toLowerCase v)"
proof -
  have "distinct_keys (member_links (setMemberLink s v d))"
    using assms by (simp add: setMemberLink_def keyed_set_distinct)
  then show ?thesis
    using assms by (simp add: all_links_lookup) (simp add: setMemberLink_def keyed_set_def split: option.splits)
qed

lemma conflict_nonempty: "nonempty (memberLinkConflict links s p) = memberLinkConflict links s p"
  by (auto simp: memberLinkConflict_def Let_def nonempty_def split: option.splits prod.splits)

text \<open>C31: The link route keeps the stored links stars. Whatever two addresses an admin sends, and whether
  or not the store takes the write, no address ends up both paying for somebody and being paid for;
  a link that is answered is stored, under the addresses trimmed and in lower case, and a refused
  one changes nothing.\<close>

theorem stored_links_stay_stars:
  assumes "distinct_keys (member_links (w_db w))" "star_links (allMemberLinks (w_db w))"
  shows "wp (linkAddress b stripeEmail plexEmail)
    (\<lambda>r v. star_links (allMemberLinks (w_db v)) \<and>
       map_of (allMemberLinks (w_db v)) (toLowerCase (trim stripeEmail)) =
         (case nonempty plexEmail of Some p \<Rightarrow> Some (toLowerCase (trim p)) | None \<Rightarrow> None))
    (\<lambda>_ v. allMemberLinks (w_db v) = allMemberLinks (w_db w)) w"
proof -
  let ?s = "toLowerCase (trim stripeEmail)" and ?p = "map_option (\<lambda>p. toLowerCase (trim p)) (nonempty plexEmail)"
  let ?d = "setMemberLink ?s ?p (w_db w)"
  let ?L = "allMemberLinks (w_db w)"
  have dk: "distinct_keys ?L" "distinct_keys (allMemberLinks ?d)" by (simp_all add: allMemberLinks_def keyed_all_def)
  have now: "map_of (allMemberLinks ?d) = (map_of ?L)(?s := ?p)"
    using all_links_after [OF assms(1), of ?s ?p] by (simp add: option.map_comp comp_def)
  have star: "star_links (allMemberLinks ?d)" if "memberLinkConflict ?L ?s ?p = None"
  proof (cases ?p)
    case None
    then show ?thesis
      unfolding star_links_iff [OF dk(2)] using assms(2) now by (auto simp: star_links_iff dk(1))
  next
    case (Some d)
    have "star_links (map_put ?s d ?L)" using that [unfolded Some] link_accepted_iff [of ?L ?s d] by blast
    moreover have "distinct_keys (map_put ?s d ?L)" using dk(1) by simp
    moreover have "map_of (allMemberLinks ?d) = map_of (map_put ?s d ?L)" using now unfolding Some by simp
    ultimately show ?thesis using star_links_iff [OF dk(2)] star_links_iff [of "map_put ?s d ?L"] by metis
  qed
  have event: "wp (record_link b s p) (\<lambda>_ v. allMemberLinks (w_db v) = allMemberLinks (w_db u)) (\<lambda>_ _. False) u" for s p u
  proof -
    have "keeps (same_table allMemberLinks) (record_link b s p)"
      unfolding record_link_def by (intro table_intros) (simp_all add: allMemberLinks_def append_event_def)
    moreover have "never_throws (record_link b s p)"
      unfolding record_link_def by (auto intro!: never_throws_intros split: option.splits)
    ultimately show ?thesis
      using wp_conj [OF wp_same [of allMemberLinks _ u]] unfolding never_throws_def by (blast intro: wp_cons)
  qed
  show ?thesis
    using star now
    by (auto simp: linkAddress_def Let_def wp_simps conflict_nonempty split: option.split
        intro!: wp_cons [OF event])
qed

theorem stored_links_stay_stars_witness:
  "wp (linkAddress sample_env ''B@x '' (Some ''p@x''))
    (\<lambda>r v. star_links (allMemberLinks (w_db v)) \<and>
       map_of (allMemberLinks (w_db v)) (toLowerCase (trim ''B@x '')) =
         (case nonempty (Some ''p@x'') of Some p \<Rightarrow> Some (toLowerCase (trim p)) | None \<Rightarrow> None))
    (\<lambda>_ v. allMemberLinks (w_db v) = allMemberLinks (w_db (world_of (setMemberLink ''a@x'' (Some ''p@x'') empty_db))))
    (world_of (setMemberLink ''a@x'' (Some ''p@x'') empty_db))"
  by (rule stored_links_stay_stars; code_simp)


subsection \<open>Resetting an expiry\<close>

text \<open>What a reset may answer for the expiry it set.\<close>

definition expiry_answers :: "(string \<Rightarrow> bool) \<Rightarrow> int option \<Rightarrow> string option \<Rightarrow> string option \<Rightarrow> bool" where
  "expiry_answers iso_datetime days expiresAt expires \<longleftrightarrow> (case (expiresAt, days) of
       (Some text, _) \<Rightarrow> iso_datetime text \<and> expires = absoluteExpiry iso_datetime text \<and> expires \<noteq> None
     | (None, Some _) \<Rightarrow> (\<exists>t. expires = Some (isoformat t) \<and> 1 \<le> utc_year t \<and> utc_year t \<le> 9999)
     | (None, None) \<Rightarrow> expires = None)"

fun sets_expiry :: "string option \<Rightarrow> call \<Rightarrow> bool" where
  "sets_expiry expires (WizarrCall (PutExpiry _ e)) = (e = expires)"
| "sets_expiry expires c = reads c"

lemma reads_sets_expiry [simp]: "reads c \<Longrightarrow> sets_expiry expires c"
proof -
  have "wizarr_read req \<Longrightarrow> sets_expiry expires (WizarrCall req)" for req by (cases req) simp_all
  then show "reads c \<Longrightarrow> ?thesis" by (cases c) simp_all
qed

lemma wp_expiryFor: "wp (expiryFor iso_datetime b days expiresAt)
    (\<lambda>(expires, _) v. expiry_answers iso_datetime days expiresAt expires \<and> emits reads w v) (\<lambda>_. emits reads w) u"
  if "emits reads w u"
  using that
  by (auto simp: expiryFor_def daysFromNow_def Let_def wp_simps expiry_answers_def absoluteExpiry_def emits_logged
      split: option.splits sum.splits if_splits)

text \<open>A reset sets what was asked or nothing at all. Every expiry it sends is the one it answers: the
  absolute time asked for, a time so many days on that lies within the years 1 to 9999, or none;
  a time that does not parse, or a span that leaves those years, is refused with no expiry sent.\<close>

theorem reset_expiry_is_what_was_asked:
  "wp (resetExpiry iso_datetime b email days expiresAt)
     (\<lambda>r v. expiry_answers iso_datetime days expiresAt (xr_expires r) \<and> 0 < xr_updated r \<and>
        emits (sets_expiry (xr_expires r)) w v)
     (\<lambda>_ v. emits reads w v \<or> (\<exists>expires. expiry_answers iso_datetime days expiresAt expires \<and> emits (sets_expiry expires) w v)) w"
proof -
  let ?E = "\<lambda>v. emits reads w v \<or> (\<exists>expires. expiry_answers iso_datetime days expiresAt expires \<and> emits (sets_expiry expires) w v)"
  have find: "wp (findUsersByEmail b email) (\<lambda>_. emits reads w) (\<lambda>_. emits reads w) w"
    by (intro wp_emits emits_clients) simp
  have set: "wp (andThen (eachInOrder (\<lambda>u. setExpiry b u expires) ids) (andThen (recordEvent b email ''Expiry reset'' detail) (ret r)))
      (\<lambda>x v. x = r \<and> emits (sets_expiry expires) w v) (\<lambda>_. emits (sets_expiry expires) w) u"
    if "emits reads w u" for expires ids detail u and r :: expiry_result
  proof -
    let ?m = "andThen (eachInOrder (\<lambda>u. setExpiry b u expires) ids) (andThen (recordEvent b email ''Expiry reset'' detail) (ret r))"
    have "emits (sets_expiry expires) w u" using that by (rule emits_mono) simp
    then have "wp ?m (\<lambda>_. emits (sets_expiry expires) w) (\<lambda>_. emits (sets_expiry expires) w) u"
      by (intro wp_emits_from emits_intros emits_clients) simp_all
    moreover have "wp ?m (\<lambda>x _. x = r) (\<lambda>_ _. True) u"
      unfolding wp_andThen wp_ret by (rule wp_cons [OF wp_true], rule wp_cons [OF wp_true]) auto
    ultimately show ?thesis by (rule wp_cons [OF wp_conj]) auto
  qed
  show ?thesis
    unfolding resetExpiry_def Let_def
    by (rule wp_bind_cons [OF find], auto simp: wp_throw intro!: wp_bind_cons [OF wp_expiryFor])
      (auto intro!: wp_cons [OF set])
qed

end
