(* ===== verification/SerialQueue.thy ===== *)
theory SerialQueue imports Effects begin

text \<open>
  The runner that takes webhook deliveries one at a time (\<open>serialQueue\<close> in
  \<open>apps/stripe-bridge/src/webhook/webhookController.ts\<close>), over the promises it is written
  with. A promise is a cell that is settled at most once and holds the reactions chained on it; a reaction of a
  settled promise is a microtask, and microtasks run in the order they were queued. A job is an
  \<open>async\<close> function: calling it answers a fresh promise, which the outside world settles whenever it
  likes, even before the call has been adopted. Deliveries arrive between any two microtasks.
\<close>

subsection \<open>Promises\<close>

text \<open>How a promise settled: with an error, or with a value, none being \<open>undefined\<close>.\<close>

type_synonym 'v settlement = "exn + 'v option"

text \<open>What \<open>then\<close> was handed for one way a promise can settle.\<close>

datatype 'j handler = Job 'j | Undefined | Absent

record 'j reaction =
  re_fulfilled :: "'j handler"
  re_rejected :: "'j handler"
  re_derived :: nat

record ('j, 'v) promise =
  pr_state :: "'v settlement option"
  pr_reactions :: "'j reaction list"

datatype ('j, 'v) microtask =
    React "'j handler" "'v settlement" nat   \<comment> \<open>run a handler and settle the derived promise\<close>
  | Adopt nat nat   \<comment> \<open>chain the second promise on the first, which a handler returned\<close>

datatype ('j, 'v) moment = Started 'j | Finished 'j "'v settlement"

text \<open>The runtime: the promises by number, the microtasks queued, the jobs that were called and are not
  settled, each with its promise, what happened so far, and the runner's variable \<open>tail\<close>.\<close>

record ('j, 'v) runtime =
  rt_cells :: "nat \<Rightarrow> ('j, 'v) promise"
  rt_next :: nat
  rt_tasks :: "('j, 'v) microtask list"
  rt_running :: "('j \<times> nat) list"
  rt_log :: "('j, 'v) moment list"
  rt_tail :: nat

definition pending :: "('j, 'v) promise" where
  "pending = \<lparr>pr_state = None, pr_reactions = []\<rparr>"

definition settled_as :: "'v settlement \<Rightarrow> ('j, 'v) promise" where
  "settled_as s = \<lparr>pr_state = Some s, pr_reactions = []\<rparr>"

definition react :: "'j reaction \<Rightarrow> 'v settlement \<Rightarrow> ('j, 'v) microtask" where
  "react re s = React (case s of Inr _ \<Rightarrow> re_fulfilled re | Inl _ \<Rightarrow> re_rejected re) s (re_derived re)"

definition react_on :: "nat \<Rightarrow> 'j reaction \<Rightarrow> ('j, 'v) runtime \<Rightarrow> ('j, 'v) runtime" where
  "react_on p re rt = (case pr_state (rt_cells rt p) of
     Some s \<Rightarrow> rt\<lparr>rt_tasks := rt_tasks rt @ [react re s]\<rparr>
   | None \<Rightarrow> rt\<lparr>rt_cells := (rt_cells rt)(p := (rt_cells rt p)\<lparr>pr_reactions := pr_reactions (rt_cells rt p) @ [re]\<rparr>)\<rparr>)"

definition promise_then :: "nat \<Rightarrow> 'j handler \<Rightarrow> 'j handler \<Rightarrow> ('j, 'v) runtime \<Rightarrow> nat \<times> ('j, 'v) runtime" where
  \<comment> \<open>\<open>p.then(onFulfilled, onRejected)\<close>, with the promise it answers\<close>
  "promise_then p onFulfilled onRejected rt = (let d = rt_next rt in
     (d, react_on p \<lparr>re_fulfilled = onFulfilled, re_rejected = onRejected, re_derived = d\<rparr>
        (rt\<lparr>rt_next := Suc d, rt_cells := (rt_cells rt)(d := pending)\<rparr>)))"

definition settle_promise :: "nat \<Rightarrow> 'v settlement \<Rightarrow> ('j, 'v) runtime \<Rightarrow> ('j, 'v) runtime" where
  "settle_promise p s rt = (case pr_state (rt_cells rt p) of
     Some _ \<Rightarrow> rt
   | None \<Rightarrow> rt\<lparr>rt_cells := (rt_cells rt)(p := settled_as s),
       rt_tasks := rt_tasks rt @ map (\<lambda>re. react re s) (pr_reactions (rt_cells rt p))\<rparr>)"

definition start_job :: "'j \<Rightarrow> nat \<Rightarrow> ('j, 'v) runtime \<Rightarrow> ('j, 'v) runtime" where
  \<comment> \<open>the call \<open>job()\<close>: its promise is adopted by the one that \<open>then\<close> answered\<close>
  "start_job j d rt = (let q = rt_next rt in
     rt\<lparr>rt_next := Suc q, rt_cells := (rt_cells rt)(q := pending), rt_running := rt_running rt @ [(j, q)],
       rt_log := rt_log rt @ [Started j], rt_tasks := rt_tasks rt @ [Adopt q d]\<rparr>)"

fun run_task :: "('j, 'v) microtask \<Rightarrow> ('j, 'v) runtime \<Rightarrow> ('j, 'v) runtime" where
  "run_task (React Absent s d) rt = settle_promise d s rt"
| "run_task (React Undefined s d) rt = settle_promise d (Inr None) rt"
| "run_task (React (Job j) s d) rt = start_job j d rt"
| "run_task (Adopt q d) rt = react_on q \<lparr>re_fulfilled = Absent, re_rejected = Absent, re_derived = d\<rparr> rt"

definition microtick :: "('j, 'v) runtime \<Rightarrow> ('j, 'v) runtime" where
  "microtick rt = (case rt_tasks rt of [] \<Rightarrow> rt | t # ts \<Rightarrow> run_task t (rt\<lparr>rt_tasks := ts\<rparr>))"

definition settle_job :: "'j \<Rightarrow> nat \<Rightarrow> 'v settlement \<Rightarrow> ('j, 'v) runtime \<Rightarrow> ('j, 'v) runtime" where
  \<comment> \<open>a job that was called comes to its end\<close>
  "settle_job j q s rt = settle_promise q s
     (rt\<lparr>rt_running := filter (\<lambda>e. e \<noteq> (j, q)) (rt_running rt), rt_log := rt_log rt @ [Finished j s]\<rparr>)"

subsection \<open>The runner\<close>

definition serialQueue :: "('j, 'v) runtime" where
  \<comment> \<open>\<open>let tail = Promise.resolve()\<close>, promise 0\<close>
  "serialQueue = \<lparr>rt_cells = (\<lambda>_. pending)(0 := settled_as (Inr None)), rt_next = 1, rt_tasks = [], rt_running = [],
     rt_log = [], rt_tail = 0\<rparr>"

definition serially :: "'j \<Rightarrow> ('j, 'v) runtime \<Rightarrow> nat \<times> ('j, 'v) runtime" where
  \<comment> \<open>the function \<open>serialQueue()\<close> answers, and the promise it hands its caller\<close>
  "serially job rt =
     (let (run, rt1) = promise_then (rt_tail rt) (Job job) Absent rt;
          (chained, rt2) = promise_then run Undefined Undefined rt1
      in (run, rt2\<lparr>rt_tail := chained\<rparr>))"

text \<open>One step of the process, with the deliveries it submits: each the job and the promise its caller waits on.\<close>

inductive queue_step :: "('j, 'v) runtime \<Rightarrow> ('j \<times> nat) list \<Rightarrow> ('j, 'v) runtime \<Rightarrow> bool" where
  arrives: "serially j rt = (run, rt') \<Longrightarrow> queue_step rt [(j, run)] rt'"
| ticks: "queue_step rt [] (microtick rt)"
| settles: "(j, q) \<in> set (rt_running rt) \<Longrightarrow> queue_step rt [] (settle_job j q s rt)"

inductive queue_run :: "('j \<times> nat) list \<Rightarrow> ('j, 'v) runtime \<Rightarrow> bool" where
  created: "queue_run [] serialQueue"
| step: "queue_run subs rt \<Longrightarrow> queue_step rt new rt' \<Longrightarrow> queue_run (subs @ new) rt'"

subsection \<open>The chain\<close>

text \<open>A submitted delivery: its job, the promise its caller waits on, and the tail chained on that.\<close>

type_synonym 'j entry = "'j \<times> nat \<times> nat"

definition on_tail :: "'j \<Rightarrow> nat \<Rightarrow> 'j reaction" where
  "on_tail j run = \<lparr>re_fulfilled = Job j, re_rejected = Absent, re_derived = run\<rparr>"

definition on_run :: "nat \<Rightarrow> 'j reaction" where
  "on_run chained = \<lparr>re_fulfilled = Undefined, re_rejected = Undefined, re_derived = chained\<rparr>"

definition passed_on :: "nat \<Rightarrow> 'j reaction" where
  "passed_on run = \<lparr>re_fulfilled = Absent, re_rejected = Absent, re_derived = run\<rparr>"

definition awaited :: "'j reaction \<Rightarrow> ('j, 'v) promise" where
  "awaited re = \<lparr>pr_state = None, pr_reactions = [re]\<rparr>"

text \<open>The deliveries that wait, each chained on the tail of the one before it.\<close>

fun linked :: "(nat \<Rightarrow> ('j, 'v) promise) \<Rightarrow> nat \<Rightarrow> 'j entry list \<Rightarrow> bool" where
  "linked c p [] \<longleftrightarrow> c p = pending"
| "linked c p ((j, run, chained) # ws) \<longleftrightarrow>
     c p = awaited (on_tail j run) \<and> c run = awaited (on_run chained) \<and> linked c chained ws"

fun end_of :: "nat \<Rightarrow> 'j entry list \<Rightarrow> nat" where
  "end_of p [] = p"
| "end_of p ((j, run, chained) # ws) = end_of chained ws"

fun ids :: "'j entry list \<Rightarrow> nat list" where
  "ids [] = []"
| "ids ((j, run, chained) # ws) = run # chained # ids ws"

lemma ids_append [simp]: "ids (xs @ ys) = ids xs @ ids ys"
  by (induction xs rule: ids.induct) simp_all

lemma end_of_in: "end_of p ws = p \<and> ws = [] \<or> end_of p ws \<in> set (ids ws)"
  by (induction p ws rule: end_of.induct) auto

lemma linked_cong: "linked c p ws \<Longrightarrow> (\<And>x. x = p \<or> x \<in> set (ids ws) \<Longrightarrow> c' x = c x) \<Longrightarrow> linked c' p ws"
  by (induction c p ws rule: linked.induct) auto

lemma linked_end: "linked c p ws \<Longrightarrow> c (end_of p ws) = pending"
  by (induction c p ws rule: linked.induct) auto

lemma linked_snoc:
  assumes "linked c p ws" "distinct (p # ids ws)" "c' (end_of p ws) = awaited (on_tail j run)"
    and "c' run = awaited (on_run chained)" "c' chained = pending"
    and "\<And>x. x = p \<or> x \<in> set (ids ws) \<Longrightarrow> x \<noteq> end_of p ws \<Longrightarrow> c' x = c x"
  shows "linked c' p (ws @ [(j, run, chained)])"
  using assms
proof (induction c p ws rule: linked.induct)
  case (2 c p i r t ws)
  have e: "end_of t ws \<noteq> p" "end_of t ws \<noteq> r"
    using end_of_in [of t ws] 2(3) by auto
  then have "c' p = c p" "c' r = c r" using 2(7) by auto
  moreover have "linked c' t (ws @ [(j, run, chained)])"
    by (rule 2(1)) (use 2 in auto)
  ultimately show ?case using 2(2) by simp
qed simp

text \<open>How far the delivery at the head of the chain has got.\<close>

datatype 'v phase =
    Starting                        \<comment> \<open>its turn has come\<close>
  | Begun nat                       \<comment> \<open>called; its promise is not adopted yet\<close>
  | Early nat "'v settlement"       \<comment> \<open>settled before it was adopted\<close>
  | Working nat
  | Passing "'v settlement"         \<comment> \<open>settled; the caller is not told yet\<close>
  | Ending "'v settlement"          \<comment> \<open>the caller is told; the tail is not settled yet\<close>

fun at_phase :: "'v phase \<Rightarrow> 'j entry \<Rightarrow> ('j, 'v) runtime \<Rightarrow> bool" where
  "at_phase Starting (j, r, t) rt \<longleftrightarrow>
     rt_tasks rt = [React (Job j) (Inr None) r] \<and> rt_running rt = [] \<and> rt_cells rt r = awaited (on_run t)"
| "at_phase (Begun q) (j, r, t) rt \<longleftrightarrow>
     rt_tasks rt = [Adopt q r] \<and> rt_running rt = [(j, q)] \<and> rt_cells rt q = pending \<and> rt_cells rt r = awaited (on_run t)"
| "at_phase (Early q s) (j, r, t) rt \<longleftrightarrow>
     rt_tasks rt = [Adopt q r] \<and> rt_running rt = [] \<and> rt_cells rt q = settled_as s \<and> rt_cells rt r = awaited (on_run t)"
| "at_phase (Working q) (j, r, t) rt \<longleftrightarrow>
     rt_tasks rt = [] \<and> rt_running rt = [(j, q)] \<and> rt_cells rt q = awaited (passed_on r) \<and> rt_cells rt r = awaited (on_run t)"
| "at_phase (Passing s) (j, r, t) rt \<longleftrightarrow>
     rt_tasks rt = [React Absent s r] \<and> rt_running rt = [] \<and> rt_cells rt r = awaited (on_run t)"
| "at_phase (Ending s) (j, r, t) rt \<longleftrightarrow>
     rt_tasks rt = [React Undefined s t] \<and> rt_running rt = [] \<and> rt_cells rt r = settled_as s"

fun own :: "'v phase \<Rightarrow> nat list" where
  "own (Begun q) = [q]" | "own (Early q s) = [q]" | "own (Working q) = [q]" | "own _ = []"

fun phase_log :: "'v phase \<Rightarrow> 'j \<Rightarrow> ('j, 'v) moment list" where
  "phase_log Starting j = []"
| "phase_log (Begun q) j = [Started j]"
| "phase_log (Working q) j = [Started j]"
| "phase_log (Early q s) j = [Started j, Finished j s]"
| "phase_log (Passing s) j = [Started j, Finished j s]"
| "phase_log (Ending s) j = [Started j, Finished j s]"

text \<open>What happened when the jobs given ran one after the other.\<close>

definition in_turn :: "('j \<times> 'v settlement) list \<Rightarrow> ('j, 'v) moment list" where
  "in_turn finished = concat (map (\<lambda>(j, s). [Started j, Finished j s]) finished)"

type_synonym ('j, 'v) ended = "('j entry \<times> 'v settlement) list"

definition callers_told :: "('j, 'v) runtime \<Rightarrow> ('j, 'v) ended \<Rightarrow> bool" where
  \<comment> \<open>the callers of the deliveries that ended know how\<close>
  "callers_told rt ended \<longleftrightarrow> (\<forall>(e, s)\<in>set ended. rt_cells rt (fst (snd e)) = settled_as s)"

definition ran :: "('j, 'v) ended \<Rightarrow> ('j \<times> 'v settlement) list" where
  "ran ended = map (\<lambda>(e, s). (fst e, s)) ended"

definition idle :: "('j, 'v) runtime \<Rightarrow> ('j, 'v) ended \<Rightarrow> bool" where
  "idle rt ended \<longleftrightarrow> rt_tasks rt = [] \<and> rt_running rt = [] \<and> rt_log rt = in_turn (ran ended) \<and>
     rt_cells rt (rt_tail rt) = settled_as (Inr None) \<and> rt_tail rt < rt_next rt \<and> callers_told rt ended \<and>
     distinct (ids (map fst ended)) \<and> (\<forall>x\<in>set (ids (map fst ended)). x < rt_next rt)"

definition active :: "('j, 'v) runtime \<Rightarrow> ('j, 'v) ended \<Rightarrow> 'v phase \<Rightarrow> 'j entry \<Rightarrow> 'j entry list \<Rightarrow> bool" where
  "active rt ended ph e ws \<longleftrightarrow> at_phase ph e rt \<and> linked (rt_cells rt) (snd (snd e)) ws \<and>
     rt_log rt = in_turn (ran ended) @ phase_log ph (fst e) \<and> rt_tail rt = end_of (snd (snd e)) ws \<and> callers_told rt ended \<and>
     distinct (ids (map fst ended) @ ids (e # ws) @ own ph) \<and>
     (\<forall>x\<in>set (ids (map fst ended) @ ids (e # ws) @ own ph). x < rt_next rt)"

subsection \<open>Arrivals\<close>

lemma serially_pending:
  assumes "rt_cells rt (rt_tail rt) = pending" "rt_tail rt < rt_next rt"
  shows "serially j rt = (rt_next rt, rt\<lparr>rt_next := Suc (Suc (rt_next rt)), rt_tail := Suc (rt_next rt),
    rt_cells := (rt_cells rt)(rt_tail rt := awaited (on_tail j (rt_next rt)),
      rt_next rt := awaited (on_run (Suc (rt_next rt))), Suc (rt_next rt) := pending)\<rparr>)"
  using assms
  by (auto simp: serially_def promise_then_def react_on_def pending_def awaited_def on_tail_def on_run_def Let_def fun_eq_iff
      intro!: runtime.equality)

lemma serially_settled:
  assumes "rt_cells rt (rt_tail rt) = settled_as (Inr v)" "rt_tail rt < rt_next rt"
  shows "serially j rt = (rt_next rt, rt\<lparr>rt_next := Suc (Suc (rt_next rt)), rt_tail := Suc (rt_next rt),
    rt_tasks := rt_tasks rt @ [React (Job j) (Inr v) (rt_next rt)],
    rt_cells := (rt_cells rt)(rt_next rt := awaited (on_run (Suc (rt_next rt))), Suc (rt_next rt) := pending)\<rparr>)"
  using assms
  by (auto simp: serially_def promise_then_def react_on_def settled_as_def react_def pending_def awaited_def on_run_def Let_def fun_eq_iff
      intro!: runtime.equality)

lemma told_later:
  assumes "callers_told rt ended" "\<And>x. x \<in> set (ids (map fst ended)) \<Longrightarrow> rt_cells rt' x = rt_cells rt x"
  shows "callers_told rt' ended"
proof -
  have "fst (snd e) \<in> set (ids (map fst ended))" if "(e, s) \<in> set ended" for e s
    using that by (induction ended) auto
  then show ?thesis using assms unfolding callers_told_def by fastforce
qed

lemma arrives_idle:
  assumes "idle rt ended" "serially j rt = (run, rt')"
  shows "\<exists>chained. active rt' ended Starting (j, run, chained) []"
proof -
  let ?n = "rt_next rt"
  have rt': "run = ?n" "rt' = rt\<lparr>rt_next := Suc (Suc ?n), rt_tail := Suc ?n,
    rt_tasks := rt_tasks rt @ [React (Job j) (Inr None) ?n],
    rt_cells := (rt_cells rt)(?n := awaited (on_run (Suc ?n)), Suc ?n := pending)\<rparr>"
    using assms serially_settled [of rt None j] by (auto simp: idle_def)
  have "callers_told rt' ended"
    by (rule told_later [of rt]) (use assms(1) rt' in \<open>auto simp: idle_def\<close>)
  then have "active rt' ended Starting (j, run, Suc ?n) []"
    using assms(1) rt' by (auto simp: active_def idle_def)
  then show ?thesis by blast
qed

lemma at_phase_cells:
  assumes "at_phase ph (j, r, t) rt" "rt_tasks rt' = rt_tasks rt" "rt_running rt' = rt_running rt"
    and "\<And>x. x = r \<or> x \<in> set (own ph) \<Longrightarrow> rt_cells rt' x = rt_cells rt x"
  shows "at_phase ph (j, r, t) rt'"
  using assms by (cases ph) auto

lemma arrives_active:
  assumes "active rt ended ph e ws" "serially j rt = (run, rt')"
  shows "\<exists>chained. active rt' ended ph e (ws @ [(j, run, chained)])"
proof -
  obtain i r t where e: "e = (i, r, t)" by (cases e)
  let ?n = "rt_next rt"
  have tail: "rt_tail rt = end_of t ws" "rt_cells rt (rt_tail rt) = pending"
    using assms(1) e linked_end by (auto simp: active_def)
  have live: "distinct (ids (map fst ended) @ r # t # ids ws @ own ph)"
    "\<And>x. x \<in> set (ids (map fst ended) @ r # t # ids ws @ own ph) \<Longrightarrow> x < ?n"
    using assms(1) e by (auto simp: active_def)
  have last: "rt_tail rt \<in> set (t # ids ws)" using end_of_in [of t ws] tail(1) by auto
  then have below: "rt_tail rt < ?n" using live(2) by auto
  have rt': "run = ?n" "rt' = rt\<lparr>rt_next := Suc (Suc ?n), rt_tail := Suc ?n,
    rt_cells := (rt_cells rt)(rt_tail rt := awaited (on_tail j ?n), ?n := awaited (on_run (Suc ?n)), Suc ?n := pending)\<rparr>"
    using assms(2) serially_pending [OF tail(2) below, of j] by auto
  have same: "rt_cells rt' x = rt_cells rt x" if "x \<noteq> rt_tail rt" "x < ?n" for x
    using that rt' by simp
  have others: "x \<noteq> rt_tail rt" if "x \<in> set (ids (map fst ended) @ r # own ph)" for x
    using that live(1) last by auto
  have "callers_told rt' ended"
    by (rule told_later [of rt]) (use assms(1) in \<open>simp add: active_def\<close>, intro same others live(2), simp_all)
  moreover have "at_phase ph (i, r, t) rt'"
  proof (rule at_phase_cells [of ph i r t rt])
    show "at_phase ph (i, r, t) rt" using assms(1) e by (simp add: active_def)
    show "rt_cells rt' x = rt_cells rt x" if "x = r \<or> x \<in> set (own ph)" for x
      using that by (intro same others live(2)) auto
  qed (simp_all add: rt')
  moreover have "linked (rt_cells rt') t (ws @ [(j, run, Suc ?n)])"
  proof (rule linked_snoc [of "rt_cells rt"])
    show "linked (rt_cells rt) t ws" using assms(1) e by (simp add: active_def)
    show "distinct (t # ids ws)" using live(1) by simp
    show "rt_cells rt' x = rt_cells rt x" if "x = t \<or> x \<in> set (ids ws)" "x \<noteq> end_of t ws" for x
      using that tail(1) live(2) by (intro same) auto
  qed (use rt' tail below in auto)
  moreover have "end_of t (ws @ [(j, run, Suc ?n)]) = Suc ?n"
    by (induction t ws rule: end_of.induct) auto
  ultimately have "active rt' ended ph (i, r, t) (ws @ [(j, run, Suc ?n)])"
    using assms(1) e rt' live by (fastforce simp: active_def)
  then show ?thesis using e by blast
qed

subsection \<open>Microtasks and settlements\<close>

lemma active_moves:
  assumes "active rt ended ph (j, r, t) ws" "at_phase ph' (j, r, t) rt'"
    and "rt_log rt' = in_turn (ran ended) @ phase_log ph' j" "rt_tail rt' = rt_tail rt" "rt_next rt \<le> rt_next rt'"
    and "distinct (own ph')" "\<And>q. q \<in> set (own ph') \<Longrightarrow> q \<in> set (own ph) \<or> rt_next rt \<le> q \<and> q < rt_next rt'"
    and "\<And>x. x \<in> set (ids (map fst ended) @ t # ids ws) \<Longrightarrow> rt_cells rt' x = rt_cells rt x"
  shows "active rt' ended ph' (j, r, t) ws"
proof -
  have live: "distinct (ids (map fst ended) @ r # t # ids ws @ own ph)"
    "\<And>x. x \<in> set (ids (map fst ended) @ r # t # ids ws @ own ph) \<Longrightarrow> x < rt_next rt"
    using assms(1) by (auto simp: active_def)
  have fresh: "q \<notin> set (ids (map fst ended) @ r # t # ids ws)" "q < rt_next rt'" if "q \<in> set (own ph')" for q
    using assms(7) [OF that] assms(5) live by fastforce+
  have "callers_told rt' ended"
    by (rule told_later [of rt]) (use assms(1) in \<open>simp add: active_def\<close>, rule assms(8), simp)
  moreover have "linked (rt_cells rt') t ws"
    by (rule linked_cong [of "rt_cells rt"]) (use assms(1) in \<open>simp add: active_def\<close>, rule assms(8), auto)
  moreover have "distinct (ids (map fst ended) @ ids ((j, r, t) # ws) @ own ph')"
    using live(1) fresh(1) assms(6) by auto
  moreover have "x < rt_next rt'" if "x \<in> set (ids (map fst ended) @ ids ((j, r, t) # ws) @ own ph')" for x
    using that fresh(2) live(2) [of x] assms(5) by fastforce
  ultimately show ?thesis
    using assms(1-4) by (simp add: active_def)
qed

lemma active_live:
  assumes "active rt ended ph (j, r, t) ws"
  shows "distinct (ids (map fst ended) @ r # t # ids ws @ own ph)"
    "\<forall>x\<in>set (ids (map fst ended) @ r # t # ids ws @ own ph). x < rt_next rt"
    "at_phase ph (j, r, t) rt" "rt_log rt = in_turn (ran ended) @ phase_log ph j"
  using assms by (auto simp: active_def)

lemma tick_active:
  assumes "active rt ended ph (j, r, t) ws"
  shows "ph = Starting \<Longrightarrow> active (microtick rt) ended (Begun (rt_next rt)) (j, r, t) ws"
    "ph = Begun q \<Longrightarrow> active (microtick rt) ended (Working q) (j, r, t) ws"
    "ph = Early q s \<Longrightarrow> active (microtick rt) ended (Passing s) (j, r, t) ws"
    "ph = Working q \<Longrightarrow> microtick rt = rt"
    "ph = Passing s \<Longrightarrow> active (microtick rt) ended (Ending s) (j, r, t) ws"
  using active_live [OF assms]
  by (auto simp: microtick_def start_job_def react_on_def react_def settle_promise_def pending_def settled_as_def awaited_def
      passed_on_def on_run_def Let_def split: sum.split intro!: active_moves [OF assms])

lemma settle_active:
  assumes "active rt ended ph (j, r, t) ws" "(i, q) \<in> set (rt_running rt)"
  shows "ph = Begun q \<and> active (settle_job i q s rt) ended (Early q s) (j, r, t) ws \<or>
    ph = Working q \<and> active (settle_job i q s rt) ended (Passing s) (j, r, t) ws"
  using active_live [OF assms(1)] assms(2)
  by (cases ph) (auto simp: settle_job_def settle_promise_def react_def pending_def settled_as_def awaited_def
      passed_on_def on_run_def Let_def split: sum.split intro!: active_moves [OF assms(1)])

lemma tick_ending:
  assumes "active rt ended (Ending s) (j, r, t) ws"
  shows "ws = [] \<Longrightarrow> idle (microtick rt) (ended @ [((j, r, t), s)])"
    "ws = (i, r', t') # later \<Longrightarrow> active (microtick rt) (ended @ [((j, r, t), s)]) Starting (i, r', t') later"
proof -
  have inv: "distinct (ids (map fst ended) @ r # t # ids ws)" "\<forall>x\<in>set (ids (map fst ended) @ r # t # ids ws). x < rt_next rt"
    "rt_tasks rt = [React Undefined s t]" "rt_running rt = []" "rt_cells rt r = settled_as s" "linked (rt_cells rt) t ws"
    "rt_log rt = in_turn (ran ended) @ [Started j, Finished j s]" "rt_tail rt = end_of t ws" "callers_told rt ended"
    using assms by (auto simp: active_def)
  have log: "in_turn (ran (ended @ [((j, r, t), s)])) = rt_log rt" using inv(7) by (simp add: in_turn_def ran_def)
  have callers_told: "callers_told (rt\<lparr>rt_tasks := ts, rt_cells := (rt_cells rt)(t := c)\<rparr>) (ended @ [((j, r, t), s)])" for c ts
  proof -
    have "callers_told (rt\<lparr>rt_tasks := ts, rt_cells := (rt_cells rt)(t := c)\<rparr>) ended"
      by (rule told_later [OF inv(9)]) (use inv(1) in auto)
    then show ?thesis using inv(1,5) by (auto simp: callers_told_def)
  qed
  show "idle (microtick rt) (ended @ [((j, r, t), s)])" if "ws = []"
  proof -
    have "microtick rt = rt\<lparr>rt_tasks := [], rt_cells := (rt_cells rt)(t := settled_as (Inr None))\<rparr>"
      using inv(3,6) that by (simp add: microtick_def settle_promise_def pending_def)
    then show ?thesis using inv that log callers_told by (auto simp: idle_def)
  qed
  show "active (microtick rt) (ended @ [((j, r, t), s)]) Starting (i, r', t') later" if ws: "ws = (i, r', t') # later"
  proof -
    have t: "microtick rt = rt\<lparr>rt_tasks := [React (Job i) (Inr None) r'], rt_cells := (rt_cells rt)(t := settled_as (Inr None))\<rparr>"
      using inv(3,6) ws by (simp add: microtick_def settle_promise_def awaited_def react_def on_tail_def)
    have "linked (rt_cells (microtick rt)) t' later"
      by (rule linked_cong [of "rt_cells rt"]) (use inv(1,6) ws t in auto)
    then show ?thesis using inv ws log callers_told t by (auto simp: active_def)
  qed
qed

text \<open>The deliveries submitted are those that ended, the one at the head of the chain and those that wait.\<close>

definition callers :: "'j entry list \<Rightarrow> ('j \<times> nat) list" where
  "callers es = map (\<lambda>(j, run, chained). (j, run)) es"

definition queue_inv :: "('j \<times> nat) list \<Rightarrow> ('j, 'v) runtime \<Rightarrow> bool" where
  "queue_inv subs rt \<longleftrightarrow> (\<exists>ended. idle rt ended \<and> subs = callers (map fst ended) \<or>
     (\<exists>ph e ws. active rt ended ph e ws \<and> subs = callers (map fst ended @ e # ws)))"

lemma queue_invI:
  "idle rt ended \<Longrightarrow> subs = callers (map fst ended) \<Longrightarrow> queue_inv subs rt"
  "active rt ended ph e ws \<Longrightarrow> subs = callers (map fst ended @ e # ws) \<Longrightarrow> queue_inv subs rt"
  unfolding queue_inv_def by blast+

lemma queue_inv_cases:
  assumes "queue_inv subs rt"
  obtains (idle) ended where "idle rt ended" "subs = callers (map fst ended)"
    | (active) ended ph j r t ws where "active rt ended ph (j, r, t) ws" "subs = callers (map fst ended @ (j, r, t) # ws)"
  using assms unfolding queue_inv_def by (metis prod_cases3)

lemma tick_idle: "idle rt ended \<Longrightarrow> microtick rt = rt"
  by (simp add: idle_def microtick_def)

lemma queue_inv_tick:
  assumes "queue_inv subs rt"
  shows "queue_inv subs (microtick rt)"
  using assms
proof (cases rule: queue_inv_cases)
  case (idle ended)
  then show ?thesis using tick_idle queue_invI(1) by metis
next
  case (active ended ph j r t ws)
  show ?thesis
  proof (cases ph)
    case (Ending s)
    note fin = tick_ending [OF active(1) [unfolded Ending]]
    show ?thesis
    proof (cases ws)
      case Nil
      then show ?thesis using queue_invI(1) [OF fin(1)] active(2) by (simp add: callers_def)
    next
      case (Cons e later)
      obtain i r' t' where "e = (i, r', t')" by (cases e)
      then show ?thesis using queue_invI(2) [OF fin(2)] Cons active(2) by (simp add: callers_def)
    qed
  qed (use tick_active [OF active(1)] queue_invI(2) [OF _ active(2)] assms in \<open>auto\<close>)
qed

lemma queue_inv_step:
  assumes "queue_inv subs rt" "queue_step rt new rt'"
  shows "queue_inv (subs @ new) rt'"
  using assms(2)
proof (cases rule: queue_step.cases)
  case (arrives j run)
  from assms(1) show ?thesis
  proof (cases rule: queue_inv_cases)
    case (idle ended)
    then show ?thesis using arrives_idle [OF idle(1) arrives(2)] arrives(1) queue_invI(2)
      by (fastforce simp: callers_def)
  next
    case (active ended ph i r t ws)
    then show ?thesis using arrives_active [OF active(1) arrives(2)] arrives(1) queue_invI(2)
      by (fastforce simp: callers_def)
  qed
next
  case ticks
  then show ?thesis using queue_inv_tick [OF assms(1)] by simp
next
  case (settles i q s)
  from assms(1) show ?thesis
  proof (cases rule: queue_inv_cases)
    case (idle ended)
    then show ?thesis using settles by (simp add: idle_def)
  next
    case (active ended ph j r t ws)
    obtain ph' where "active rt' ended ph' (j, r, t) ws"
      using settle_active [OF active(1) settles(3), of s] settles(2) by blast
    from queue_invI(2) [OF this active(2)] show ?thesis using settles(1) by simp
  qed
qed

lemma queue_run_inv: "queue_run subs rt \<Longrightarrow> queue_inv subs rt"
proof (induction rule: queue_run.induct)
  case created
  have "idle serialQueue []" by (simp add: idle_def serialQueue_def in_turn_def ran_def callers_told_def)
  then show ?case by (rule queue_invI) (simp add: callers_def)
qed (rule queue_inv_step)

subsection \<open>Coming to rest\<close>

text \<open>No microtask is queued: the runner is idle, or the job at the head of the chain is at work.\<close>

definition at_rest :: "('j \<times> nat) list \<Rightarrow> ('j, 'v) runtime \<Rightarrow> bool" where
  "at_rest subs rt \<longleftrightarrow> (\<exists>ended. idle rt ended \<and> subs = callers (map fst ended) \<or>
     (\<exists>q e ws. active rt ended (Working q) e ws \<and> subs = callers (map fst ended @ e # ws)))"

definition settles_within :: "nat \<Rightarrow> ('j \<times> nat) list \<Rightarrow> ('j, 'v) runtime \<Rightarrow> bool" where
  "settles_within k subs rt \<longleftrightarrow> (\<exists>n\<le>k. at_rest subs ((microtick ^^ n) rt))"

lemma settles_now: "at_rest subs rt \<Longrightarrow> settles_within k subs rt"
  unfolding settles_within_def by (intro exI [of _ 0]) simp

lemma settles_tick: "settles_within k subs (microtick rt) \<Longrightarrow> settles_within (Suc k) subs rt"
  unfolding settles_within_def by (metis Suc_le_mono funpow_Suc_right o_apply)

lemma begun_settles:
  assumes "active rt ended (Begun q) (j, r, t) ws" "subs = callers (map fst ended @ (j, r, t) # ws)"
  shows "settles_within (Suc k) subs rt"
proof (rule settles_tick, rule settles_now)
  have "active (microtick rt) ended (Working q) (j, r, t) ws" using tick_active(2) [OF assms(1)] by simp
  then show "at_rest subs (microtick rt)" unfolding at_rest_def using assms(2) by blast
qed

lemma starting_settles:
  assumes "active rt ended Starting (j, r, t) ws" "subs = callers (map fst ended @ (j, r, t) # ws)"
  shows "settles_within (Suc (Suc k)) subs rt"
  by (rule settles_tick, rule begun_settles [OF _ assms(2)]) (use tick_active(1) [OF assms(1)] in simp)

lemma ending_settles:
  assumes "active rt ended (Ending s) (j, r, t) ws" "subs = callers (map fst ended @ (j, r, t) # ws)"
  shows "settles_within (Suc (Suc (Suc k))) subs rt"
proof (rule settles_tick)
  show "settles_within (Suc (Suc k)) subs (microtick rt)"
  proof (cases ws)
    case Nil
    have "at_rest subs (microtick rt)"
      using tick_ending(1) [OF assms(1) Nil] assms(2) Nil unfolding at_rest_def
      by (intro exI [of _ "ended @ [((j, r, t), s)]"] disjI1) (simp add: callers_def)
    then show ?thesis by (rule settles_now)
  next
    case (Cons e later)
    obtain i r' t' where e: "e = (i, r', t')" by (cases e)
    show ?thesis
      by (rule starting_settles [OF tick_ending(2) [OF assms(1) Cons [unfolded e]]]) (simp add: assms(2) Cons e)
  qed
qed

lemma comes_to_rest:
  assumes "queue_inv subs rt"
  shows "settles_within 5 subs rt"
  using assms
proof (cases rule: queue_inv_cases)
  case (idle ended)
  then show ?thesis by (intro settles_now) (auto simp: at_rest_def)
next
  case (active ended ph j r t ws)
  note start = starting_settles [OF _ active(2)] begun_settles [OF _ active(2)]
  have ending: "settles_within (Suc (Suc (Suc k))) subs u" if "active u ended (Ending s) (j, r, t) ws" for u s k
    using ending_settles [OF that active(2)] .
  have passing: "settles_within (Suc (Suc (Suc (Suc k)))) subs u" if "active u ended (Passing s) (j, r, t) ws" for u s k
    by (rule settles_tick, rule ending, rule tick_active(5) [OF that]) simp
  have early: "settles_within (Suc (Suc (Suc (Suc (Suc k))))) subs rt" if "ph = Early q s" for q s k
    by (rule settles_tick, rule passing, rule tick_active(3) [OF active(1) that])
  have five: "5 = Suc (Suc (Suc (Suc (Suc 0))))" by simp
  show ?thesis
  proof (cases ph)
    case (Working q)
    then have "at_rest subs rt" using active unfolding at_rest_def by blast
    then show ?thesis by (rule settles_now)
  qed (use active(1) start ending passing early in \<open>simp_all add: five\<close>)
qed

text \<open>What a queue at rest looks like from outside.\<close>

lemma told_callers:
  "callers_told rt ended \<Longrightarrow> list_all2 (\<lambda>(_, run) (_, s). pr_state (rt_cells rt run) = Some s) (callers (map fst ended)) (ran ended)"
  by (induction ended) (auto simp: callers_def ran_def callers_told_def settled_as_def)

lemma fst_ran: "map fst (ran ended) = map fst (callers (map fst ended))"
  by (auto simp: ran_def callers_def)

lemma rest_facts:
  assumes "at_rest subs rt"
  shows "\<exists>finished waiting. rt_tasks rt = [] \<and> length (rt_running rt) \<le> 1 \<and>
    map fst subs = map fst finished @ map fst (rt_running rt) @ waiting \<and> (rt_running rt = [] \<longrightarrow> waiting = []) \<and>
    rt_log rt = in_turn finished @ map Started (map fst (rt_running rt)) \<and>
    list_all2 (\<lambda>(_, run) (_, s). pr_state (rt_cells rt run) = Some s) (take (length finished) subs) finished"
proof -
  have cut: "take (length (ran ended)) (callers (map fst ended) @ more) = callers (map fst ended)" for ended :: "('a, 'b) ended" and more
    by (simp add: ran_def callers_def)
  from assms consider ended where "idle rt ended" "subs = callers (map fst ended)"
    | ended q j r t ws where "active rt ended (Working q) (j, r, t) ws" "subs = callers (map fst ended @ (j, r, t) # ws)"
    unfolding at_rest_def by (metis prod_cases3)
  then show ?thesis
  proof cases
    case 1
    then show ?thesis
      using cut [of ended "[]"] told_callers [of rt ended]
      by (intro exI [of _ "ran ended"] exI [of _ "[]"]) (simp add: idle_def fst_ran)
  next
    case 2
    then show ?thesis
      using cut [of ended "callers ((j, r, t) # ws)"] told_callers [of rt ended]
      by (intro exI [of _ "ran ended"] exI [of _ "map fst (callers ws)"]) (simp add: active_def fst_ran callers_def)
  qed
qed

lemma order_facts:
  assumes "queue_inv subs rt"
  shows "\<exists>finished running waiting. map fst subs = map fst finished @ running @ waiting \<and> length running \<le> 1 \<and>
    rt_log rt = in_turn finished @ map Started running"
  using assms
proof (cases rule: queue_inv_cases)
  case (idle ended)
  then show ?thesis by (intro exI [of _ "ran ended"] exI [of _ "[]"]) (simp add: idle_def fst_ran)
next
  case (active ended ph j r t ws)
  let ?later = "map fst (callers ws)"
  have log: "rt_log rt = in_turn (ran ended) @ phase_log ph j" using active(1) by (simp add: active_def)
  have subs: "map fst subs = map fst (ran ended) @ j # ?later" by (simp add: active(2) fst_ran callers_def)
  have fin: ?thesis if "phase_log ph j = [Started j, Finished j s]" for s
    by (intro exI [of _ "ran ended @ [(j, s)]"] exI [of _ "[]"] exI [of _ ?later]) (simp add: log subs that in_turn_def)
  have cur: ?thesis if "phase_log ph j = [Started j]"
    by (intro exI [of _ "ran ended"] exI [of _ "[j]"] exI [of _ ?later]) (simp add: log subs that)
  have new: ?thesis if "phase_log ph j = []"
    by (intro exI [of _ "ran ended"] exI [of _ "[]"] exI [of _ "j # ?later"]) (simp add: log subs that)
  consider s where "phase_log ph j = [Started j, Finished j s]" | "phase_log ph j = [Started j]" | "phase_log ph j = []"
    by (cases ph) auto
  then show ?thesis by cases (erule fin cur new)+
qed

subsection \<open>Deliveries\<close>

text \<open>C5: Webhook deliveries run one at a time, in the order they came. However arrivals, microtasks
  and the ends of jobs interleave, the jobs that were started and ended did so one after the other, in the order
  submitted, and at most one more was started after them: no job is called before the one ahead of it
  settled. No failure blocks the queue and none reaches another caller: at most five microtasks later, with nothing
  arriving, no microtask is left, every caller whose job ended has been told how that very job
  ended, error or value, and a delivery waits only while another one's job is still at work.\<close>

theorem deliveries_run_in_order:
  assumes "queue_run subs rt"
  shows "(\<exists>finished running waiting. map fst subs = map fst finished @ running @ waiting \<and> length running \<le> 1 \<and>
      rt_log rt = in_turn finished @ map Started running) \<and>
    (\<exists>n\<le>5. \<exists>u finished waiting. u = (microtick ^^ n) rt \<and> rt_tasks u = [] \<and> length (rt_running u) \<le> 1 \<and>
      map fst subs = map fst finished @ map fst (rt_running u) @ waiting \<and> (rt_running u = [] \<longrightarrow> waiting = []) \<and>
      rt_log u = in_turn finished @ map Started (map fst (rt_running u)) \<and>
      list_all2 (\<lambda>(_, run) (_, s). pr_state (rt_cells u run) = Some s) (take (length finished) subs) finished)"
proof
  have inv: "queue_inv subs rt" using assms by (rule queue_run_inv)
  show "\<exists>finished running waiting. map fst subs = map fst finished @ running @ waiting \<and> length running \<le> 1 \<and>
      rt_log rt = in_turn finished @ map Started running"
    using inv by (rule order_facts)
  obtain n where n: "n \<le> 5" "at_rest subs ((microtick ^^ n) rt)"
    using comes_to_rest [OF inv] by (auto simp: settles_within_def)
  show "\<exists>n\<le>5. \<exists>u finished waiting. u = (microtick ^^ n) rt \<and> rt_tasks u = [] \<and> length (rt_running u) \<le> 1 \<and>
      map fst subs = map fst finished @ map fst (rt_running u) @ waiting \<and> (rt_running u = [] \<longrightarrow> waiting = []) \<and>
      rt_log u = in_turn finished @ map Started (map fst (rt_running u)) \<and>
      list_all2 (\<lambda>(_, run) (_, s). pr_state (rt_cells u run) = Some s) (take (length finished) subs) finished"
    using rest_facts [OF n(2)] by (intro exI [of _ n] conjI n(1) exI [of _ "(microtick ^^ n) rt"]) simp
qed

text \<open>Two deliveries, the first of which fails before its promise has been adopted.\<close>

definition failed_delivery :: "(string, nat) runtime" where
  "failed_delivery = settle_job ''a'' 5 (Inl (Failure ''wizarr'')) (microtick (snd (serially ''b'' (snd (serially ''a'' serialQueue)))))"

lemmas runtime_defs = serialQueue_def serially_def promise_then_def react_on_def react_def settle_promise_def settle_job_def
  start_job_def microtick_def pending_def settled_as_def Let_def

lemma arrives_next: "queue_run subs rt \<Longrightarrow> rt_next rt = n \<Longrightarrow> queue_run (subs @ [(j, n)]) (snd (serially j rt))"
  by (erule queue_run.step, rule queue_step.arrives) (auto simp: serially_def promise_then_def Let_def split: prod.split)

lemma failed_delivery_runs: "queue_run [(''a'', 1), (''b'', 3)] failed_delivery"
proof -
  have "queue_run ([] @ [(''a'', 1)]) (snd (serially ''a'' (serialQueue :: (string, nat) runtime)))"
    by (rule arrives_next [OF queue_run.created]) code_simp
  then have "queue_run (([] @ [(''a'', 1)]) @ [(''b'', 3)]) (snd (serially ''b'' (snd (serially ''a'' (serialQueue :: (string, nat) runtime)))))"
    by (rule arrives_next) code_simp
  from queue_run.step [OF this queue_step.ticks]
  have "queue_run [(''a'', 1), (''b'', 3)] (microtick (snd (serially ''b'' (snd (serially ''a'' (serialQueue :: (string, nat) runtime))))))"
    by simp
  moreover have "(''a'', 5) \<in> set (rt_running (microtick (snd (serially ''b'' (snd (serially ''a'' (serialQueue :: (string, nat) runtime)))))))"
    by code_simp
  ultimately show ?thesis
    unfolding failed_delivery_def using queue_run.step [OF _ queue_step.settles] by fastforce
qed




definition failed_ends :: "(string, nat) ended" where
  "failed_ends = [((''a'', 1, 2), Inl (Failure ''wizarr''))]"

lemma failed_delivery_rests: "\<exists>q. active ((microtick ^^ 5) failed_delivery) failed_ends (Working q) (''b'', 3, 4) []"
proof -
  have "active failed_delivery [] (Early 5 (Inl (Failure ''wizarr''))) (''a'', 1, 2) [(''b'', 3, 4)]"
    by (simp add: active_def in_turn_def ran_def callers_told_def awaited_def on_tail_def on_run_def failed_delivery_def runtime_defs)
  from tick_ending(2) [OF tick_active(5) [OF tick_active(3) [OF this refl] refl] refl]
  have "active (microtick (microtick (microtick failed_delivery))) failed_ends Starting (''b'', 3, 4) []" by (simp add: failed_ends_def)
  from tick_active(2) [OF tick_active(1) [OF this refl] refl]
  have "\<exists>q. active (microtick (microtick (microtick (microtick (microtick failed_delivery))))) failed_ends (Working q) (''b'', 3, 4) []" by (rule exI)
  moreover have "(microtick ^^ 5) rt = microtick (microtick (microtick (microtick (microtick rt))))" for rt :: "(string, nat) runtime"
    by (simp add: eval_nat_numeral)
  ultimately show ?thesis by simp
qed

theorem deliveries_run_in_order_witness:
  "(\<exists>n\<le>5. \<exists>u finished waiting. u = (microtick ^^ n) failed_delivery \<and> rt_tasks u = [] \<and> length (rt_running u) \<le> 1 \<and>
      map fst [(''a'', 1 :: nat), (''b'', 3)] = map fst finished @ map fst (rt_running u) @ waiting \<and>
      (rt_running u = [] \<longrightarrow> waiting = []) \<and>
      rt_log u = in_turn finished @ map Started (map fst (rt_running u)) \<and>
      list_all2 (\<lambda>(_, run) (_, s). pr_state (rt_cells u run) = Some s) (take (length finished) [(''a'', 1), (''b'', 3)]) finished) \<and>
    rt_log ((microtick ^^ 5) failed_delivery) = [Started ''a'', Finished ''a'' (Inl (Failure ''wizarr'')), Started ''b''] \<and>
    pr_state (rt_cells ((microtick ^^ 5) failed_delivery) 1) = Some (Inl (Failure ''wizarr''))"
proof (intro conjI)
  obtain q where "active ((microtick ^^ 5) failed_delivery) failed_ends (Working q) (''b'', 3, 4) []"
    using failed_delivery_rests by blast
  then show "rt_log ((microtick ^^ 5) failed_delivery) = [Started ''a'', Finished ''a'' (Inl (Failure ''wizarr'')), Started ''b'']"
    "pr_state (rt_cells ((microtick ^^ 5) failed_delivery) 1) = Some (Inl (Failure ''wizarr''))"
    by (simp_all add: active_def in_turn_def ran_def callers_told_def settled_as_def failed_ends_def)
qed (rule deliveries_run_in_order [OF failed_delivery_runs, THEN conjunct2])

end
