(* ===== verification/Webhook.thy ===== *)
theory Webhook imports Handlers SerialQueue begin

text \<open>
  The webhook route (\<open>apps/stripe-bridge/src/webhook/webhookController.ts\<close>); the runner it hands every
  verified event to, one delivery at a time, is in \<open>SerialQueue\<close>. Stripe's signature check and the JSON
  parser are parameters: \<open>verify\<close> answers nothing for a good signature, and otherwise what was thrown
  and whether it is a signature error.
\<close>

subsection \<open>The route\<close>

definition webhook :: "(string \<Rightarrow> string option \<Rightarrow> (exn \<times> bool) option) \<Rightarrow> (string \<Rightarrow> exn + json) \<Rightarrow>
    env \<Rightarrow> string option \<Rightarrow> string option \<Rightarrow> unit run" where
  "webhook verify parse b rawBody signature = (let payload = option_text '''' rawBody in
     case verify payload signature of
       Some (e, is_signature_error) \<Rightarrow> throw (if is_signature_error then HttpErr 400 ''invalid signature'' else e)
     | None \<Rightarrow> bindM (liftE (parse payload)) (handleEvent b))"

text \<open>C4: A copy of an event that was handled does nothing, and an unsigned one never starts. Delivering the
  same signed bytes again after a delivery that returned asks for nothing but the processed check and
  changes no table; a payload whose signature does not verify is a 400 before anything is asked for.\<close>

theorem redelivery_does_nothing:
  assumes "parse payload = Inr event" "event_id event = Some eventId"
  shows "wp (webhook verify parse b (Some payload) signature)
    (\<lambda>_ v. wp (webhook verify parse b (Some payload) signature) (\<lambda>_ u. u = logged SqlUnit v) (\<lambda>_ u. u = logged SqlUnit v) v)
    (\<lambda>_ _. True) w \<and>
   (verify payload signature = Some (e, True) \<longrightarrow>
      webhook verify parse b (Some payload) signature w = (Inl (HttpErr 400 ''invalid signature''), w))"
proof
  have again: "wp (handleEvent b event) (\<lambda>_ u. u = logged SqlUnit v) (\<lambda>_ u. u = logged SqlUnit v) v"
    if "isEventProcessed eventId (w_db v)" for v
    using that assms(2) by (auto simp: handleEvent_def wp_simps split: option.splits)
  have "wp (handleEvent b event) (\<lambda>_ v. isEventProcessed eventId (w_db v)) (\<lambda>_ _. True) w"
  proof -
    have "wp (andThen (act_on b event) (sql_update b (markEventProcessed eventId)))
        (\<lambda>_ v. isEventProcessed eventId (w_db v)) (\<lambda>_ _. True) u" for u
      unfolding wp_andThen
      by (rule wp_cons [OF wp_true]) (auto simp: wp_simps isEventProcessed_def markEventProcessed_def split: option.splits)
    then show ?thesis
      using assms(2) by (auto simp: handleEvent_def wp_simps isEventProcessed_def split: option.splits)
  qed
  then show "wp (webhook verify parse b (Some payload) signature)
      (\<lambda>_ v. wp (webhook verify parse b (Some payload) signature) (\<lambda>_ u. u = logged SqlUnit v) (\<lambda>_ u. u = logged SqlUnit v) v)
      (\<lambda>_ _. True) w"
    using assms(1) again by (auto simp: webhook_def option_text_def wp_simps split: option.splits elim!: wp_cons)
qed (simp add: webhook_def option_text_def throw_def)

theorem redelivery_does_nothing_witness:
  "wp (webhook (\<lambda>_ _. None) (\<lambda>_. Inr (JObj [(''id'', JStr ''evt_1'')])) sample_env (Some ''{}'') None)
    (\<lambda>_ v. wp (webhook (\<lambda>_ _. None) (\<lambda>_. Inr (JObj [(''id'', JStr ''evt_1'')])) sample_env (Some ''{}'') None)
       (\<lambda>_ u. u = logged SqlUnit v) (\<lambda>_ u. u = logged SqlUnit v) v) (\<lambda>_ _. True) (world_of empty_db) \<and>
   webhook (\<lambda>_ _. Some (Failure ''sig'', True)) (\<lambda>_. Inr (JObj [(''id'', JStr ''evt_1'')])) sample_env (Some ''{}'') None (world_of empty_db) =
     (Inl (HttpErr 400 ''invalid signature''), world_of empty_db)"
proof
  have i: "event_id (JObj [(''id'', JStr ''evt_1'')]) = Some ''evt_1''" by code_simp
  show "wp (webhook (\<lambda>_ _. None) (\<lambda>_. Inr (JObj [(''id'', JStr ''evt_1'')])) sample_env (Some ''{}'') None)
    (\<lambda>_ v. wp (webhook (\<lambda>_ _. None) (\<lambda>_. Inr (JObj [(''id'', JStr ''evt_1'')])) sample_env (Some ''{}'') None)
       (\<lambda>_ u. u = logged SqlUnit v) (\<lambda>_ u. u = logged SqlUnit v) v) (\<lambda>_ _. True) (world_of empty_db)"
    by (rule redelivery_does_nothing [THEN conjunct1]) (rule refl i)+
  show "webhook (\<lambda>_ _. Some (Failure ''sig'', True)) (\<lambda>_. Inr (JObj [(''id'', JStr ''evt_1'')])) sample_env (Some ''{}'') None (world_of empty_db) =
     (Inl (HttpErr 400 ''invalid signature''), world_of empty_db)"
    by (rule redelivery_does_nothing [THEN conjunct2, THEN mp]) (rule refl i)+
qed

end
