(* ===== verification/Sweeps.thy ===== *)
theory Sweeps imports Invites "HOL-Library.Multiset" begin

text \<open>
  The drift alarms of the reconcile loop (\<open>apps/stripe-bridge/src/sweeps.ts\<close>) and the alarm that
  mails once per distinct problem set (\<open>apps/stripe-bridge/src/changeAlert.ts\<close>). An alarm is the
  key it last mailed about; a check takes it and returns what it became. Nothing throws after an
  alarm changed, so a check that throws left it as it was.
\<close>

subsection \<open>The alarm\<close>

type_synonym alarm = "string option"

fun sorted_keys :: "json \<Rightarrow> json" where
  \<comment> \<open>the replacer of \<open>canonicalKey\<close>, applied at every depth\<close>
  "sorted_keys (JObj kvs) = JObj (sort_key fst (map (\<lambda>(k, v). (k, sorted_keys v)) kvs))"
| "sorted_keys (JArr xs) = JArr (map sorted_keys xs)"
| "sorted_keys v = v"

definition canonicalKey :: "json \<Rightarrow> string" where
  "canonicalKey v = stringify (sorted_keys v)"

definition clear_alarm :: "alarm \<Rightarrow> alarm" where
  "clear_alarm prev = None"

definition fire :: "env \<Rightarrow> json \<Rightarrow> alert \<Rightarrow> alarm \<Rightarrow> alarm run" where
  "fire b current a prev = (let key = canonicalKey current in
     if Some key \<noteq> prev then andThen (sendAlert b a) (ret (Some key)) else ret prev)"

record sweep_alerts =
  sa_tierScope :: alarm
  sa_vipAccess :: alarm

definition sweepAlerts :: sweep_alerts where
  "sweepAlerts = \<lparr>sa_tierScope = None, sa_vipAccess = None\<rparr>"

subsection \<open>Payment states\<close>

definition row_status :: "(string \<times> string) list \<Rightarrow> customer_row \<Rightarrow> string option" where
  "row_status byCustomer row = (case row_customer_id row of None \<Rightarrow> None | Some c \<Rightarrow> map_of byCustomer c)"

definition check_payment_state :: "env \<Rightarrow> (string \<times> string) list \<Rightarrow> string \<times> customer_row \<Rightarrow> dunning_finding option run" where
  "check_payment_state b byCustomer = (\<lambda>(email, row).
     let status = row_status byCustomer row in
     case (status, Option.bind status statusRule) of
       (Some status, Some rule) \<Rightarrow>
         if \<not> row_subscribed row \<or> st_payment rule = row_payment_state row then ret None
         else andThen (sql_update b (setPaymentState email (st_payment rule)))
           (case st_payment rule of
              Some _ \<Rightarrow> andThen (recordEvent b email ''Payment failed''
                  (''Stripe reports the subscription '' @ status @ ''; found by the sweep, '' @
                   ''no webhook was received''))
                (bindM (accessLine b (row_customer_id row) email) (\<lambda>line.
                 ret (Some \<lparr>df_email = email, df_status = status, df_line = line\<rparr>)))
            | None \<Rightarrow> andThen (recordEvent b email ''Payment recovered''
                  ''Stripe reports the subscription active again'') (ret None))
     | _ \<Rightarrow> ret None)"

definition checkPaymentStates :: "env \<Rightarrow> string list run" where
  "checkPaymentStates b = bindM (outcome (statusByCustomer b)) (\<lambda>listed. case listed of
       Inl _ \<Rightarrow> ret []
     | Inr byCustomer \<Rightarrow>
         bindM (sql_read b allCustomerRows) (\<lambda>rows.
         bindM (mapInOrder (check_payment_state b byCustomer) rows) (\<lambda>outcomes.
         let found = somes outcomes in
         andThen (whenM (found \<noteq> []) (sendAlert b (dunningSweep found)))
           (ret (map df_email found)))))"

subsection \<open>Standing grants without access\<close>

definition stranded_vips :: "(string \<times> member_tag) list \<Rightarrow> identity_snapshot \<Rightarrow> string list \<Rightarrow> string list" where
  "stranded_vips tags snapshot = filter (\<lambda>email. let ident = personAt snapshot email in
     holdsStandingGrant (standingOver tags ident) \<and> id_records ident = [])"

definition checkVipAccess :: "env \<Rightarrow> alarm \<Rightarrow> (string list \<times> alarm) run" where
  "checkVipAccess b prev = bindM (sql_read b allMemberTags) (\<lambda>tags.
     let vips = sort (map fst (filter (\<lambda>(_, tag). holdsStandingGrant (Some tag)) tags)) in
     if vips = [] then ret ([], clear_alarm prev)
     else bindM (outcome (identitySnapshot b)) (\<lambda>r. case r of
         Inl _ \<Rightarrow> ret ([], prev)
       | Inr snapshot \<Rightarrow>
           let stranded = stranded_vips tags snapshot vips in
           if stranded = [] then ret ([], clear_alarm prev)
           else bindM (fire b (JArr (map JStr stranded)) (vipsWithoutAccess stranded) prev) (\<lambda>after.
             ret (stranded, after))))"

subsection \<open>Tier scopes\<close>

definition scope_problems :: "library list \<Rightarrow> live_sections option \<Rightarrow> (string \<times> string) list" where
  "scope_problems libraries live = js_map (tierScopeProblems libraries @ libraryCacheProblems libraries live)"

definition checkTierScopes :: "env \<Rightarrow> alarm \<Rightarrow> ((string \<times> string) list \<times> alarm) run" where
  "checkTierScopes b prev = bindM (outcome (listLibraries b)) (\<lambda>r. case r of
       Inl _ \<Rightarrow> ret ([], prev)
     | Inr libraries \<Rightarrow> bindM (liveSectionsOrNone b) (\<lambda>live.
         let problems = scope_problems libraries live in
         if problems = [] then ret ([], clear_alarm prev)
         else bindM (fire b (JObj (map (\<lambda>(k, v). (k, JStr v)) problems)) (tierScopes problems) prev) (\<lambda>after.
           ret (problems, after))))"


subsection \<open>The alarm mails once per problem set\<close>

lemma canonicalKey_strings: "canonicalKey (JArr (map JStr xs)) = canonicalKey (JArr (map JStr ys)) \<longleftrightarrow> xs = ys"
proof
  assume eq: "canonicalKey (JArr (map JStr xs)) = canonicalKey (JArr (map JStr ys))"
  have "canonicalKey (JArr (map JStr zs)) = ''['' @ joined '','' (map json_string zs) @ '']''" for zs
    by (simp add: canonicalKey_def comp_def)
  with eq have "joined '','' (map json_string xs) @ '']'' = joined '','' (map json_string ys) @ '']''" by simp
  then show "xs = ys"
    by (intro joined_items [OF json_string_delimits [of UNIV], where close = "CHR '']''" and mark = "CHR '',''"])
      (simp_all add: json_string_def)
qed simp

definition texts :: "(string \<times> string) list \<Rightarrow> json" where
  "texts p = JObj (map (\<lambda>(k, v). (k, JStr v)) p)"

lemma canonicalKey_texts_text: "canonicalKey (texts p) = [CHR 0x7B] @
    joined '','' (map (\<lambda>(k, v). json_string k @ '':'' @ json_string v) (sort_key fst p)) @ [CHR 0x7D]"
  by (simp add: canonicalKey_def texts_def comp_def case_prod_unfold sort_key_map)

lemma canonicalKey_texts:
  assumes "distinct_keys p"
  shows "canonicalKey (texts p) = canonicalKey (texts q) \<longleftrightarrow> mset p = mset q"
proof
  assume "canonicalKey (texts p) = canonicalKey (texts q)"
  then have "joined '','' (map (\<lambda>(k, v). json_string k @ '':'' @ json_string v) (sort_key fst p)) @ [CHR 0x7D] =
      joined '','' (map (\<lambda>(k, v). json_string k @ '':'' @ json_string v) (sort_key fst q)) @ [CHR 0x7D]"
    unfolding canonicalKey_texts_text by simp
  then have "sort_key fst p = sort_key fst q"
    by (intro joined_items [OF delimits_pair [OF json_string_delimits [of UNIV] json_string_delimits [of UNIV], of "'':''"],
          where close = "CHR 0x7D" and mark = "CHR '',''"]) (auto simp: json_string_def split: prod.splits)
  then show "mset p = mset q" by (metis mset_sort)
next
  assume eq: "mset p = mset q"
  have "inj_on fst (set p)" using assms by (simp add: distinct_keys_def distinct_map)
  then have "sort_key fst p = sort_key fst q"
    using eq by (intro sort_key_inj_key_eq) simp_all
  then show "canonicalKey (texts p) = canonicalKey (texts q)" by (simp add: canonicalKey_texts_text)
qed


text \<open>A history of sweeps as the alarm sees them: each found nothing, or a set with its alert.\<close>

fun alarm_history :: "env \<Rightarrow> (json \<times> alert) option list \<Rightarrow> alarm \<Rightarrow> alarm run" where
  "alarm_history b [] prev = ret prev"
| "alarm_history b (None # rest) prev = alarm_history b rest (clear_alarm prev)"
| "alarm_history b (Some (current, a) # rest) prev = bindM (fire b current a prev) (alarm_history b rest)"

text \<open>What a sweep finds, and what the one before it found.\<close>

definition found_key :: "(json \<times> alert) option \<Rightarrow> string option" where
  "found_key p = map_option (\<lambda>(current, _). canonicalKey current) p"

definition before :: "alarm \<Rightarrow> (json \<times> alert) option list \<Rightarrow> nat \<Rightarrow> string option" where
  "before prev ps i = (if i = 0 then prev else found_key (ps ! (i - 1)))"

definition due :: "alarm \<Rightarrow> (json \<times> alert) option list \<Rightarrow> alert list" where
  "due prev ps = map (\<lambda>i. snd (the (ps ! i)))
     (filter (\<lambda>i. ps ! i \<noteq> None \<and> found_key (ps ! i) \<noteq> before prev ps i) [0..<length ps])"

lemma due_Cons: "due prev (p # ps) =
    (if p \<noteq> None \<and> found_key p \<noteq> prev then [snd (the p)] else []) @ due (found_key p) ps"
proof -
  have idx: "[0..<Suc (length ps)] = 0 # map Suc [0..<length ps]"
    by (simp add: upt_conv_Cons map_Suc_upt del: upt_Suc)
  have "before prev (p # ps) (Suc i) = before (found_key p) ps i" for i
    by (cases i) (simp_all add: before_def)
  then show ?thesis by (simp add: due_def idx filter_map comp_def before_def del: upt_Suc)
qed

lemma wp_fire [wp_simps]: "wp (fire b current a prev) Q E w =
    (if Some (canonicalKey current) = prev \<or> alert_addresses b = [] then Q (Some (canonicalKey current)) w
     else Q (Some (canonicalKey current)) (logged (MailCall (alert_message b a)) w))"
  by (auto simp: fire_def sendAlert_def Let_def wp_simps split: option.splits)

text \<open>An alarm mails once per distinct problem set, not once per sweep. Over any history of
  sweeps, the alerts mailed are those of the sweeps that found a set whose key differs from what the
  sweep before found, in order, and nothing else is asked for; so a standing set is mailed once, and
  a changed set, or one that came back after a clear sweep, is mailed again.\<close>

theorem alarm_mails_each_change_once:
  "wp (alarm_history b ps prev)
     (\<lambda>_ w'. w' = w\<lparr>w_trace := w_trace w @
        (if alert_addresses b = [] then [] else map (\<lambda>a. MailCall (alert_message b a)) (due prev ps))\<rparr>)
     (\<lambda>_ _. False) w"
proof (induction ps arbitrary: prev w)
  case Nil
  then show ?case by (simp add: wp_simps due_def)
next
  case (Cons p ps)
  show ?case
  proof (cases p)
    case None
    then show ?thesis using Cons.IH [of None w]
      by (cases "alert_addresses b = []") (simp_all add: due_Cons clear_alarm_def found_key_def)
  next
    case (Some q)
    obtain current a where q: "q = (current, a)" by (cases q)
    let ?w = "logged (MailCall (alert_message b a)) w"
    show ?thesis
      using Cons.IH [of "Some (canonicalKey current)" w] Cons.IH [of "Some (canonicalKey current)" ?w] Some q
      by (cases "alert_addresses b = []") (auto simp: wp_simps due_Cons found_key_def logged_def)
  qed
qed

text \<open>The alarm's key tells problem sets apart and nothing else: two lists of stranded members have
  the same key just when they are the same list, and two sets of broken tiers just when they hold the
  same entries, in whatever order they were built.\<close>

theorem alarm_key_is_the_set:
  "(canonicalKey (JArr (map JStr xs)) = canonicalKey (JArr (map JStr ys)) \<longleftrightarrow> xs = ys) \<and>
   (distinct_keys p \<longrightarrow> canonicalKey (texts p) = canonicalKey (texts q) \<longleftrightarrow> mset p = mset q)"
  using canonicalKey_strings canonicalKey_texts by blast

theorem alarm_key_is_the_set_witness:
  "canonicalKey (texts [(''youth'', ''gone''), (''gold'', ''renamed'')]) =
     canonicalKey (texts [(''gold'', ''renamed''), (''youth'', ''gone'')])"
  using alarm_key_is_the_set [of "[]" "[]" "[(''youth'', ''gone''), (''gold'', ''renamed'')]"
      "[(''gold'', ''renamed''), (''youth'', ''gone'')]"] by (simp add: distinct_keys_def)


subsection \<open>The sweep mirrors Stripe's dunning state\<close>

text \<open>What a listing says of a subscribed member's customer, and the row that follows it.\<close>

definition reported_rule :: "(string \<times> string) list \<Rightarrow> customer_row \<Rightarrow> status_rule option" where
  "reported_rule listing row = (if row_subscribed row
     then Option.bind (row_status listing row) statusRule else None)"

definition settled :: "(string \<times> string) list \<Rightarrow> customer_row \<Rightarrow> customer_row" where
  "settled listing row = (case reported_rule listing row of
     Some rule \<Rightarrow> row\<lparr>row_payment_state := st_payment rule\<rparr> | None \<Rightarrow> row)"

definition newly_failing :: "(string \<times> string) list \<Rightarrow> customer_row \<Rightarrow> bool" where
  "newly_failing listing row \<longleftrightarrow> (case reported_rule listing row of
     Some rule \<Rightarrow> st_payment rule \<noteq> None \<and> st_payment rule \<noteq> row_payment_state row | None \<Rightarrow> False)"

abbreviation rows_of :: "world \<Rightarrow> string \<Rightarrow> customer_row option" where
  "rows_of w \<equiv> map_of (allCustomerRows (w_db w))"

lemma rows_after_state: "map_of (allCustomerRows (setPaymentState email state d)) =
    (\<lambda>k. if k = toLowerCase email then map_option (\<lambda>r. r\<lparr>row_payment_state := state\<rparr>) (map_of (allCustomerRows d) k)
      else map_of (allCustomerRows d) k)"
proof -
  have "customerRowOf (r\<lparr>cm_payment_state := state_text state\<rparr>) = (customerRowOf r)\<lparr>row_payment_state := state\<rparr>" for r
    by (cases state) (auto simp: customerRowOf_def state_text_def split: payment_state.splits)
  then show ?thesis unfolding setPaymentState_def
    by (intro ext row_after_update) simp_all
qed

lemma rows_after_event [simp]: "allCustomerRows (append_event at email action detail d) = allCustomerRows d"
  by (simp add: allCustomerRows_def append_event_def)

lemma wp_check_payment_state:
  assumes "rows_of w email = Some row" "toLowerCase email = email"
  shows "wp (check_payment_state b listing (email, row))
    (\<lambda>out v. rows_of v = (rows_of w)(email \<mapsto> settled listing row) \<and>
       map_option df_email out = (if newly_failing listing row then Some email else None)) (\<lambda>_ _. True) w"
proof (cases "reported_rule listing row")
  case None
  then show ?thesis
    using assms by (auto simp: check_payment_state_def Let_def reported_rule_def wp_simps settled_def newly_failing_def
        split: option.splits if_splits)
next
  case (Some rule)
  then obtain status where st: "row_status listing row = Some status"
    "statusRule status = Some rule" "row_subscribed row"
    by (auto simp: reported_rule_def bind_eq_Some_conv split: if_splits)
  show ?thesis
  proof (cases "st_payment rule = row_payment_state row")
    case True
    moreover from this have "row\<lparr>row_payment_state := st_payment rule\<rparr> = row" by simp
    ultimately show ?thesis
      using st assms Some by (auto simp: check_payment_state_def Let_def wp_simps settled_def newly_failing_def)
  next
    case False
    have rows: "map_of (allCustomerRows (setPaymentState email (st_payment rule) (w_db w))) =
        (rows_of w)(email \<mapsto> settled listing row)"
      using assms by (auto simp: rows_after_state settled_def Some fun_eq_iff)
    have rest: "wp (recordEvent b email action detail) (\<lambda>_ v. rows_of v = map_of (allCustomerRows d)) (\<lambda>_ _. True) u"
      "wp (accessLine b c email) (\<lambda>_ v. rows_of v = map_of (allCustomerRows d)) (\<lambda>_ _. True) u"
      if "allCustomerRows (w_db u) = allCustomerRows d" for u action detail d c
      using wp_same [of allCustomerRows "recordEvent b email action detail" u, OF table_recordEvent]
        wp_same [of allCustomerRows "accessLine b c email" u, OF table_members(7)] that
      by (auto elim: wp_cons)
    have w1: "allCustomerRows (w_db (logged SqlUnit (w\<lparr>w_db := d\<rparr>))) = allCustomerRows d" for d by simp
    show ?thesis
    proof (cases "st_payment rule")
      case None
      then show ?thesis
        using st False Some rows
        by (auto simp: check_payment_state_def Let_def wp_simps newly_failing_def split: option.splits
            intro!: wp_cons [OF rest(1) [OF w1]])
    next
      case (Some p)
      let ?R = "\<lambda>v. rows_of v = (rows_of w)(email \<mapsto> settled listing row)"
      have line: "?R u \<Longrightarrow> wp (accessLine b (row_customer_id row) email) (\<lambda>_. ?R) (\<lambda>_ _. True) u" for u
        using wp_same [of "\<lambda>d. map_of (allCustomerRows d)" "accessLine b (row_customer_id row) email" u, OF table_members(7)]
        by (auto elim: wp_cons)
      show ?thesis
        using st False \<open>reported_rule listing row = Some rule\<close> rest(1) [OF w1] rows Some
        by (auto simp: check_payment_state_def Let_def wp_simps newly_failing_def split: option.splits
            intro!: wp_cons [OF rest(1) [OF w1]] wp_cons [OF line])
    qed
  qed
qed


lemma wp_check_all:
  assumes "distinct_keys rows" "\<forall>(email, row)\<in>set rows. rows_of w email = Some row \<and> toLowerCase email = email"
  shows "wp (mapInOrder (check_payment_state b listing) rows)
    (\<lambda>outs v. rows_of v = (\<lambda>k. case map_of rows k of Some row \<Rightarrow> Some (settled listing row) | None \<Rightarrow> rows_of w k) \<and>
       map df_email (somes outs) = map fst (filter (\<lambda>(_, row). newly_failing listing row) rows)) (\<lambda>_ _. True) w"
  using assms
proof (induction rows arbitrary: w)
  case Nil
  then show ?case by (simp add: wp_simps somes_def)
next
  case (Cons p rows)
  obtain email row where p: "p = (email, row)" by (cases p)
  have head: "rows_of w email = Some row" "toLowerCase email = email" using Cons.prems p by auto
  have fresh: "map_of rows email = None" "distinct_keys rows"
    using Cons.prems(1) p by (auto simp: distinct_keys_def map_of_eq_None_iff)
  have rest: "wp (mapInOrder (check_payment_state b listing) rows)
      (\<lambda>outs v. rows_of v = (\<lambda>k. case map_of rows k of Some row \<Rightarrow> Some (settled listing row) | None \<Rightarrow> rows_of u k) \<and>
        map df_email (somes outs) = map fst (filter (\<lambda>(_, row). newly_failing listing row) rows)) (\<lambda>_ _. True) u"
    if "rows_of u = (rows_of w)(email \<mapsto> settled listing row)" for u
    using fresh that Cons.prems(2) p by (intro Cons.IH) (force simp: map_of_eq_None_iff)+
  show ?case
    unfolding p mapInOrder.simps
    by (rule wp_bind_cons [OF wp_check_payment_state [OF head]])
      (use fresh in \<open>auto simp: wp_simps somes_def fun_eq_iff split: option.splits if_splits intro!: wp_cons [OF rest]\<close>)
qed

lemma customer_keys: "(email, row) \<in> set (allCustomerRows d) \<Longrightarrow> toLowerCase email = email"
proof -
  assume "(email, row) \<in> set (allCustomerRows d)"
  then have "email \<in> fst ` set (allCustomerRows d)" by force
  then show ?thesis by (auto simp: allCustomerRows_def keys_js_map CUSTOMER_ORDER_def image_image)
qed

lemma settled_quiet: "\<not> newly_failing listing (settled listing row)"
  by (simp add: newly_failing_def settled_def reported_rule_def row_status_def split: option.splits)

text \<open>The dunning sweep mirrors Stripe. When it returns, either Stripe could not be listed and the
  tables are as they were, or every subscribed member whose customer Stripe reports with a known
  status carries exactly the dunning flag of that status, every other row is unchanged, and the
  members it found are those whose flag it raised: a second sweep on the same answer finds none.\<close>

theorem payment_states_mirror_stripe:
  "wp (checkPaymentStates b)
     (\<lambda>found v. (found = [] \<and> w_db v = w_db w) \<or>
        (\<exists>subs. subscriptions_answer b (w_trace w) (ListSubscriptions None) = Inr subs \<and>
          (let listing = stripeStatusByCustomer (map toSubscription subs) in
           map_of (allCustomerRows (w_db v)) = (\<lambda>k. map_option (settled listing) (map_of (allCustomerRows (w_db w)) k)) \<and>
           found = map fst (filter (\<lambda>(_, row). newly_failing listing row) (allCustomerRows (w_db w))) \<and>
           (\<forall>row. \<not> newly_failing listing (settled listing row)))))
     (\<lambda>_ _. True) w"
proof (cases "subscriptions_answer b (w_trace w) (ListSubscriptions None)")
  case (Inl e)
  then show ?thesis by (simp add: checkPaymentStates_def statusByCustomer_def allSubscriptions_def allPages_def wp_simps)
next
  case (Inr subs)
  let ?L = "stripeStatusByCustomer (map toSubscription subs)" and ?rows = "allCustomerRows (w_db w)"
  have all: "distinct_keys ?rows" "\<forall>(email, row)\<in>set ?rows. map_of ?rows email = Some row \<and> toLowerCase email = email"
    using customer_keys by (auto simp: allCustomerRows_def [of "w_db w"] map_of_iff) (simp_all add: allCustomerRows_def)
  have alert: "wp (sendAlert b a) (\<lambda>_ v. rows_of v = rows_of u) (\<lambda>_ _. True) u" for a u
    using wp_same [of "\<lambda>d. map_of (allCustomerRows d)" "sendAlert b a" u, OF table_mail(2)] by (rule wp_cons) auto
  have loop: "wp (mapInOrder (check_payment_state b ?L) ?rows)
      (\<lambda>outs v. rows_of v = (\<lambda>k. map_option (settled ?L) (rows_of w k)) \<and>
        map df_email (somes outs) = map fst (filter (\<lambda>(_, row). newly_failing ?L row) ?rows)) (\<lambda>_ _. True) u"
    if "w_db u = w_db w" for u
    by (rule wp_cons [OF wp_check_all [OF all(1)]]) (use all(2) that in \<open>auto simp: fun_eq_iff split: option.splits\<close>)
  show ?thesis
    using Inr alert settled_quiet
    by (auto simp: checkPaymentStates_def statusByCustomer_def allSubscriptions_def allPages_def wp_simps Let_def
        split: option.splits intro!: wp_cons [OF loop] wp_cons [OF alert])
qed

end
