(* ===== verification/Reconcile.thy ===== *)
theory Reconcile imports AccessSafety begin

text \<open>
  The expiry sweep the reconcile loop runs after its drift alarms
  (\<open>apps/stripe-bridge/src/reconcile.ts\<close>).
\<close>

definition unstampedRecords :: "identity \<Rightarrow> wizarr_user list" where
  "unstampedRecords ident = filter (\<lambda>user. nonempty (usr_expires user) = None) (id_records ident)"

record pending_member =
  pm_email :: string
  pm_row :: customer_row
  pm_identity :: identity

definition paying_customers :: "(string \<times> customer_row) list \<Rightarrow> (string \<times> customer_row) list" where
  "paying_customers = filter (\<lambda>(_, row). row_subscribed row \<and> nonempty (row_invited_at row) \<noteq> None)"

definition pending_members ::
  "(string \<times> member_tag) list \<Rightarrow> identity_snapshot \<Rightarrow> (string \<times> customer_row) list \<Rightarrow> pending_member list" where
  "pending_members tags snapshot rows = concat (map (\<lambda>(email, row).
     let ident = identityFor snapshot (Some email) (row_invite_code row) in
     if isTimeBoxed (standingOver tags ident) then [\<lparr>pm_email = email, pm_row = row, pm_identity = ident\<rparr>] else []) rows)"

definition paid_expiry :: "int \<Rightarrow> int \<Rightarrow> int \<Rightarrow> int" where
  \<comment> \<open>the instant stamped: the anchored one, or the window from now when that has closed\<close>
  "paid_expiry days now invited = (let anchored = addDays invited days in
     if anchored \<le> now then addDays now days else anchored)"

definition stamp_member :: "env \<Rightarrow> int \<Rightarrow> pending_member \<Rightarrow> nat run" where
  "stamp_member b now m = (let records = unstampedRecords (pm_identity m) in
     case nonempty (row_invited_at (pm_row m)) of
       None \<Rightarrow> ret 0
     | Some invited_at \<Rightarrow>
         if records = [] then ret 0
         else bindM (liftE (parseIso invited_at)) (\<lambda>invited.
           let days = accessDays (settings_of b);
               lapsed = addDays invited days \<le> now;
               expires = isoformat (paid_expiry days now invited)
           in andThen (eachInOrder (\<lambda>user. setExpiry b (usr_id user) (Some expires)) records)
             (andThen (recordEvent b (pm_email m) ''Expiry stamped''
                 (if lapsed then ''signup window had already lapsed; re-anchored to '' @ take 10 expires
                  else ''joined with no expiry, set to '' @ take 10 expires))
               (ret (length records)))))"

definition reconcilePendingExpiries :: "env \<Rightarrow> nat run" where
  "reconcilePendingExpiries b =
     bindM (sql_read b allCustomerRows) (\<lambda>customers.
     bindM (sql_read b allMemberTags) (\<lambda>tags.
     let paying = paying_customers customers in
     if paying = [] then ret 0
     else bindM (identitySnapshot b) (\<lambda>snapshot.
       let pending = pending_members tags snapshot paying in
       bindM (readClock b) (\<lambda>now.
       bindM (mapInOrder (stamp_member b now) pending) (\<lambda>counts. ret (sum_list counts))))))"

subsection \<open>Whom the sweep stamps\<close>

lemma paid_expiry_future: "0 < days \<Longrightarrow> now < paid_expiry days now invited"
  by (auto simp: paid_expiry_def addDays_def addSeconds_def Let_def)

text \<open>A record the sweep may stamp: it carries no expiry, and it belongs to a subscribed member who is
  neither VIP nor banned under any address of theirs.\<close>

definition stampable :: "db \<Rightarrow> identity_snapshot \<Rightarrow> wizarr_user \<Rightarrow> bool" where
  "stampable d s user \<longleftrightarrow> nonempty (usr_expires user) = None \<and>
     (\<exists>(email, row)\<in>set (allCustomerRows d). row_subscribed row \<and>
        (let ident = identityFor s (Some email) (row_invite_code row) in
         user \<in> set (id_records ident) \<and> \<not> isBanned (standingOver (allMemberTags d) ident) \<and>
         \<not> holdsStandingGrant (standingOver (allMemberTags d) ident)))"

definition stamps :: "int \<Rightarrow> (wizarr_user \<Rightarrow> bool) \<Rightarrow> call \<Rightarrow> bool" where
  "stamps now ok c \<longleftrightarrow> reads c \<or>
     (\<exists>user t. c = WizarrCall (PutExpiry (usr_id user) (Some (isoformat t))) \<and> now < t \<and> ok user)"

lemma reads_stamps [simp]: "reads c \<Longrightarrow> stamps now ok c"
  by (simp add: stamps_def)

lemma emits_stamp_member:
  assumes "0 < accessDays (settings_of b)" "\<And>user. user \<in> set (unstampedRecords (pm_identity m)) \<Longrightarrow> ok user"
  shows "keeps (emits (stamps now ok)) (stamp_member b now m)"
  unfolding stamp_member_def Let_def
  by (intro emits_intros emits_clients; (simp; fail)?)
    (use assms paid_expiry_future [OF assms(1)] in \<open>simp add: stamps_def, blast\<close>)

lemma pending_stampable:
  assumes "m \<in> set (pending_members (allMemberTags d) s (paying_customers (allCustomerRows d)))"
    "user \<in> set (unstampedRecords (pm_identity m))"
  shows "stampable d s user"
  using assms unfolding pending_members_def paying_customers_def unstampedRecords_def stampable_def isTimeBoxed_def
  by (fastforce simp: Let_def split: if_splits)


text \<open>The sweep's clock was read at that time, within the run.\<close>

definition read_clock_at :: "env \<Rightarrow> world \<Rightarrow> int \<Rightarrow> bool" where
  "read_clock_at b w' now \<longleftrightarrow> (\<exists>h rest. w_trace w' = h @ ClockRead # rest \<and> now = clock b h)"

lemma but_history_stamp: "keeps (same_table but_history) (stamp_member b now m)"
  unfolding stamp_member_def Let_def by (intro table_intros table_clients; simp)

text \<open>The expiry sweep takes nothing away. It only ever sets an expiry later than the moment it
  runs, and only on a record that has none and belongs to a subscribed member who is neither VIP nor
  banned under any address of theirs; the tables change in the history alone. All of this holds
  even where the sweep stops half way.\<close>

theorem sweep_only_time_boxes_unlimited_records:
  assumes "0 < accessDays (settings_of b)"
  shows "wp (reconcilePendingExpiries b)
    (\<lambda>_ v. but_history (w_db v) = but_history (w_db w) \<and> (emits reads w v \<or>
      (\<exists>now s. snap_links s = allMemberLinks (w_db w) \<and> read_clock_at b v now \<and> emits (stamps now (stampable (w_db w) s)) w v)))
    (\<lambda>_ v. but_history (w_db v) = but_history (w_db w) \<and> (emits reads w v \<or>
      (\<exists>now s. snap_links s = allMemberLinks (w_db w) \<and> read_clock_at b v now \<and> emits (stamps now (stampable (w_db w) s)) w v))) w"
    (is "wp _ (\<lambda>_. ?P) (\<lambda>_. ?P) w")
proof -
  have quiet: "observed w v \<Longrightarrow> ?P v" for v by (auto simp: observed_def)
  have stamp: "wp (mapInOrder (stamp_member b (clock b (w_trace u))) (pending_members (allMemberTags (w_db w)) s
      (paying_customers (allCustomerRows (w_db w))))) (\<lambda>_. ?P) (\<lambda>_. ?P) (logged ClockRead u)"
    if "observed w u" "snap_links s = allMemberLinks (w_db w)" for u s
  proof -
    let ?m = "mapInOrder (stamp_member b (clock b (w_trace u))) (pending_members (allMemberTags (w_db w)) s
        (paying_customers (allCustomerRows (w_db w))))"
    let ?Q = "stamps (clock b (w_trace u)) (stampable (w_db w) s)"
    have "keeps (emits ?Q) ?m" "keeps (same_table but_history) ?m"
      using assms pending_stampable
      by (auto intro!: emit.k_map table.k_map emits_stamp_member but_history_stamp)
    then have "wp ?m (\<lambda>_. bounded ?Q but_history (logged ClockRead u)) (\<lambda>_. bounded ?Q but_history (logged ClockRead u))
        (logged ClockRead u)" by (intro wp_bounded bounded_refl)
    note run = this
    have after: "?P v" if "bounded ?Q but_history (logged ClockRead u) v" for v
    proof -
      have "emits ?Q w (logged ClockRead u)"
        using \<open>observed w u\<close> by (intro emits_logged observed_emits) simp_all
      then have "emits ?Q w v" by (rule emits_trans) (use that in \<open>simp add: bounded_def\<close>)
      moreover have "read_clock_at b v (clock b (w_trace u))"
        using that by (auto simp: bounded_def emits_def read_clock_at_def)
      moreover have "but_history (w_db v) = but_history (w_db w)"
        using that \<open>observed w u\<close> by (simp add: bounded_def observed_def)
      ultimately show ?thesis using \<open>snap_links s = _\<close> by (intro conjI disjI2 exI [of _ "clock b (w_trace u)"] exI [of _ s])
    qed
    show ?thesis using run by (rule wp_cons) (erule after)+
  qed
  have two: "observed w (logged SqlUnit (logged SqlUnit w))" "observed w (logged SqlUnit w)"
    by (auto intro: observed_trans [OF observed_logged observed_logged])
  have snapshot: "wp (identitySnapshot b) (\<lambda>s u. observed w u \<and> snap_links s = allMemberLinks (w_db w)) (\<lambda>_. observed w)
      (logged SqlUnit (logged SqlUnit w))"
    by (rule wp_cons [OF observed_resolve]) (auto intro: observed_trans [OF two(1)])
  define P where "P v \<longleftrightarrow> ?P v" for v
  note folded = quiet [folded P_def] stamp [folded P_def]
  have counted: "wp (bindM (mapInOrder f xs) (\<lambda>counts. ret (sum_list counts))) (\<lambda>_. P) (\<lambda>_. P) u"
    if "wp (mapInOrder f xs) (\<lambda>_. P) (\<lambda>_. P) u" for f :: "pending_member \<Rightarrow> nat run" and xs u
    using that by (simp add: wp_simps)
  have rest: "wp (bindM (identitySnapshot b) (\<lambda>snapshot. bindM (readClock b) (\<lambda>now.
      bindM (mapInOrder (stamp_member b now) (pending_members (allMemberTags (w_db w)) snapshot
        (paying_customers (allCustomerRows (w_db w))))) (\<lambda>counts. ret (sum_list counts)))))
      (\<lambda>_. P) (\<lambda>_. P) (logged SqlUnit (logged SqlUnit w))"
    by (rule wp_bind_cons [OF snapshot], unfold wp_bindM [of "readClock b"] wp_readClock, intro counted folded(2))
      (auto intro: folded(1))
  have "wp (reconcilePendingExpiries b) (\<lambda>_. P) (\<lambda>_. P) w"
    unfolding reconcilePendingExpiries_def Let_def
    using folded(1) [OF two(1)] folded(1) [OF two(2)] rest
    by (simp add: wp_bindM [of "sql_read b f" for f] wp_sql_read wp_ret wp_if split: option.split)
  then show ?thesis unfolding P_def .
qed

theorem sweep_only_time_boxes_unlimited_records_witness:
  "0 < accessDays (settings_of sample_env) \<and>
   wp (reconcilePendingExpiries sample_env)
    (\<lambda>_ v. but_history (w_db v) = but_history empty_db \<and> (emits reads (world_of empty_db) v \<or>
      (\<exists>now s. snap_links s = allMemberLinks empty_db \<and> read_clock_at sample_env v now \<and>
        emits (stamps now (stampable empty_db s)) (world_of empty_db) v)))
    (\<lambda>_ v. but_history (w_db v) = but_history empty_db \<and> (emits reads (world_of empty_db) v \<or>
      (\<exists>now s. snap_links s = allMemberLinks empty_db \<and> read_clock_at sample_env v now \<and>
        emits (stamps now (stampable empty_db s)) (world_of empty_db) v))) (world_of empty_db)"
  using sweep_only_time_boxes_unlimited_records [of sample_env "world_of empty_db"]
  by (simp add: sample_env_def sample_settings_def)

end
