(* ===== verification/Baseline.thy ===== *)
theory Baseline imports AccessSafety "HOL-Library.Multiset" begin

text \<open>
  The daily rotation of the per-tier baseline invites, the links an admin can hand to somebody who
  is not a member yet (\<open>apps/stripe-bridge/src/baseline.ts\<close>).
\<close>

definition BASELINE_TIERS :: "tier list" where
  "BASELINE_TIERS = sort TIERS"

record minted_baseline =
  mb_tier :: tier
  mb_code :: string

record rotation_result =
  ro_minted :: "minted_baseline list"
  ro_skipped :: "tier list"
  ro_reaped :: "string list"

definition byCodeOf :: "invitation list \<Rightarrow> (string option \<times> invitation) list" where
  "byCodeOf invitations = js_map (map (\<lambda>i. (inv_code i, i)) invitations)"

definition mintBaselineInvite :: "env \<Rightarrow> tier \<Rightarrow> tier_scope \<Rightarrow> int \<Rightarrow> created_invite run" where
  "mintBaselineInvite b tier scope now =
     (let days = baselineExpiresDays (settings_of b); expiresAt = isoformat (addDays now days) in
      bindM (mint b scope None days True) (\<lambda>invite.
      andThen (sql_update b (recordBaselineInvite (ci_code invite) (tier_name tier) expiresAt (isoformat now)))
        (ret invite)))"

definition has_expired :: "int \<Rightarrow> baseline_invite \<Rightarrow> bool" where
  "has_expired now row = (case parseIsoOrNull (Some (bl_expires_at row)) of
     Some at \<Rightarrow> at \<le> now | None \<Rightarrow> False)"

definition reap_one :: "env \<Rightarrow> (string option \<times> invitation) list \<Rightarrow> int \<Rightarrow> baseline_invite \<Rightarrow> string option run" where
  "reap_one b byCode now row =
     (if \<not> has_expired now row then ret None
      else (case map_of byCode (Some (bl_code row)) of
          None \<Rightarrow> andThen (sql_update b (forgetBaselineInvite (bl_code row))) (ret None)
        | Some upstream \<Rightarrow> bindM (outcome (deleteInvitation b (inv_id upstream))) (\<lambda>r. case r of
              Inl _ \<Rightarrow> ret None
            | Inr _ \<Rightarrow> andThen (sql_update b (forgetBaselineInvite (bl_code row))) (ret (Some (bl_code row))))))"

definition reapExpiredBaselines :: "env \<Rightarrow> invitation list \<Rightarrow> int \<Rightarrow> string list run" where
  "reapExpiredBaselines b invitations now =
     bindM (sql_read b allBaselineInvites) (\<lambda>rows.
     bindM (mapInOrder (reap_one b (byCodeOf invitations) now) rows) (\<lambda>outcomes. ret (somes outcomes)))"

definition rotate_tier :: "env \<Rightarrow> library list \<Rightarrow> int \<Rightarrow> tier \<Rightarrow> (tier \<times> string option) run" where
  "rotate_tier b libraries now tier =
     (if tier_name tier \<in> fst ` set (tierScopeProblems libraries) then ret (tier, None)
      else catchM (bindM (mintBaselineInvite b tier (resolveTierAccess tierWants tier libraries) now)
             (\<lambda>invite. ret (tier, Some (ci_code invite))))
           (\<lambda>_. ret (tier, None)))"

definition mint_baselines :: "env \<Rightarrow> int \<Rightarrow> (tier \<times> string option) list run" where
  "mint_baselines b now = bindM (listLibraries b) (\<lambda>listed.
     bindM (liveSectionsOrNone b) (\<lambda>sections.
     mapInOrder (rotate_tier b (withoutStale listed sections) now) BASELINE_TIERS))"

definition rotateBaselineInvites :: "env \<Rightarrow> rotation_result run" where
  "rotateBaselineInvites b = bindM (readClock b) (\<lambda>now.
     bindM (mint_baselines b now) (\<lambda>outcomes.
     bindM (listInvitations b) (\<lambda>invitations.
     bindM (reapExpiredBaselines b invitations now) (\<lambda>reaped.
     ret \<lparr>ro_minted = somes (map (\<lambda>(tier, code). map_option (\<lambda>c. \<lparr>mb_tier = tier, mb_code = c\<rparr>) code) outcomes),
          ro_skipped = map fst (filter (\<lambda>(_, code). code = None) outcomes), ro_reaped = reaped\<rparr>))))"


subsection \<open>What a rotation may do\<close>

fun deletion :: "call \<Rightarrow> bool" where
  "deletion (WizarrCall (DeleteInvitation _)) = True"
| "deletion _ = False"

lemma reads_no_deletion [simp]: "reads c \<Longrightarrow> \<not> deletion c" "reads c \<Longrightarrow> \<not> invite_post c"
proof -
  have "wizarr_read req \<Longrightarrow> \<not> deletion (WizarrCall req)" for req by (cases req) simp_all
  then show "reads c \<Longrightarrow> \<not> deletion c" by (cases c) simp_all
qed (use reads_not in simp)

lemma emits_mint_baselines: "keeps (emits (\<lambda>c. \<not> deletion c)) (mint_baselines b now)"
  unfolding mint_baselines_def rotate_tier_def mintBaselineInvite_def mint_def Let_def
  by (intro emits_intros emits_clients; simp)

lemma emits_reap_one: "keeps (emits (\<lambda>c. \<not> invite_post c)) (reap_one b byCode now row)"
  unfolding reap_one_def by (intro emits_intros emits_clients; simp)

lemma emits_reap: "keeps (emits (\<lambda>c. \<not> invite_post c)) (reapExpiredBaselines b invitations now)"
  unfolding reapExpiredBaselines_def by (intro emits_intros emits_reap_one; simp)

lemma wp_rotate_tier:
  "wp (rotate_tier b libs now tier) (\<lambda>out _. fst out = tier \<and> (tier_name tier \<in> fst ` set (tierScopeProblems libs) \<longrightarrow> snd out = None))
     (\<lambda>_ _. False) w"
  unfolding rotate_tier_def
  by (auto simp: wp_simps intro: wp_cons [OF wp_true])

lemma wp_mint_baselines: "wp (mint_baselines b now) (\<lambda>outcomes _. map fst outcomes = BASELINE_TIERS) (\<lambda>_ _. True) w"
proof -
  have tiers: "list_all2 (\<lambda>tier out. fst out = tier) ts outs \<Longrightarrow> map fst outs = ts" for ts :: "tier list" and outs :: "(tier \<times> string option) list"
    by (induction rule: list_all2_induct) simp_all
  have "wp (mapInOrder (rotate_tier b libs now) BASELINE_TIERS) (\<lambda>outs _. map fst outs = BASELINE_TIERS) (\<lambda>_ _. True) t" for libs t
    by (rule wp_cons [OF wp_mapInOrder_inv [where I = "\<lambda>_. True" and P = "\<lambda>tier out. fst out = tier"]])
      (auto intro: wp_cons [OF wp_rotate_tier] tiers)
  then show ?thesis
    unfolding mint_baselines_def by (intro wp_bind_cons [OF wp_true]) simp_all
qed

lemma minted_or_skipped:
  "mset (map mb_tier (somes (map (\<lambda>(tier, code). map_option (\<lambda>c. \<lparr>mb_tier = tier, mb_code = c\<rparr>) code) outcomes))) +
   mset (map fst (filter (\<lambda>(_, code). code = None) outcomes)) = mset (map fst outcomes)"
  by (induction outcomes) (auto simp: somes_def split: option.splits)

text \<open>A rotation mints before it reaps: whatever fails on the way, no invitation is posted after
  the first deletion, so a rotation cut short leaves invites over rather than none. One that
  returns accounts for every tier exactly once, as minted or as skipped.\<close>

theorem rotation_mints_before_reaping:
  "wp (rotateBaselineInvites b)
     (\<lambda>r v. mset (map mb_tier (ro_minted r)) + mset (ro_skipped r) = mset TIERS \<and>
        (\<exists>first second. w_trace v = w_trace w @ first @ second \<and>
           list_all (\<lambda>c. \<not> deletion c) first \<and> list_all (\<lambda>c. \<not> invite_post c) second))
     (\<lambda>_ v. \<exists>first second. w_trace v = w_trace w @ first @ second \<and>
        list_all (\<lambda>c. \<not> deletion c) first \<and> list_all (\<lambda>c. \<not> invite_post c) second) w"
proof -
  define split_at where "split_at v \<longleftrightarrow> (\<exists>first second. w_trace v = w_trace w @ first @ second \<and>
      list_all (\<lambda>c. \<not> deletion c) first \<and> list_all (\<lambda>c. \<not> invite_post c) second)" for v :: world
  have now: "split_at v" if e: "emits (\<lambda>c. \<not> deletion c) w v" for v
  proof -
    obtain xs where "w_trace v = w_trace w @ xs @ []" "list_all (\<lambda>c. \<not> deletion c) xs" using e by (auto simp: emits_def)
    then show ?thesis unfolding split_at_def by (intro exI [of _ xs] exI [of _ "[]"]) simp
  qed
  have later: "split_at v" if "emits (\<lambda>c. \<not> deletion c) w u" "emits (\<lambda>c. \<not> invite_post c) u v" for u v
    using that unfolding split_at_def emits_def by (metis append.assoc)
  let ?O = "\<lambda>outcomes u. emits (\<lambda>c. \<not> deletion c) w u \<and> map fst outcomes = BASELINE_TIERS"
  have minted: "wp (mint_baselines b now) ?O (\<lambda>_. split_at) (logged ClockRead w)" for now
    by (rule wp_cons [OF wp_conj [OF wp_emits_from [OF emits_mint_baselines, of w] wp_mint_baselines]]) (auto intro: now)
  have listed: "wp (listInvitations b) (\<lambda>_. emits (\<lambda>c. \<not> deletion c) w) (\<lambda>_. split_at) u"
    if "emits (\<lambda>c. \<not> deletion c) w u" for u
    by (rule wp_cons [OF wp_emits_from [OF _ that]]) (auto intro!: emits_clients now)
  have reaped: "wp (reapExpiredBaselines b invitations now) (\<lambda>_. split_at) (\<lambda>_. split_at) u"
    if "emits (\<lambda>c. \<not> deletion c) w u" for u invitations now
    by (rule wp_cons [OF wp_emits [OF emits_reap]]) (rule later [OF that], assumption)+
  have "mset BASELINE_TIERS = mset TIERS" by (simp add: BASELINE_TIERS_def)
  then show ?thesis
    unfolding rotateBaselineInvites_def wp_bindM wp_readClock split_at_def [symmetric]
    by (intro wp_cons [OF minted])
      (auto simp: wp_simps minted_or_skipped simp del: mset_map mset_filter intro!: wp_cons [OF listed] wp_cons [OF reaped])
qed


subsection \<open>What a reaping may delete\<close>

text \<open>A deletion that two guards allow: the code is one of ours, and past its own expiry.\<close>

definition reapable :: "baseline_invite list \<Rightarrow> invitation list \<Rightarrow> int \<Rightarrow> call \<Rightarrow> bool" where
  "reapable rows invitations now c \<longleftrightarrow> c = SqlUnit \<or>
     (\<exists>row\<in>set rows. \<exists>i\<in>set invitations. has_expired now row \<and> inv_code i = Some (bl_code row) \<and>
        c = WizarrCall (DeleteInvitation (inv_id i)))"

text \<open>The table afterwards: nothing new, nothing changed, and every baseline that is not yet expired.\<close>

definition only_expired_gone :: "int \<Rightarrow> baseline_invite list \<Rightarrow> baseline_invite list \<Rightarrow> bool" where
  "only_expired_gone now rows rows' \<longleftrightarrow> set rows' \<subseteq> set rows \<and> {row \<in> set rows. \<not> has_expired now row} \<subseteq> set rows'"

definition reaping :: "baseline_invite list \<Rightarrow> invitation list \<Rightarrow> int \<Rightarrow> world \<Rightarrow> world \<Rightarrow> bool" where
  "reaping rows invitations now w v \<longleftrightarrow> emits (reapable rows invitations now) w v \<and>
     only_expired_gone now rows (baseline_invites (w_db v)) \<and>
     (w_db v)\<lparr>baseline_invites := []\<rparr> = (w_db w)\<lparr>baseline_invites := []\<rparr>"

lemma byCodeOf_in: "map_of (byCodeOf invitations) code = Some i \<Longrightarrow> i \<in> set invitations \<and> inv_code i = code"
  using set_js_map [of "map (\<lambda>i. (inv_code i, i)) invitations"] by (auto simp: byCodeOf_def dest!: map_of_SomeD)

lemma reaping_sql: "reaping rows invitations now w v \<Longrightarrow> reaping rows invitations now w (logged SqlUnit v)"
  by (auto simp: reaping_def reapable_def intro: emits_logged)

lemma reaping_forget:
  assumes "reaping rows invitations now w v" "distinct (map bl_code rows)" "row \<in> set rows" "has_expired now row"
  shows "reaping rows invitations now w (logged SqlUnit (v\<lparr>w_db := forgetBaselineInvite (bl_code row) (w_db v)\<rparr>))"
proof -
  have "row' = row" if "row' \<in> set rows" "bl_code row' = bl_code row" for row'
    using assms(2,3) that by (simp add: distinct_map inj_on_def)
  then have "only_expired_gone now rows (filter (\<lambda>b. bl_code b \<noteq> bl_code row) (baseline_invites (w_db v)))"
    using assms(1,4) by (auto simp: reaping_def only_expired_gone_def)
  moreover have "emits (reapable rows invitations now) w (logged SqlUnit (v\<lparr>w_db := d\<rparr>))" for d
    using assms(1) by (auto simp: reaping_def emits_def logged_def reapable_def)
  ultimately show ?thesis using assms(1) by (simp add: reaping_def forgetBaselineInvite_def)
qed

lemma wp_deletion: "wp (deleteInvitation b i) (\<lambda>_ v. v = logged (WizarrCall (DeleteInvitation i)) w)
    (\<lambda>_ v. v = logged (WizarrCall (DeleteInvitation i)) w) w"
  by (auto simp: deleteInvitation_def wizarr_call_def wp_simps split: sum.splits prod.splits)

lemma wp_reap_one:
  assumes "reaping rows invitations now w v" "distinct (map bl_code rows)" "row \<in> set rows"
  shows "wp (reap_one b (byCodeOf invitations) now row)
    (\<lambda>out u. reaping rows invitations now w u \<and> (\<forall>code. out = Some code \<longrightarrow> code = bl_code row \<and> has_expired now row))
    (\<lambda>_ u. reaping rows invitations now w u) v"
proof (cases "has_expired now row")
  case False
  then show ?thesis using assms(1) by (simp add: reap_one_def wp_simps)
next
  case True
  note sql = reaping_sql [OF assms(1)] reaping_forget [OF assms True]
  show ?thesis
  proof (cases "map_of (byCodeOf invitations) (Some (bl_code row))")
    case None
    then show ?thesis using sql True by (auto simp: reap_one_def wp_simps split: option.splits)
  next
    case (Some upstream)
    let ?v = "logged (WizarrCall (DeleteInvitation (inv_id upstream))) v"
    have "reapable rows invitations now (WizarrCall (DeleteInvitation (inv_id upstream)))"
      using byCodeOf_in [OF Some] True assms(3) by (auto simp: reapable_def)
    then have v: "reaping rows invitations now w ?v"
      using assms(1) by (auto simp: reaping_def intro: emits_logged)
    show ?thesis
      using Some True v reaping_sql [OF v] reaping_forget [OF v assms(2,3) True]
      by (auto simp: reap_one_def wp_simps split: option.splits intro!: wp_cons [OF wp_deletion])
  qed
qed

text \<open>C36: A reaping deletes nothing but its own expired links. Every deletion is of an invitation whose
  code the bridge recorded as a baseline that has passed its own expiry, so a member's checkout
  invite is never deleted; a baseline that has not expired stays recorded, no other table changes,
  and every code reported as reaped was an expired baseline. It holds too where the store fails
  half way.\<close>

theorem reaping_spares_everything_else:
  assumes "distinct (map bl_code (baseline_invites (w_db w)))"
  shows "wp (reapExpiredBaselines b invitations now)
     (\<lambda>reaped v. reaping (baseline_invites (w_db w)) invitations now w v \<and>
        set reaped \<subseteq> bl_code ` {row \<in> set (baseline_invites (w_db w)). has_expired now row})
     (\<lambda>_ v. reaping (baseline_invites (w_db w)) invitations now w v) w"
proof -
  let ?rows = "baseline_invites (w_db w)"
  have start: "reaping ?rows invitations now w (logged SqlUnit w)"
    by (auto simp: reaping_def reapable_def only_expired_gone_def)
  have rows: "set (allBaselineInvites (w_db w)) = set ?rows" by (simp add: allBaselineInvites_def)
  have codes: "set (somes outs) \<subseteq> bl_code ` {row \<in> set rows. has_expired now row}"
    if "list_all2 (\<lambda>row out. \<forall>code. out = Some code \<longrightarrow> code = bl_code row \<and> has_expired now row) rows outs" for rows outs
    using that by (induction rule: list_all2_induct) (auto simp: somes_def split: option.splits)
  have "wp (mapInOrder (reap_one b (byCodeOf invitations) now) (allBaselineInvites (w_db w)))
     (\<lambda>outs v. reaping ?rows invitations now w v \<and> list_all2 (\<lambda>row out. \<forall>code. out = Some code \<longrightarrow> code = bl_code row \<and> has_expired now row)
        (allBaselineInvites (w_db w)) outs) (\<lambda>_ v. reaping ?rows invitations now w v) (logged SqlUnit w)"
    using wp_reap_one [OF _ assms] start by (intro wp_mapInOrder_inv) (auto simp: rows)
  note loop = this
  have "wp (bindM (mapInOrder (reap_one b (byCodeOf invitations) now) (allBaselineInvites (w_db w))) (\<lambda>outs. ret (somes outs)))
     (\<lambda>reaped v. reaping ?rows invitations now w v \<and> set reaped \<subseteq> bl_code ` {row \<in> set ?rows. has_expired now row})
     (\<lambda>_ v. reaping ?rows invitations now w v) (logged SqlUnit w)"
    by (rule wp_bind_cons [OF loop]) (use codes [of "allBaselineInvites (w_db w)"] in \<open>simp_all add: wp_simps rows\<close>)
  then show ?thesis
    unfolding reapExpiredBaselines_def wp_bindM [of "sql_read b f" for f] wp_sql_read
    using start by (cases "sqlite_fault b (w_trace w)") simp_all
qed

theorem reaping_spares_everything_else_witness:
  "wp (reapExpiredBaselines sample_env [] 0)
     (\<lambda>reaped v. reaping (baseline_invites (w_db (world_of empty_db))) [] 0 (world_of empty_db) v \<and>
        set reaped \<subseteq> bl_code ` {row \<in> set (baseline_invites (w_db (world_of empty_db))). has_expired 0 row})
     (\<lambda>_ v. reaping (baseline_invites (w_db (world_of empty_db))) [] 0 (world_of empty_db) v) (world_of empty_db)"
  by (rule reaping_spares_everything_else) (simp add: empty_db_def)

end
