(* ===== verification/Loops.thy ===== *)
theory Loops imports Sweeps Reconcile Baseline begin

text \<open>
  The three jobs the bridge runs between webhooks (\<open>apps/stripe-bridge/src/loops.ts\<close>): what one
  reconcile sweep and one rotation do, and the timers that keep each job going. The host's local
  time is a fixed offset from UTC; a change of offset while the process runs is not modelled.
\<close>

subsection \<open>One run of a job\<close>

definition run_guarded :: "'a run \<Rightarrow> 'a \<Rightarrow> 'a run" where
  \<comment> \<open>\<open>guarded\<close>: a failure is logged; the second argument is what the caller goes on with then\<close>
  "run_guarded m otherwise = orElse m otherwise"

definition reconcileOnce :: "env \<Rightarrow> sweep_alerts \<Rightarrow> sweep_alerts run" where
  "reconcileOnce b alerts =
     bindM (run_guarded (bindM (checkTierScopes b (sa_tierScope alerts)) (\<lambda>(_, t). ret t)) (sa_tierScope alerts)) (\<lambda>tierScope.
     bindM (run_guarded (bindM (checkVipAccess b (sa_vipAccess alerts)) (\<lambda>(_, v). ret v)) (sa_vipAccess alerts)) (\<lambda>vipAccess.
     andThen (run_guarded (bindM (checkPaymentStates b) (\<lambda>_. ret ())) ())
    (andThen (run_guarded (bindM (reconcilePendingExpiries b) (\<lambda>_. ret ())) ())
       (ret \<lparr>sa_tierScope = tierScope, sa_vipAccess = vipAccess\<rparr>))))"

definition rotateOnce :: "env \<Rightarrow> unit run" where
  "rotateOnce b = run_guarded (bindM (rotateBaselineInvites b) (\<lambda>_. ret ())) ()"

definition msUntilHour :: "int \<Rightarrow> int \<Rightarrow> int \<Rightarrow> int" where
  "msUntilHour offset hour now =
     (let local_time = now + offset;
          target = (local_time div ms_per_day) * ms_per_day + hour * 3600000 - offset
      in (if target \<le> now then target + ms_per_day else target) - now)"

text \<open>A request the sweep may make: one that leaves access alone, or a dated expiry on a record.\<close>

definition background_call :: "call \<Rightarrow> bool" where
  "background_call c \<longleftrightarrow> leaves_access c \<or> (\<exists>u t. c = WizarrCall (PutExpiry u (Some t)))"

lemma background_calls [simp]: "leaves_access c \<Longrightarrow> background_call c" "reads c \<Longrightarrow> background_call c"
  "background_call (WizarrCall (PutExpiry u (Some t)))" "background_call (MailCall (alert_message b a))"
  by (simp_all add: background_call_def)

lemma emits_check: "keeps (emits background_call) (checkTierScopes b prev)"
  "keeps (emits background_call) (checkVipAccess b prev)" "keeps (emits background_call) (checkPaymentStates b)"
  unfolding checkTierScopes_def checkVipAccess_def checkPaymentStates_def check_payment_state_def fire_def
  by (auto intro!: emits_intros emits_clients emits_members simp: Let_def split: option.splits)

lemma table_check: "keeps (same_table but_dunning) (checkTierScopes b prev)"
  "keeps (same_table but_dunning) (checkVipAccess b prev)" "keeps (same_table but_dunning) (checkPaymentStates b)"
  unfolding checkTierScopes_def checkVipAccess_def checkPaymentStates_def check_payment_state_def fire_def
  by (auto intro!: table_intros table_clients table_members simp: Let_def split: option.splits)

lemma emits_reconcile: "keeps (emits background_call) (reconcilePendingExpiries b)"
  "keeps (same_table but_dunning) (reconcilePendingExpiries b)"
  unfolding reconcilePendingExpiries_def stamp_member_def Let_def
  by (auto intro!: emits_intros emits_clients emits_members table_intros table_clients table_members split: option.splits)

text \<open>C37: A reconcile sweep is safe to run beside the webhooks. It never throws, whatever Wizarr, plex.tv,
  Stripe, the store or the mail host do; it disables no record, clears no expiry, and mints and
  mails no invite; and of the tables it changes only the dunning flags and the history.\<close>

theorem reconcile_sweep_is_safe:
  "never_throws (reconcileOnce b alerts) \<and> keeps (bounded background_call but_dunning) (reconcileOnce b alerts)"
proof
  have both: "keeps (emits P) m \<Longrightarrow> keeps (same_table f) m \<Longrightarrow> keeps (bounded P f) m" for P f and m :: "'a run"
    unfolding keeps_def bounded_def same_table_def by simp
  show "never_throws (reconcileOnce b alerts)"
    unfolding reconcileOnce_def run_guarded_def by (intro never_throws_intros)
  show "keeps (bounded background_call but_dunning) (reconcileOnce b alerts)"
    unfolding reconcileOnce_def run_guarded_def
    by (intro both emits_intros table_intros emits_check table_check emits_reconcile)
qed

text \<open>The rotation sleeps to the next occurrence of its hour: between one millisecond and a whole day,
  and waking then the local clock shows the hour exactly.\<close>

theorem rotation_wakes_on_the_hour:
  assumes "0 \<le> hour" "hour < 24"
  shows "0 < msUntilHour offset hour now \<and> msUntilHour offset hour now \<le> ms_per_day \<and>
    (now + msUntilHour offset hour now + offset) mod ms_per_day = hour * 3600000"
proof -
  define q r where "q = (now + offset) div ms_per_day" and "r = (now + offset) mod ms_per_day"
  have parts: "now + offset = q * ms_per_day + r" by (simp add: q_def r_def)
  have range: "0 \<le> r" "r < ms_per_day" by (simp_all add: r_def ms_per_day_def)
  have start: "0 \<le> hour * 3600000" "hour * 3600000 < ms_per_day" using assms by (simp_all add: ms_per_day_def)
  have late: "q * ms_per_day + hour * 3600000 - offset \<le> now \<longleftrightarrow> hour * 3600000 \<le> r" using parts by linarith
  have wait: "msUntilHour offset hour now =
      (if hour * 3600000 \<le> r then hour * 3600000 - r + ms_per_day else hour * 3600000 - r)"
    unfolding msUntilHour_def Let_def q_def [symmetric] late using parts by auto
  have "now + msUntilHour offset hour now + offset = (if hour * 3600000 \<le> r then q + 1 else q) * ms_per_day + hour * 3600000"
    using parts by (simp add: wait algebra_simps)
  then have "(now + msUntilHour offset hour now + offset) mod ms_per_day = hour * 3600000"
    using start by (simp add: mod_pos_pos_trivial)
  then show ?thesis using wait range start by auto
qed

theorem rotation_wakes_on_the_hour_witness:
  "msUntilHour (-14400000) 4 1790000000000 \<le> ms_per_day"
  using rotation_wakes_on_the_hour [of 4 "-14400000" 1790000000000] by simp

subsection \<open>The timers\<close>

datatype job = ReconcileJob | SnapshotJob | RotateJob

record loop_state =
  lp_stopped :: bool
  lp_pending :: "(nat \<times> job \<times> int) list"
  lp_running :: "job list"
  lp_next :: nat

definition schedule :: "int \<Rightarrow> job \<Rightarrow> loop_state \<Rightarrow> loop_state" where
  "schedule ms j s = (if lp_stopped s then s
     else s\<lparr>lp_pending := lp_pending s @ [(lp_next s, j, ms)], lp_next := lp_next s + 1\<rparr>)"

record loop_config =
  cf_reconcile_seconds :: int
  cf_snapshot_seconds :: int
  cf_rotate_hour :: int
  cf_offset :: int

fun delay_of :: "loop_config \<Rightarrow> int \<Rightarrow> job \<Rightarrow> int" where
  "delay_of cf now ReconcileJob = cf_reconcile_seconds cf * 1000"
| "delay_of cf now SnapshotJob = cf_snapshot_seconds cf * 1000"
| "delay_of cf now RotateJob = msUntilHour (cf_offset cf) (cf_rotate_hour cf) now"

definition startLoops :: "loop_config \<Rightarrow> int \<Rightarrow> loop_state" where
  "startLoops cf now = schedule (delay_of cf now RotateJob) RotateJob
     \<lparr>lp_stopped = False, lp_pending = [], lp_running = [ReconcileJob, SnapshotJob], lp_next = 0\<rparr>"

definition timer_fires :: "nat \<times> job \<times> int \<Rightarrow> loop_state \<Rightarrow> loop_state" where
  "timer_fires t s = s\<lparr>lp_pending := filter (\<lambda>u. fst u \<noteq> fst t) (lp_pending s), lp_running := fst (snd t) # lp_running s\<rparr>"

definition job_settles :: "loop_config \<Rightarrow> int \<Rightarrow> job \<Rightarrow> loop_state \<Rightarrow> loop_state" where
  "job_settles cf now j s = schedule (delay_of cf now j) j (s\<lparr>lp_running := remove1 j (lp_running s)\<rparr>)"

definition stop_loops :: "loop_state \<Rightarrow> loop_state" where
  "stop_loops s = s\<lparr>lp_stopped := True, lp_pending := []\<rparr>"

inductive loops_reach :: "loop_config \<Rightarrow> loop_state \<Rightarrow> bool" for cf where
  started: "loops_reach cf (startLoops cf now)"
| fired: "loops_reach cf s \<Longrightarrow> t \<in> set (lp_pending s) \<Longrightarrow> loops_reach cf (timer_fires t s)"
| settled_job: "loops_reach cf s \<Longrightarrow> j \<in> set (lp_running s) \<Longrightarrow> loops_reach cf (job_settles cf now j s)"
| stopped: "loops_reach cf s \<Longrightarrow> loops_reach cf (stop_loops s)"

text \<open>Each job is waited for or running at most once, and while the loops are not stopped exactly once.\<close>

definition jobs_in :: "loop_state \<Rightarrow> job list" where
  "jobs_in s = map (\<lambda>(_, j, _). j) (lp_pending s) @ lp_running s"

definition loops_ok :: "loop_state \<Rightarrow> bool" where
  "loops_ok s \<longleftrightarrow> distinct (jobs_in s) \<and> distinct (map fst (lp_pending s)) \<and> (\<forall>t\<in>set (lp_pending s). fst t < lp_next s) \<and>
     (if lp_stopped s then lp_pending s = [] else set (jobs_in s) = {ReconcileJob, SnapshotJob, RotateJob})"

lemma loops_ok_start: "loops_ok (startLoops cf now)"
  by (auto simp: loops_ok_def startLoops_def schedule_def jobs_in_def)

lemma fired_jobs:
  assumes "distinct (map fst pending)" "t \<in> set pending"
  shows "mset (map (\<lambda>(_, j, _). j) (filter (\<lambda>u. fst u \<noteq> fst t) pending)) + {#fst (snd t)#} = mset (map (\<lambda>(_, j, _). j) pending)"
  using assms
proof (induction pending)
  case (Cons u us)
  show ?case
  proof (cases "u = t")
    case True
    then have "\<forall>u\<in>set us. fst u \<noteq> fst t" using Cons.prems by (metis distinct.simps(2) image_eqI list.map(2) list.set_map)
    then have "filter (\<lambda>u. fst u \<noteq> fst t) us = us" by (simp add: filter_True)
    then show ?thesis using True by (simp add: split_beta)
  next
    case False
    then have "fst u \<noteq> fst t" "t \<in> set us" using Cons.prems by force+
    then show ?thesis using Cons by (simp add: split_beta)
  qed
qed simp

lemma loops_ok_fires:
  assumes "loops_ok s" "t \<in> set (lp_pending s)"
  shows "loops_ok (timer_fires t s)"
proof -
  have "mset (jobs_in (timer_fires t s)) = mset (jobs_in s)"
    using fired_jobs [of "lp_pending s" t] assms by (auto simp: loops_ok_def jobs_in_def timer_fires_def)
  then have "distinct (jobs_in (timer_fires t s)) = distinct (jobs_in s)" "set (jobs_in (timer_fires t s)) = set (jobs_in s)"
    by (metis mset_eq_imp_distinct_iff, metis mset_eq_setD)
  moreover have "\<not> lp_stopped s" using assms by (auto simp: loops_ok_def split: if_splits)
  ultimately show ?thesis
    using assms by (auto simp: loops_ok_def timer_fires_def distinct_map_filter)
qed

lemma loops_ok_settles:
  assumes "loops_ok s" "j \<in> set (lp_running s)"
  shows "loops_ok (job_settles cf now j s)"
proof (cases "lp_stopped s")
  case True
  then show ?thesis using assms by (simp add: loops_ok_def jobs_in_def job_settles_def schedule_def distinct_remove1)
next
  case False
  let ?s = "job_settles cf now j s"
  have "mset (jobs_in ?s) = mset (jobs_in s)"
    using False assms(2) by (simp add: jobs_in_def job_settles_def schedule_def)
  then have "distinct (jobs_in ?s) = distinct (jobs_in s)" "set (jobs_in ?s) = set (jobs_in s)"
    by (metis mset_eq_imp_distinct_iff, metis mset_eq_setD)
  moreover have "lp_pending ?s = lp_pending s @ [(lp_next s, j, delay_of cf now j)]" "lp_next ?s = lp_next s + 1" "\<not> lp_stopped ?s"
    using False by (simp_all add: job_settles_def schedule_def)
  ultimately show ?thesis using assms(1) False unfolding loops_ok_def by (auto simp: less_Suc_eq)
qed

lemma loops_ok_stops: "loops_ok s \<Longrightarrow> loops_ok (stop_loops s)"
  by (simp add: stop_loops_def loops_ok_def jobs_in_def)

text \<open>C38: The loops never stack two runs of a job and never lose one. However timers fire, runs settle and
  the application shuts down, each of the three jobs is waiting or running at most once, exactly
  once until the loops are stopped, and after that no timer is left and none is set again.\<close>

theorem loops_never_stack_a_job:
  assumes "loops_reach cf s"
  shows "loops_ok s"
  using assms by induction (blast intro: loops_ok_start loops_ok_fires loops_ok_settles loops_ok_stops)+

theorem loops_never_stack_a_job_witness:
  "loops_ok (job_settles \<lparr>cf_reconcile_seconds = 300, cf_snapshot_seconds = 60, cf_rotate_hour = 4, cf_offset = 0\<rparr> 5000
     SnapshotJob (startLoops \<lparr>cf_reconcile_seconds = 300, cf_snapshot_seconds = 60, cf_rotate_hour = 4, cf_offset = 0\<rparr> 0))"
  by (rule loops_never_stack_a_job [where cf = "\<lparr>cf_reconcile_seconds = 300, cf_snapshot_seconds = 60, cf_rotate_hour = 4, cf_offset = 0\<rparr>"])
    (rule loops_reach.intros, rule loops_reach.intros, simp add: startLoops_def schedule_def)

end
