(* ===== verification/Roster.thy ===== *)
theory Roster imports Members "HOL-Library.Product_Lexorder" "HOL-Library.Multiset" begin

text \<open>
  The member list of the portal (\<open>apps/stripe-bridge/src/roster.ts\<close>): one row per person the
  identity rules find, what it shows, and how it is finished with the live plex.tv share and the
  store's overrides. Objects keyed by server are lists of their own keys; \<open>'unknown'\<close>, the tier of a
  member without one, is \<open>None\<close>, as are a null and an absent tag.
\<close>

record member =
  mem_member :: string
  mem_email :: string
  mem_tier :: "tier option"
  mem_downloads :: "bool option"
  mem_expires :: "string option"
  mem_servers :: "string list"
  mem_libraries :: "(string \<times> string list) list"
  mem_entitled :: "(string \<times> string list) list"
  mem_subscribed :: bool
  mem_payment_state :: "payment_state option"
  mem_invited_at :: "string option"
  mem_customer_id :: "string option"
  mem_stripe_email :: "string option"
  mem_tag :: "member_tag option"

definition byName :: "member list \<Rightarrow> member list" where
  "byName = sort_key (\<lambda>m. toLowerCase (mem_member m))"

record tier_grant =
  tg_tier :: "tier option"
  tg_downloads :: "bool option"
  tg_entitled :: "(string \<times> string list) list"

definition tierGrant :: "tier option \<Rightarrow> library list \<Rightarrow> tier_grant" where
  "tierGrant recorded libraries = (case recorded of
     None \<Rightarrow> \<lparr>tg_tier = None, tg_downloads = None, tg_entitled = []\<rparr>
   | Some t \<Rightarrow> \<lparr>tg_tier = Some t, tg_downloads = Some (tierDownloads t), tg_entitled = tierServerLibraries t libraries\<rparr>)"

definition local_part :: "string \<Rightarrow> string" where
  \<comment> \<open>\<open>email.split('@')[0] ?? ''\<close>\<close>
  "local_part email = takeWhile (\<lambda>c. c \<noteq> CHR ''@'') email"

definition memberFromCustomer :: "string \<Rightarrow> customer_row \<Rightarrow> library list \<Rightarrow> member" where
  "memberFromCustomer email row libraries = (let grant = tierGrant (row_tier row) libraries in
     \<lparr>mem_member = local_part email, mem_email = email, mem_tier = tg_tier grant, mem_downloads = tg_downloads grant,
      mem_expires = None, mem_servers = [], mem_libraries = [], mem_entitled = tg_entitled grant,
      mem_subscribed = row_subscribed row, mem_payment_state = row_payment_state row, mem_invited_at = row_invited_at row,
      mem_customer_id = row_customer_id row, mem_stripe_email = None, mem_tag = None\<rparr>)"

text \<open>The account shown as the payer: a confirmed payer first, then an address linked by hand, then the
  member's own; equal candidates by address.\<close>

definition billing_rank :: "identity \<Rightarrow> (string \<times> string) list \<Rightarrow> string \<times> customer_row \<Rightarrow> int" where
  "billing_rank ident links account = (case account of (email, row) \<Rightarrow>
     (if row_subscribed row then 4 else 0) + (if map_of links email \<noteq> None then 2 else 0) +
     (if Some email = primaryAddress ident then 1 else 0))"

definition primaryBilling ::
  "identity \<Rightarrow> (string \<times> customer_row) list \<Rightarrow> (string \<times> string) list \<Rightarrow> (string \<times> customer_row) option" where
  "primaryBilling ident customers links = first_or_none
     (sort_key (\<lambda>account. (- billing_rank ident links account, fst account))
       (filter (\<lambda>(email, _). email \<in> set (addresses ident)) customers))"

definition latest_expiry :: "wizarr_user list \<Rightarrow> string option" where
  "latest_expiry records = foldl (\<lambda>latest user. case nonempty (usr_expires user) of
       Some e \<Rightarrow> (case latest of None \<Rightarrow> Some e | Some l \<Rightarrow> if l < e then Some e else latest)
     | None \<Rightarrow> latest) None records"

definition primary_record :: "identity \<Rightarrow> wizarr_user list \<Rightarrow> wizarr_user option" where
  "primary_record ident records = (case List.find (\<lambda>user. Some (emailOf user) = primaryAddress ident) records of
     Some user \<Rightarrow> Some user | None \<Rightarrow> first_or_none records)"

definition memberOf :: "identity \<Rightarrow> identity_snapshot \<Rightarrow> (string \<times> customer_row) list \<Rightarrow> library list \<Rightarrow> member" where
  "memberOf ident snapshot customers libraries =
     (let records = everyRecord snapshot ident;
          found = primary_record ident records;
          shown_email = (case nonempty (map_option trim (Option.bind found usr_email)) of
             Some e \<Rightarrow> e | None \<Rightarrow> text_or_empty (primaryAddress ident));
          billing = primaryBilling ident customers (snap_links snapshot);
          row = map_option snd billing;
          grant = tierGrant (Option.bind row row_tier) libraries;
          servers = sort (js_set (somes (map (\<lambda>user. nonempty (usr_server user)) records)))
      in \<lparr>mem_member = (case Option.bind found usr_username of Some name \<Rightarrow> name | None \<Rightarrow> local_part shown_email),
          mem_email = shown_email, mem_tier = tg_tier grant, mem_downloads = tg_downloads grant,
          mem_expires = latest_expiry records, mem_servers = servers,
          mem_libraries = map (\<lambda>server. (server, case map_of (tg_entitled grant) server of Some l \<Rightarrow> l | None \<Rightarrow> [])) servers,
          mem_entitled = tg_entitled grant,
          mem_subscribed = (case row of Some r \<Rightarrow> row_subscribed r | None \<Rightarrow> False),
          mem_payment_state = Option.bind row row_payment_state, mem_invited_at = Option.bind row row_invited_at,
          mem_customer_id = Option.bind row row_customer_id,
          mem_stripe_email = (case billing of Some (payer, _) \<Rightarrow> if payer \<noteq> toLowerCase shown_email then Some payer else None | None \<Rightarrow> None),
          mem_tag = None\<rparr>)"

subsection \<open>Finishing a row\<close>

definition withShare :: "member \<Rightarrow> plex_access \<Rightarrow> member" where
  "withShare m access =
     (let shares = (if mem_email m = [] then [] else case map_of access (toLowerCase (mem_email m)) of Some s \<Rightarrow> s | None \<Rightarrow> []) in
      if shares = [] then m
      else let servers = sort (js_set (mem_servers m @ map fst shares)) in
        m\<lparr>mem_servers := servers,
          mem_libraries := map (\<lambda>server. (server, case map_of shares server of
              Some share \<Rightarrow> ps_libraries share
            | None \<Rightarrow> (case map_of (mem_libraries m) server of Some l \<Rightarrow> l | None \<Rightarrow> []))) servers\<rparr>)"

definition withPlexAccess :: "member list \<Rightarrow> plex_access option \<Rightarrow> member list" where
  "withPlexAccess members access = (case access of None \<Rightarrow> members | Some a \<Rightarrow> map (\<lambda>m. withShare m a) members)"

record finishing =
  fin_access :: "plex_access option"
  fin_tags :: "(string \<times> member_tag) list"
  fin_downloads :: "(string \<times> bool) list"

definition displayedAddresses :: "member \<Rightarrow> string list" where
  "displayedAddresses m = js_set (toLowerCase (mem_email m) # (case nonempty (mem_stripe_email m) of Some e \<Rightarrow> [e] | None \<Rightarrow> []))"

definition finishMember :: "member \<Rightarrow> finishing \<Rightarrow> string list \<Rightarrow> member" where
  "finishMember m fin addrs =
     (case fin_access fin of None \<Rightarrow> m | Some a \<Rightarrow> withShare m a)
       \<lparr>mem_tag := strongestAcross (fin_tags fin) addrs,
        mem_downloads := (case map_of (fin_downloads fin) (toLowerCase (mem_email m)) of
           Some d \<Rightarrow> Some d | None \<Rightarrow> mem_downloads m)\<rparr>"

definition withOverrides :: "member list \<Rightarrow> (string \<times> member_tag) list \<Rightarrow> (string \<times> bool) list \<Rightarrow> member list" where
  "withOverrides members tags downloads = map (\<lambda>m.
     finishMember m \<lparr>fin_access = None, fin_tags = tags, fin_downloads = downloads\<rparr> (displayedAddresses m)) members"

subsection \<open>The people\<close>

definition rosterSnapshot ::
  "wizarr_user list \<Rightarrow> invitation list \<Rightarrow> (string \<times> customer_row) list \<Rightarrow> (string \<times> string) list \<Rightarrow> identity_snapshot" where
  "rosterSnapshot users invitations customers links =
     \<lparr>snap_users = users, snap_invitations = invitations, snap_links = links, snap_invites = invites_of customers\<rparr>"

definition seed_addresses :: "wizarr_user list \<Rightarrow> (string \<times> customer_row) list \<Rightarrow> string list" where
  "seed_addresses users customers = filter (\<lambda>seed. seed \<noteq> []) (js_set (map emailOf users @ map fst customers))"

definition identity_at :: "identity_snapshot \<Rightarrow> string \<Rightarrow> identity" where
  "identity_at snapshot email = identityFor snapshot (Some email) (map_of (snap_invites snapshot) email)"

definition add_person :: "identity_snapshot \<Rightarrow> (string \<times> identity) list \<Rightarrow> string \<Rightarrow> (string \<times> identity) list" where
  "add_person snapshot found email = (let ident = identity_at snapshot email;
       key = (case primaryAddress ident of Some a \<Rightarrow> a | None \<Rightarrow> email) in
     if key \<in> fst ` set found then found else map_put key ident found)"

definition people :: "identity_snapshot \<Rightarrow> (string \<times> customer_row) list \<Rightarrow> (string \<times> identity) list" where
  "people snapshot customers = foldl (add_person snapshot) [] (seed_addresses (snap_users snapshot) customers)"

text \<open>Local Plex accounts have a username and no address: one row for each username.\<close>

definition add_local :: "(string \<times> identity) list \<Rightarrow> wizarr_user \<Rightarrow> (string \<times> identity) list" where
  "add_local found user = (let key = toLowerCase (text_or_empty (usr_username user)) in
     map_put key \<lparr>primaryAddress = None, addresses = [],
       id_records = (case map_of found key of Some previous \<Rightarrow> id_records previous | None \<Rightarrow> []) @ [user],
       via = ViaNone\<rparr> found)"

definition local_user :: "int list \<Rightarrow> wizarr_user \<Rightarrow> bool" where
  "local_user claimed user \<longleftrightarrow> trim (text_or_empty (usr_email user)) = [] \<and> nonempty (usr_username user) \<noteq> None \<and>
     usr_id user \<notin> set claimed"

definition local_accounts :: "identity_snapshot \<Rightarrow> identity list \<Rightarrow> (string \<times> identity) list" where
  "local_accounts snapshot identities =
     (let claimed = concat (map (\<lambda>ident. map usr_id (everyRecord snapshot ident)) identities) in
      foldl add_local [] (filter (local_user claimed) (snap_users snapshot)))"

definition everyone :: "identity_snapshot \<Rightarrow> (string \<times> customer_row) list \<Rightarrow> identity list" where
  "everyone snapshot customers = (let identities = map snd (people snapshot customers) in
     identities @ map snd (local_accounts snapshot identities))"

definition row_of :: "identity_snapshot \<Rightarrow> (string \<times> customer_row) list \<Rightarrow> library list \<Rightarrow> finishing option \<Rightarrow> identity \<Rightarrow> member" where
  "row_of snapshot customers libraries fin ident = (let m = memberOf ident snapshot customers libraries in
     case fin of None \<Rightarrow> m | Some f \<Rightarrow> finishMember m f (addresses ident))"

definition assembleMembers ::
  "wizarr_user list \<Rightarrow> library list \<Rightarrow> invitation list \<Rightarrow> (string \<times> customer_row) list \<Rightarrow> (string \<times> string) list \<Rightarrow>
   finishing option \<Rightarrow> member list" where
  "assembleMembers users libraries invitations customers links fin =
     (let snapshot = rosterSnapshot users invitations customers links in
      byName (map (row_of snapshot customers libraries fin) (everyone snapshot customers)))"

definition dedupeMembers :: "wizarr_user list \<Rightarrow> (string \<times> customer_row) list \<Rightarrow> library list \<Rightarrow> member list" where
  "dedupeMembers users customers libraries = assembleMembers users libraries [] customers [] None"

subsection \<open>Every person once\<close>

definition clean :: "string \<Rightarrow> string" where
  "clean a = toLowerCase (trim a)"

definition listed_key :: "identity_snapshot \<Rightarrow> string \<Rightarrow> string" where
  "listed_key snapshot a = owner_of (all_links snapshot) (clean a)"

lemma clean_idem [simp]: "clean (clean a) = clean a" "clean (emailOf u) = emailOf u"
  by (simp_all add: clean_def emailOf_def text_simps)

lemma identity_at_simps:
  assumes "a \<noteq> []"
  shows "primaryAddress (identity_at snapshot a) = Some (listed_key snapshot a)"
    "addresses (identity_at snapshot a) = linkedTo (all_links snapshot) (filter (\<lambda>seed. seed \<noteq> [])
       [clean a, case redeemerOf snapshot (map_of (snap_invites snapshot) a) of Some r \<Rightarrow> emailOf r | None \<Rightarrow> []])"
  using assms by (simp_all add: identity_at_def identityFor_def Let_def asked_address_def listed_key_def clean_def)

lemma set_map_put_eq: "distinct_keys m \<Longrightarrow> set (map_put k v m) = insert (k, v) {e \<in> set m. fst e \<noteq> k}"
  by (induction k v m rule: map_put.induct) (auto simp: distinct_keys_def)

lemma people_fold:
  assumes "[] \<notin> set xs"
  shows "distinct_keys (foldl (add_person snapshot) [] xs) \<and>
    (\<forall>(k, i)\<in>set (foldl (add_person snapshot) [] xs). \<exists>a\<in>set xs. k = listed_key snapshot a \<and> i = identity_at snapshot a) \<and>
    fst ` set (foldl (add_person snapshot) [] xs) = listed_key snapshot ` set xs"
  using assms
proof (induction xs rule: rev_induct)
  case (snoc a xs)
  let ?P = "foldl (add_person snapshot) [] xs"
  have "a \<noteq> []" using snoc.prems by auto
  then have step: "add_person snapshot ?P a =
      (if listed_key snapshot a \<in> fst ` set ?P then ?P else map_put (listed_key snapshot a) (identity_at snapshot a) ?P)"
    by (simp add: add_person_def Let_def identity_at_simps)
  show ?case
  proof (cases "listed_key snapshot a \<in> fst ` set ?P")
    case True
    then show ?thesis using snoc step by auto
  next
    case False
    let ?Q = "map_put (listed_key snapshot a) (identity_at snapshot a) ?P"
    have "foldl (add_person snapshot) [] (xs @ [a]) = ?Q" using step False by simp
    moreover have "distinct_keys ?Q" "fst ` set ?Q = listed_key snapshot ` set (xs @ [a])"
      using snoc by (auto simp: keys_map_put)
    moreover have "\<forall>(k, i)\<in>set ?Q. \<exists>e\<in>set (xs @ [a]). k = listed_key snapshot e \<and> i = identity_at snapshot e"
      using snoc by (auto simp: set_map_put_eq)
    ultimately show ?thesis by simp
  qed
qed simp

lemma one_person_addresses:
  assumes "owner_of links b = owner_of links a" "a \<in> set seeds"
  shows "b \<in> set (linkedTo links seeds)"
proof (cases "map_of links b")
  case None
  then show ?thesis using assms by (auto simp: set_linkedTo owner_of_simps)
next
  case (Some d)
  then have "(b, d) \<in> set links" by (rule map_of_SomeD)
  then show ?thesis using assms Some by (auto simp: set_linkedTo owner_of_simps)
qed

lemma set_seed_addresses: "set (seed_addresses users customers) = (emailOf ` set users \<union> fst ` set customers) - {[]}"
  by (auto simp: seed_addresses_def)

lemma people_facts:
  assumes "\<forall>(e, _)\<in>set customers. clean e \<noteq> []"
  shows "distinct (map primaryAddress (map snd (people snapshot customers)))"
    "\<lbrakk>a \<in> set (seed_addresses (snap_users snapshot) customers)\<rbrakk> \<Longrightarrow>
      \<exists>i\<in>snd ` set (people snapshot customers). primaryAddress i = Some (listed_key snapshot a) \<and> clean a \<in> set (addresses i)"
proof -
  let ?seeds = "seed_addresses (snap_users snapshot) customers"
  let ?P = "people snapshot customers"
  have ne: "[] \<notin> set ?seeds" by (simp add: set_seed_addresses)
  note fold = people_fold [OF ne, of snapshot, folded people_def]
  have from_seed: "\<exists>a\<in>set ?seeds. k = listed_key snapshot a \<and> i = identity_at snapshot a" if "(k, i) \<in> set ?P" for k i
    using fold that by blast
  have key: "primaryAddress i = Some k" if "(k, i) \<in> set ?P" for k i
    using from_seed [OF that] ne identity_at_simps(1) by metis
  then have "map primaryAddress (map snd ?P) = map Some (map fst ?P)" by (auto simp: comp_def)
  then show "distinct (map primaryAddress (map snd ?P))"
    using fold by (simp add: distinct_map distinct_keys_def del: map_map)
  show "\<exists>i\<in>snd ` set ?P. primaryAddress i = Some (listed_key snapshot a) \<and> clean a \<in> set (addresses i)"
    if a: "a \<in> set ?seeds"
  proof -
    have "listed_key snapshot a \<in> fst ` set ?P" using fold a by simp
    then obtain i where i: "(listed_key snapshot a, i) \<in> set ?P" by force
    then obtain e where e: "e \<in> set ?seeds" "listed_key snapshot a = listed_key snapshot e" "i = identity_at snapshot e"
      using from_seed by blast
    have "e \<noteq> []" using e(1) ne by metis
    moreover have "clean e \<noteq> []"
    proof (cases "e \<in> fst ` set customers")
      case True
      then show ?thesis using assms by auto
    next
      case False
      then obtain u where "e = emailOf u" using e(1) by (auto simp: set_seed_addresses)
      then show ?thesis using \<open>e \<noteq> []\<close> by simp
    qed
    ultimately have "e \<noteq> []" "clean e \<noteq> []" by simp_all
    then have "clean a \<in> set (addresses i)"
      unfolding e(3) identity_at_simps(2) [OF \<open>e \<noteq> []\<close>]
      by (intro one_person_addresses [of _ _ "clean e"]) (use e(2) in \<open>simp_all add: listed_key_def\<close>)
    then show ?thesis using i key by force
  qed
qed

lemma local_fold:
  "distinct_keys (foldl add_local [] xs) \<and> (\<forall>u\<in>set xs. \<exists>i\<in>snd ` set (foldl add_local [] xs). u \<in> set (id_records i))"
proof (induction xs rule: rev_induct)
  case (snoc x xs)
  let ?L = "foldl add_local [] xs" and ?key = "toLowerCase (text_or_empty (usr_username x))"
  define i where "i = \<lparr>primaryAddress = None, addresses = [],
       id_records = (case map_of ?L ?key of Some previous \<Rightarrow> id_records previous | None \<Rightarrow> []) @ [x], via = ViaNone\<rparr>"
  have step: "foldl add_local [] (xs @ [x]) = map_put ?key i ?L" by (simp add: add_local_def Let_def i_def)
  have dk: "distinct_keys ?L" using snoc by blast
  have "\<exists>j\<in>snd ` set (map_put ?key i ?L). u \<in> set (id_records j)" if u: "u \<in> set xs" for u
  proof -
    obtain k j where kj: "(k, j) \<in> set ?L" "u \<in> set (id_records j)" using snoc u by force
    show ?thesis
    proof (cases "k = ?key")
      case True
      then have "map_of ?L ?key = Some j" using kj dk by (simp add: map_of_iff)
      then have "u \<in> set (id_records i)" using kj by (simp add: i_def)
      then show ?thesis using dk by (force simp: set_map_put_eq)
    next
      case False
      then show ?thesis using kj dk by (force simp: set_map_put_eq)
    qed
  qed
  moreover have "x \<in> set (id_records i)" by (simp add: i_def)
  ultimately show ?case unfolding step using dk by (force simp: set_map_put_eq)
qed simp

lemma everyRecord_ids: "usr_id ` set (everyRecord snapshot i) =
    usr_id ` (set (id_records i) \<union> {u \<in> set (snap_users snapshot). emailOf u \<in> set (addresses i)})"
  by (auto simp: everyRecord_def Let_def image_iff)

text \<open>A record the portal can show has an address or a username.\<close>

definition showable :: "wizarr_user \<Rightarrow> bool" where
  "showable u \<longleftrightarrow> emailOf u \<noteq> [] \<or> nonempty (usr_username u) \<noteq> None"

lemma everyone_reaches:
  assumes "\<forall>(e, _)\<in>set customers. clean e \<noteq> []" "u \<in> set (snap_users snapshot)" "showable u"
  shows "\<exists>i\<in>set (everyone snapshot customers). usr_id u \<in> usr_id ` set (everyRecord snapshot i)"
proof (cases "emailOf u = []")
  case False
  then have "emailOf u \<in> set (seed_addresses (snap_users snapshot) customers)"
    using assms(2) by (simp add: set_seed_addresses)
  then obtain i where "i \<in> snd ` set (people snapshot customers)" "emailOf u \<in> set (addresses i)"
    using people_facts(2) [OF assms(1)] by fastforce
  then show ?thesis using assms(2) unfolding everyRecord_ids everyone_def Let_def by auto
next
  case True
  let ?ids = "map snd (people snapshot customers)"
  let ?claimed = "concat (map (\<lambda>ident. map usr_id (everyRecord snapshot ident)) ?ids)"
  show ?thesis
  proof (cases "usr_id u \<in> set ?claimed")
    case True
    then show ?thesis by (auto simp: everyone_def Let_def)
  next
    case fresh: False
    then have "local_user ?claimed u"
      using True assms(3) by (simp add: local_user_def showable_def emailOf_def)
    then have "u \<in> set (filter (local_user ?claimed) (snap_users snapshot))" using assms(2) by simp
    then obtain i where "i \<in> snd ` set (local_accounts snapshot ?ids)" "u \<in> set (id_records i)"
      using local_fold unfolding local_accounts_def Let_def by blast
    then show ?thesis unfolding everyRecord_ids by (auto simp: everyone_def Let_def)
  qed
qed

text \<open>C32: The member list shows every person exactly once. It is sorted by name, and is the rows of the
  people found; no two of them who have an address share a primary address; whoever holds or pays
  under an address is the one person whose primary address it leads to, and that person's addresses include it; and
  every Wizarr record with an address or a username is held by someone listed.\<close>

theorem roster_lists_everyone_once:
  assumes "\<forall>(e, _)\<in>set customers. clean e \<noteq> []"
  shows "let snapshot = rosterSnapshot users invitations customers links;
             found = map snd (people snapshot customers);
             listed = assembleMembers users libraries invitations customers links fin
         in sorted (map (\<lambda>m. toLowerCase (mem_member m)) listed) \<and>
            mset listed = mset (map (row_of snapshot customers libraries fin) (everyone snapshot customers)) \<and>
            distinct (map primaryAddress found) \<and>
            (\<forall>a\<in>set (seed_addresses users customers). \<exists>i\<in>set found.
               primaryAddress i = Some (listed_key snapshot a) \<and> clean a \<in> set (addresses i)) \<and>
            (\<forall>u\<in>set users. showable u \<longrightarrow>
               (\<exists>i\<in>set (everyone snapshot customers). usr_id u \<in> usr_id ` set (everyRecord snapshot i)))"
proof -
  define snapshot where "snapshot = rosterSnapshot users invitations customers links"
  have users: "snap_users snapshot = users" by (simp add: snapshot_def rosterSnapshot_def)
  show ?thesis
    using people_facts [OF assms, where snapshot = snapshot] everyone_reaches [OF assms, where snapshot = snapshot]
    unfolding Let_def assembleMembers_def byName_def snapshot_def [symmetric] users
    by (auto simp: sorted_sort_key del: notI)
qed

definition sample_row :: "string \<Rightarrow> customer_row" where
  "sample_row code = \<lparr>row_customer_id = Some ''cus_1'', row_invite_code = Some code, row_tier = Some Gold, row_invited_at = None,
     row_subscribed = True, row_payment_state = None\<rparr>"

theorem roster_lists_everyone_once_witness:
  "distinct (map primaryAddress (map snd (people (rosterSnapshot (snap_users chained) (snap_invitations chained) [(''a'', sample_row ''k'')] [])
     [(''a'', sample_row ''k'')])))"
  using roster_lists_everyone_once [of "[(''a'', sample_row ''k'')]" "snap_users chained" "snap_invitations chained" "[]" "[]" None]
  by (simp add: Let_def clean_def toLowerCase_def trim_def is_space_def lower_char_def code_of_def)

subsection \<open>The standing a row shows\<close>

text \<open>The links keep people apart: they are stars, and a redemption joins only addresses the links join.\<close>

definition told_apart :: "identity_snapshot \<Rightarrow> bool" where
  "told_apart snapshot \<longleftrightarrow> star_links (all_links snapshot) \<and>
     (\<forall>(payer, code)\<in>set (snap_invites snapshot). case redeemerOf snapshot (Some code) of
        Some r \<Rightarrow> emailOf r = [] \<or> owner_of (all_links snapshot) (emailOf r) = owner_of (all_links snapshot) payer
      | None \<Rightarrow> True)"

lemma redeemerOf_None [simp]: "redeemerOf snapshot None = None"
  by (simp add: redeemerOf_def)

lemma addresses_are_the_class:
  assumes "told_apart snapshot" "clean a = a" "a \<noteq> []"
  shows "set (addresses (identity_at snapshot a)) = {b. owner_of (all_links snapshot) b = owner_of (all_links snapshot) a}"
proof -
  let ?L = "all_links snapshot"
  let ?red = "case redeemerOf snapshot (map_of (snap_invites snapshot) a) of Some r \<Rightarrow> emailOf r | None \<Rightarrow> []"
  have stars: "star_links ?L" using assms(1) by (simp add: told_apart_def)
  have red: "?red = [] \<or> owner_of ?L ?red = owner_of ?L a"
  proof (cases "map_of (snap_invites snapshot) a")
    case None
    then show ?thesis by simp
  next
    case (Some code)
    then have "(a, code) \<in> set (snap_invites snapshot)" by (rule map_of_SomeD)
    then show ?thesis using assms(1) Some by (auto simp: told_apart_def split: option.splits)
  qed
  have keys: "distinct_keys ?L" by (simp add: all_links_def)
  define seeds where "seeds = filter (\<lambda>s. s \<noteq> []) [a, ?red]"
  have seed: "owner_of ?L s = owner_of ?L a" if "s \<in> set seeds" for s
    using that red unfolding seeds_def by (simp only: set_filter) auto
  have only: "owner_of ?L b = owner_of ?L a" if b: "b \<in> set (linkedTo ?L seeds)" for b
  proof -
    consider "b \<in> set seeds" | s where "s \<in> set seeds" "b = owner_of ?L s"
      | s where "s \<in> set seeds" "(b, owner_of ?L s) \<in> set ?L"
      using b unfolding set_linkedTo by auto
    then show ?thesis
    proof cases
      case 1
      then show ?thesis by (rule seed)
    next
      case 2
      then show ?thesis using seed star_owner [OF stars, of s] by (simp add: owner_of_simps)
    next
      case 3
      then show ?thesis using seed map_of_iff [OF keys] by (metis owner_of_simps(1))
    qed
  qed
  have addrs: "addresses (identity_at snapshot a) = linkedTo ?L seeds"
    unfolding identity_at_simps(2) [OF assms(3)] assms(2) seeds_def by (rule refl)
  show ?thesis
  proof (intro equalityI subsetI CollectI)
    fix b assume "b \<in> set (addresses (identity_at snapshot a))"
    then show "owner_of ?L b = owner_of ?L a" unfolding addrs by (rule only)
  next
    fix b assume "b \<in> {b. owner_of ?L b = owner_of ?L a}"
    then show "b \<in> set (addresses (identity_at snapshot a))"
      unfolding addrs by (intro one_person_addresses [of _ _ a]) (use assms(3) in \<open>simp_all add: seeds_def\<close>)
  qed
qed

lemma strongestAcross_set:
  assumes "set xs = set ys"
  shows "strongestAcross tags xs = strongestAcross tags ys"
proof (cases "strongestAcross tags xs")
  case None
  then have "strongestAcross tags ys = None" using assms by (simp add: strongestAcross_None)
  then show ?thesis using None by simp
next
  case (Some t)
  then have "strongestAcross tags ys = Some t" using assms by (simp add: strongestAcross_Some)
  then show ?thesis using Some by simp
qed

lemma mem_tag_row: "mem_tag (row_of snapshot customers libraries (Some f) i) = strongestAcross (fin_tags f) (addresses i)"
  by (simp add: row_of_def finishMember_def Let_def)

lemma clean_lower: "clean a = a \<Longrightarrow> toLowerCase a = a"
  by (metis clean_def toLowerCase_idem)

lemma person_is_identity_at: "clean a = a \<Longrightarrow> personAt snapshot a = identity_at snapshot a"
  by (simp add: personAt_def identity_at_def clean_lower)

text \<open>C33: The portal shows the tag the access rules act on. While the links keep people apart, a row found for a
  person carries the very standing that a webhook, a sweep or an admin action works out when it is
  asked about any of that person's addresses, so a member shown as banned is banned under each of
  them, and one shown without a tag has none under any.\<close>

theorem roster_shows_the_standing:
  assumes "told_apart snapshot" "\<forall>(e, _)\<in>set customers. clean e = e \<and> e \<noteq> []"
  shows "\<forall>i\<in>snd ` set (people snapshot customers). \<forall>a\<in>set (addresses i). clean a = a \<and> a \<noteq> [] \<longrightarrow>
    mem_tag (row_of snapshot customers libraries (Some f) i) = standingOver (fin_tags f) (personAt snapshot a)"
proof (intro ballI impI)
  fix i a
  assume i: "i \<in> snd ` set (people snapshot customers)" and a: "a \<in> set (addresses i)" "clean a = a \<and> a \<noteq> []"
  have "[] \<notin> set (seed_addresses (snap_users snapshot) customers)" by (simp add: set_seed_addresses)
  note fold = people_fold [OF this, of snapshot, folded people_def]
  obtain k where "(k, i) \<in> set (people snapshot customers)" using i by auto
  then obtain e where e: "e \<in> set (seed_addresses (snap_users snapshot) customers)" "i = identity_at snapshot e"
    using fold by blast
  have "clean e = e \<and> e \<noteq> []"
  proof (cases "e \<in> fst ` set customers")
    case True
    then show ?thesis using assms(2) by auto
  next
    case False
    then obtain u where "e = emailOf u" "e \<noteq> []" using e(1) by (auto simp: set_seed_addresses)
    then show ?thesis by simp
  qed
  then have cls: "set (addresses i) = {b. owner_of (all_links snapshot) b = owner_of (all_links snapshot) e}"
    using addresses_are_the_class [OF assms(1)] e(2) by simp
  have same: "owner_of (all_links snapshot) a = owner_of (all_links snapshot) e" using a(1) unfolding cls mem_Collect_eq .
  have "set (addresses (identity_at snapshot a)) = {b. owner_of (all_links snapshot) b = owner_of (all_links snapshot) a}"
    by (rule addresses_are_the_class [OF assms(1) conjunct1 [OF a(2)] conjunct2 [OF a(2)]])
  then have "set (addresses i) = set (addresses (identity_at snapshot a))" unfolding cls same by (rule sym)
  then have "strongestAcross (fin_tags f) (addresses i) = strongestAcross (fin_tags f) (addresses (identity_at snapshot a))"
    by (rule strongestAcross_set)
  then show "mem_tag (row_of snapshot customers libraries (Some f) i) = standingOver (fin_tags f) (personAt snapshot a)"
    unfolding mem_tag_row standingOver_def person_is_identity_at [OF conjunct1 [OF a(2)]] .
qed

theorem roster_shows_the_standing_witness:
  "mem_tag (row_of (rosterSnapshot [] [] [(''a'', sample_row ''k'')] [(''a'', ''b'')]) [(''a'', sample_row ''k'')] []
       (Some \<lparr>fin_access = None, fin_tags = [(''b'', Banned)], fin_downloads = []\<rparr>)
       (identity_at (rosterSnapshot [] [] [(''a'', sample_row ''k'')] [(''a'', ''b'')]) ''a'')) =
    standingOver [(''b'', Banned)] (personAt (rosterSnapshot [] [] [(''a'', sample_row ''k'')] [(''a'', ''b'')]) ''b'')"
proof -
  define S where "S = rosterSnapshot [] [] [(''a'', sample_row ''k'')] [(''a'', ''b'')]"
  have links: "all_links S = [(''a'', ''b'')]" unfolding S_def by code_simp
  have "told_apart S"
    unfolding told_apart_def links
    by (auto simp: star_links_def S_def rosterSnapshot_def redeemerOf_def split: option.splits)
  note apart = this
  have listed: "people S [(''a'', sample_row ''k'')] = [(''b'', identity_at S ''a'')]" unfolding S_def by code_simp
  have addrs: "''b'' \<in> set (addresses (identity_at S ''a''))" unfolding S_def by code_simp
  have "clean ''a'' = ''a''" "clean ''b'' = ''b''" by code_simp+
  then show ?thesis
    using roster_shows_the_standing [OF apart, of "[(''a'', sample_row ''k'')]" "[]"
        "\<lparr>fin_access = None, fin_tags = [(''b'', Banned)], fin_downloads = []\<rparr>"] addrs
    unfolding S_def [symmetric] listed by simp
qed

end
