(* ===== verification/Queries.thy ===== *)
theory Queries imports Roster AccessSafety begin

text \<open>
  What the portal's read routes answer (\<open>apps/stripe-bridge/src/admin/queries.ts\<close>) and the slow sweep of
  Wizarr and plex.tv the members snapshot keeps (\<open>apps/stripe-bridge/src/admin/membersSnapshot.ts\<close>).
\<close>

record upstream =
  up_users :: "wizarr_user list"
  up_libraries :: "library list"
  up_invitations :: "invitation list"
  up_plex_access :: "plex_access option"

definition plexAccessOrNull :: "env \<Rightarrow> plex_access option run" where
  "plexAccessOrNull b = (if \<not> hasToken b then ret None
     else catchM (bindM (sharedAccessAll b) (\<lambda>a. ret (Some a)))
       (\<lambda>e. case e of PlexUnavailable _ \<Rightarrow> ret None | _ \<Rightarrow> throw e))"

definition fetchUpstream :: "env \<Rightarrow> upstream run" where
  "fetchUpstream b = bindM (bothM (listUsers b) (bothM (listLibraries b) (bothM (listInvitations b) (plexAccessOrNull b))))
     (\<lambda>(users, libraries, invitations, plexAccess).
       ret \<lparr>up_users = users, up_libraries = libraries, up_invitations = invitations, up_plex_access = plexAccess\<rparr>)"

definition finishingFor :: "env \<Rightarrow> plex_access option \<Rightarrow> finishing run" where
  "finishingFor b access = bindM (sql_read b allMemberTags) (\<lambda>tags.
     bindM (sql_read b allMemberDownloads) (\<lambda>downloads.
     ret \<lparr>fin_access = access, fin_tags = tags, fin_downloads = downloads\<rparr>))"

definition listMembers :: "env \<Rightarrow> upstream \<Rightarrow> member list run" where
  "listMembers b up = bindM (sql_read b allCustomerRows) (\<lambda>customers.
     bindM (sql_read b allMemberLinks) (\<lambda>links.
     bindM (finishingFor b (up_plex_access up)) (\<lambda>fin.
     ret (assembleMembers (up_users up) (up_libraries up) (up_invitations up) customers links (Some fin)))))"

definition stripeCustomerIdFor :: "env \<Rightarrow> string \<Rightarrow> string option run" where
  "stripeCustomerIdFor b email = orElse (stripe_searchCustomerId b email) None"

definition withStripeCustomer :: "env \<Rightarrow> member \<Rightarrow> member run" where
  "withStripeCustomer b m = (if nonempty (mem_customer_id m) \<noteq> None \<or> mem_email m = [] then ret m
     else bindM (stripeCustomerIdFor b (mem_email m)) (\<lambda>customerId. ret (m\<lparr>mem_customer_id := customerId\<rparr>)))"

text \<open>The row \<open>getMember\<close> answers with: the listed person at the address, else the customer who stands as
  someone else's payer.\<close>

definition find_member :: "identity_snapshot \<Rightarrow> member list \<Rightarrow> (string \<times> customer_row) list \<Rightarrow> library list \<Rightarrow> finishing \<Rightarrow>
    string \<Rightarrow> member option" where
  "find_member snapshot members customers libraries fin email = (let wanted = toLowerCase email in
     case List.find (\<lambda>m. toLowerCase (mem_email m) = wanted) members of
       Some m \<Rightarrow> Some m
     | None \<Rightarrow> map_option (\<lambda>row. finishMember (memberFromCustomer email row libraries) fin
           (addresses (identityFor snapshot (Some email) (row_invite_code row)))) (map_of customers wanted))"

record page_reads =
  pr_customers :: "(string \<times> customer_row) list"
  pr_libraries :: "library list"
  pr_users :: "wizarr_user list"
  pr_invitations :: "invitation list"
  pr_finishing :: finishing
  pr_links :: "(string \<times> string) list"

definition member_page_reads :: "env \<Rightarrow> page_reads run" where
  \<comment> \<open>everything \<open>getMember\<close> reads before it looks the address up\<close>
  "member_page_reads b = bindM (sql_read b allCustomerRows) (\<lambda>customers.
     bindM (bothM (listLibraries b) (bothM (listUsers b) (orElse (listInvitations b) []))) (\<lambda>(libraries, users, invitations).
     bindM (finishingFor b None) (\<lambda>fin.
     bindM (sql_read b allMemberLinks) (\<lambda>links.
     ret \<lparr>pr_customers = customers, pr_libraries = libraries, pr_users = users, pr_invitations = invitations,
       pr_finishing = fin, pr_links = links\<rparr>))))"

definition page_members :: "page_reads \<Rightarrow> member list" where
  "page_members r = assembleMembers (pr_users r) (pr_libraries r) (pr_invitations r) (pr_customers r) (pr_links r)
     (Some (pr_finishing r))"

definition getMember :: "env \<Rightarrow> string \<Rightarrow> member run" where
  "getMember b email = bindM (member_page_reads b) (\<lambda>r.
     case find_member (rosterSnapshot (pr_users r) (pr_invitations r) (pr_customers r) (pr_links r)) (page_members r)
         (pr_customers r) (pr_libraries r) (pr_finishing r) email of
       None \<Rightarrow> throw (HttpErr 404 ''no member for that email'')
     | Some m \<Rightarrow> withStripeCustomer b m)"

definition plexAccessFor :: "env \<Rightarrow> string \<Rightarrow> (string \<times> plex_shares) run" where
  "plexAccessFor b email =
     (if \<not> hasToken b then throw (HttpErr 503 ''PLEX_TOKEN not configured'')
      else catchM (bindM (sharedAccessForEmail b email) (\<lambda>servers. ret (email, servers)))
        (\<lambda>e. case e of PlexUnavailable _ \<Rightarrow> throw (HttpErr 502 ''plex.tv lookup failed'') | _ \<Rightarrow> throw e))"

subsection \<open>What they may do\<close>

lemma emits_queries:
  "keeps (emits reads) (fetchUpstream b)" "keeps (emits reads) (listMembers b up)"
  "keeps (emits reads) (getMember b email)" "keeps (emits reads) (plexAccessFor b email)"
  unfolding fetchUpstream_def plexAccessOrNull_def listMembers_def getMember_def member_page_reads_def plexAccessFor_def finishingFor_def
    withStripeCustomer_def stripeCustomerIdFor_def Let_def
  by (auto intro!: emits_intros emits_clients split: exn.splits option.splits prod.splits)

lemma table_queries:
  "keeps (same_table id) (fetchUpstream b)" "keeps (same_table id) (listMembers b up)"
  "keeps (same_table id) (getMember b email)" "keeps (same_table id) (plexAccessFor b email)"
  unfolding fetchUpstream_def plexAccessOrNull_def listMembers_def getMember_def member_page_reads_def plexAccessFor_def finishingFor_def
    withStripeCustomer_def stripeCustomerIdFor_def sharedAccessForEmail_def Let_def
  by (auto intro!: table_intros table_clients split: exn.splits option.splits prod.splits)

lemma find_member_email:
  assumes "find_member snapshot members customers libraries fin email = Some m"
  shows "toLowerCase (mem_email m) = toLowerCase email"
proof -
  have share: "mem_email (withShare m' a) = mem_email m'" for m' a by (simp add: withShare_def Let_def)
  have "mem_email (finishMember (memberFromCustomer email row libraries) fin addrs) = email" for row addrs
    by (cases "fin_access fin") (simp_all add: finishMember_def memberFromCustomer_def Let_def share)
  then show ?thesis
    using assms by (auto simp: find_member_def Let_def dest!: find_in_set split: option.splits)
qed

lemma find_member_None: "find_member snapshot members customers libraries fin email = None \<longleftrightarrow>
    toLowerCase email \<notin> (\<lambda>m. toLowerCase (mem_email m)) ` set members \<and> map_of customers (toLowerCase email) = None"
  by (auto simp: find_member_def Let_def find_None image_iff split: option.splits dest!: find_in_set) metis

lemma withStripeCustomer_email:
  "wp (withStripeCustomer b m) (\<lambda>m' _. mem_email m' = mem_email m \<and> (nonempty (mem_customer_id m) \<noteq> None \<longrightarrow> m' = m)) (\<lambda>_ _. False) w"
proof -
  have "never_throws (stripeCustomerIdFor b (mem_email m))" by (simp add: stripeCustomerIdFor_def)
  then have "wp (stripeCustomerIdFor b (mem_email m)) (\<lambda>_ _. True) (\<lambda>_ _. False) w" by (simp add: never_throws_def)
  then have "wp (bindM (stripeCustomerIdFor b (mem_email m)) (\<lambda>customerId. ret (m\<lparr>mem_customer_id := customerId\<rparr>)))
      (\<lambda>m' _. mem_email m' = mem_email m) (\<lambda>_ _. False) w"
    by (rule wp_bind_cons) (simp_all add: wp_ret)
  then show ?thesis by (auto simp: withStripeCustomer_def wp_ret elim: wp_cons)
qed

lemma withStripeCustomer_row: "\<exists>m v. withStripeCustomer b m0 w = (Inr m, v) \<and> mem_email m = mem_email m0 \<and>
    m = (if nonempty (mem_customer_id m0) = None then m0\<lparr>mem_customer_id := mem_customer_id m\<rparr> else m0)"
proof -
  have "\<exists>i v. stripeCustomerIdFor b (mem_email m0) w = (Inr i, v)"
    by (simp add: stripeCustomerIdFor_def orElse_def catchM_def ret_def split: prod.split sum.split)
  then show ?thesis by (auto simp: withStripeCustomer_def bindM_def ret_def)
qed

text \<open>What a member page answers, from what it read: the error of a read that failed, 404 when the address
  is neither listed nor a customer's, and otherwise a row.\<close>

definition page_answer :: "env \<Rightarrow> string \<Rightarrow> (exn + page_reads) \<times> world \<Rightarrow> (exn + member) \<times> world \<Rightarrow> bool" where
  "page_answer b email reading answer \<longleftrightarrow> (case reading of
     (Inl e, u) \<Rightarrow> answer = (Inl e, u)
   | (Inr r, u) \<Rightarrow> (let listed = {m \<in> set (page_members r). toLowerCase (mem_email m) = toLowerCase email} in
       if listed = {} \<and> map_of (pr_customers r) (toLowerCase email) = None
       then answer = (Inl (HttpErr 404 ''no member for that email''), u)
       else (\<exists>m v. answer = (Inr m, v) \<and> (if listed = {} then mem_email m = email
         else (\<exists>m0\<in>listed. m = (if nonempty (mem_customer_id m0) = None then m0\<lparr>mem_customer_id := mem_customer_id m\<rparr> else m0))))))"

lemma find_member_row:
  assumes "find_member snapshot members customers libraries fin email = Some m"
  shows "m \<in> set members \<and> toLowerCase (mem_email m) = toLowerCase email \<or>
    toLowerCase email \<notin> (\<lambda>m. toLowerCase (mem_email m)) ` set members \<and> mem_email m = email"
proof (cases "List.find (\<lambda>m. toLowerCase (mem_email m) = toLowerCase email) members")
  case (Some x)
  then show ?thesis using assms by (auto simp: find_member_def Let_def dest!: find_in_set)
next
  case None
  have share: "mem_email (withShare m' a) = mem_email m'" for m' a by (simp add: withShare_def Let_def)
  have "mem_email (finishMember (memberFromCustomer email row libraries) fin addrs) = email" for row addrs
    by (cases "fin_access fin") (simp_all add: finishMember_def memberFromCustomer_def Let_def share)
  then show ?thesis using assms None by (auto simp: find_member_def Let_def find_None_iff)
qed

lemma getMember_answer: "page_answer b email (member_page_reads b w) (getMember b email w)"
proof (cases "member_page_reads b w")
  case reading: (Pair outcome u)
  show ?thesis
  proof (cases outcome)
    case (Inl e)
    then show ?thesis using reading by (simp add: page_answer_def getMember_def bindM_def)
  next
    case (Inr r)
    let ?found = "find_member (rosterSnapshot (pr_users r) (pr_invitations r) (pr_customers r) (pr_links r)) (page_members r)
         (pr_customers r) (pr_libraries r) (pr_finishing r) email"
    have ran: "getMember b email w = (case ?found of None \<Rightarrow> (Inl (HttpErr 404 ''no member for that email''), u)
        | Some m \<Rightarrow> withStripeCustomer b m u)"
      using reading Inr by (simp add: getMember_def bindM_def throw_def split: option.split)
    let ?listed = "{m \<in> set (page_members r). toLowerCase (mem_email m) = toLowerCase email}"
    have none: "?found = None \<longleftrightarrow> ?listed = {} \<and> map_of (pr_customers r) (toLowerCase email) = None"
      unfolding find_member_None by (force simp: image_iff)
    show ?thesis
    proof (cases ?found)
      case None
      then show ?thesis using reading Inr ran none by (simp add: page_answer_def Let_def)
    next
      case (Some m0)
      obtain m v where m: "withStripeCustomer b m0 u = (Inr m, v)" "mem_email m = mem_email m0"
        "m = (if nonempty (mem_customer_id m0) = None then m0\<lparr>mem_customer_id := mem_customer_id m\<rparr> else m0)"
        using withStripeCustomer_row by blast
      have "getMember b email w = (Inr m, v)" using ran Some m(1) by simp
      moreover have "if ?listed = {} then mem_email m = email else m0 \<in> ?listed"
        using find_member_row [OF Some] m(2) by (auto simp: image_iff)
      moreover have "\<not> (?listed = {} \<and> map_of (pr_customers r) (toLowerCase email) = None)" using none Some by simp
      ultimately show ?thesis
        using reading Inr m(3) unfolding page_answer_def Let_def by (auto split: if_splits)
    qed
  qed
qed

lemma getMember_email: "wp (getMember b email) (\<lambda>m _. toLowerCase (mem_email m) = toLowerCase email) (\<lambda>_ _. True) w"
  unfolding getMember_def
  by (rule wp_bind_cons [OF wp_true])
    (auto simp: wp_throw dest!: find_member_email split: option.splits intro: wp_cons [OF withStripeCustomer_email])

lemma plexAccessFor_outcome:
  "wp (plexAccessFor b email) (\<lambda>r _. hasToken b \<and> fst r = email)
     (\<lambda>e v. if hasToken b then \<forall>m. e \<noteq> PlexUnavailable m else e = HttpErr 503 ''PLEX_TOKEN not configured'' \<and> v = w) w"
proof (cases "hasToken b")
  case True
  have "wp (bindM (sharedAccessForEmail b email) (\<lambda>servers. ret (email, servers))) (\<lambda>r _. fst r = email) (\<lambda>_ _. True) w"
    by (rule wp_bind_cons [OF wp_true]) (simp_all add: wp_ret)
  then show ?thesis
    using True by (auto simp: plexAccessFor_def wp_catchM wp_throw elim!: wp_cons split: exn.splits)
qed (simp add: plexAccessFor_def wp_throw)

lemma wp_keeps: "keeps R m \<Longrightarrow> wp m (\<lambda>_. R s) (\<lambda>_. R s) s"
  by (simp add: keeps_wp)

text \<open>C34: Reading a member changes nothing and answers about the person asked for. The member page only reads
  from Wizarr, plex.tv, Stripe and the store, whether it answers or fails, and the row it answers with
  carries the address asked for, in whatever case; the share page answers for the address it was
  given, asks for nothing and refuses with 503 when no plex.tv token is configured, and never lets a plex.tv outage
  out as itself. Once its reads succeeded the member page answers 404 exactly for an address that nobody
  in the assembled list carries and that no customer row is stored under, and never fails otherwise: a listed
  address is answered with its listed row, where only a missing Stripe customer is filled in. A read that failed is
  passed on as it is.\<close>

theorem member_pages_only_read:
  "wp (getMember b email) (\<lambda>m v. toLowerCase (mem_email m) = toLowerCase email \<and> emits reads w v \<and> w_db v = w_db w)
      (\<lambda>_ v. emits reads w v \<and> w_db v = w_db w) w \<and>
   wp (plexAccessFor b email) (\<lambda>r v. hasToken b \<and> fst r = email \<and> emits reads w v \<and> w_db v = w_db w)
      (\<lambda>e v. (if hasToken b then e \<notin> range PlexUnavailable else e = HttpErr 503 ''PLEX_TOKEN not configured'' \<and> v = w) \<and>
         emits reads w v \<and> w_db v = w_db w) w \<and>
   (case (member_page_reads b w, getMember b email w) of
      ((Inl e, u), answer) \<Rightarrow> answer = (Inl e, u)
    | ((Inr r, u), answer) \<Rightarrow>
        (let listed = {m \<in> set (page_members r). toLowerCase (mem_email m) = toLowerCase email} in
         if listed = {} \<and> map_of (pr_customers r) (toLowerCase email) = None
         then answer = (Inl (HttpErr 404 ''no member for that email''), u)
         else (\<exists>m v. answer = (Inr m, v) \<and> (if listed = {} then mem_email m = email
           else (\<exists>m0\<in>listed. m = (if nonempty (mem_customer_id m0) = None then m0\<lparr>mem_customer_id := mem_customer_id m\<rparr> else m0))))))"
proof -
  have frames: "keeps (\<lambda>w v. emits reads w v \<and> w_db v = w_db w) (getMember b email)"
    "keeps (\<lambda>w v. emits reads w v \<and> w_db v = w_db w) (plexAccessFor b email)"
    using emits_queries(3,4) table_queries(3,4) by (simp_all add: keeps_def same_table_def)
  have page: "wp (getMember b email) (\<lambda>m v. toLowerCase (mem_email m) = toLowerCase email \<and> emits reads w v \<and> w_db v = w_db w)
      (\<lambda>_ v. emits reads w v \<and> w_db v = w_db w) w"
    using wp_conj [OF getMember_email wp_keeps [OF frames(1)]] by (rule wp_cons) simp_all
  have shares: "wp (plexAccessFor b email) (\<lambda>r v. hasToken b \<and> fst r = email \<and> emits reads w v \<and> w_db v = w_db w)
      (\<lambda>e v. (if hasToken b then e \<notin> range PlexUnavailable else e = HttpErr 503 ''PLEX_TOKEN not configured'' \<and> v = w) \<and>
         emits reads w v \<and> w_db v = w_db w) w"
    using wp_conj [OF plexAccessFor_outcome wp_keeps [OF frames(2)]] by (rule wp_cons) (auto split: if_splits)
  show ?thesis
    using page shares getMember_answer [of b email w, unfolded page_answer_def]
    by (cases "member_page_reads b w"; cases "fst (member_page_reads b w)") simp_all
qed

end
