(* ===== verification/Snapshot.thy ===== *)
theory Snapshot imports Effects begin

text \<open>
  The last known result of a slow fetch, refreshed off the request path
  (\<open>apps/stripe-bridge/src/snapshot.ts\<close>). Fetches run concurrently: each has a number here, and what
  the code does while one is under way is a step on the state. A fetch that answers null or
  undefined answers \<open>None\<close>, which counts as nothing cached.
\<close>

record 'a snapshot_state =
  sn_value :: "'a option"
  sn_in_flight :: "nat option"
  sn_fetching :: "nat list"
  sn_next :: nat

definition new_snapshot :: "'a snapshot_state" where
  "new_snapshot = \<lparr>sn_value = None, sn_in_flight = None, sn_fetching = [], sn_next = 0\<rparr>"

definition refreshing :: "'a snapshot_state \<Rightarrow> bool" where
  "refreshing s \<longleftrightarrow> sn_in_flight s \<noteq> None"

definition snapshot_refresh :: "'a snapshot_state \<Rightarrow> 'a snapshot_state" where
  \<comment> \<open>\<open>refresh()\<close> up to its \<open>await\<close>: the fetch is started, its answer is \<open>fetch_answers\<close>\<close>
  "snapshot_refresh s = s\<lparr>sn_fetching := sn_next s # sn_fetching s, sn_next := sn_next s + 1\<rparr>"

definition snapshot_get :: "'a snapshot_state \<Rightarrow> 'a option \<times> 'a snapshot_state" where
  \<comment> \<open>the value served at once, or a fetch to wait for\<close>
  "snapshot_get s = (case sn_value s of Some v \<Rightarrow> (Some v, s) | None \<Rightarrow> (None, snapshot_refresh s))"

definition refreshAsync :: "'a snapshot_state \<Rightarrow> 'a snapshot_state" where
  "refreshAsync s = (if refreshing s then s else (snapshot_refresh s)\<lparr>sn_in_flight := Some (sn_next s)\<rparr>)"

definition fetch_answers :: "nat \<Rightarrow> exn + 'a option \<Rightarrow> 'a snapshot_state \<Rightarrow> 'a snapshot_state" where
  "fetch_answers n r s = s\<lparr>sn_value := (case r of Inr v \<Rightarrow> v | Inl _ \<Rightarrow> sn_value s),
     sn_in_flight := (if sn_in_flight s = Some n then None else sn_in_flight s),
     sn_fetching := remove1 n (sn_fetching s)\<rparr>"

definition snapshot_clear :: "'a snapshot_state \<Rightarrow> 'a snapshot_state" where
  "snapshot_clear s = s\<lparr>sn_value := None\<rparr>"

subsection \<open>What is served\<close>

datatype 'a snapshot_event = Asked | Refreshed | Kicked | Answered nat "exn + 'a option" | Cleared

fun snapshot_step :: "'a snapshot_event \<Rightarrow> 'a snapshot_state \<Rightarrow> 'a snapshot_state" where
  "snapshot_step Asked s = snd (snapshot_get s)"
| "snapshot_step Refreshed s = snapshot_refresh s"
| "snapshot_step Kicked s = refreshAsync s"
| "snapshot_step (Answered n r) s = fetch_answers n r s"
| "snapshot_step Cleared s = snapshot_clear s"

inductive snapshot_run :: "'a snapshot_event list \<Rightarrow> 'a snapshot_state \<Rightarrow> bool" where
  fresh: "snapshot_run [] new_snapshot"
| next_event: "snapshot_run es s \<Longrightarrow> (\<And>n r. e = Answered n r \<Longrightarrow> n \<in> set (sn_fetching s)) \<Longrightarrow> snapshot_run (es @ [e]) (snapshot_step e s)"

text \<open>What the answers so far, read in the order they came, leave to be served.\<close>

fun then_served :: "'a option \<Rightarrow> 'a snapshot_event \<Rightarrow> 'a option" where
  "then_served served (Answered _ (Inr v)) = v"
| "then_served served Cleared = None"
| "then_served served _ = served"

definition snapshot_ok :: "'a snapshot_event list \<Rightarrow> 'a snapshot_state \<Rightarrow> bool" where
  "snapshot_ok es s \<longleftrightarrow> sn_value s = foldl then_served None es \<and> distinct (sn_fetching s) \<and>
     (\<forall>n\<in>set (sn_fetching s). n < sn_next s) \<and> (\<forall>n. sn_in_flight s = Some n \<longrightarrow> n \<in> set (sn_fetching s))"

lemma served_step: "sn_value (snapshot_step e s) = then_served (sn_value s) e"
proof (cases e)
  case (Answered n r)
  then show ?thesis by (cases r) (simp_all add: fetch_answers_def)
qed (simp_all add: snapshot_get_def snapshot_refresh_def refreshAsync_def snapshot_clear_def split: option.splits)

lemma started_ok: "snapshot_ok es s \<Longrightarrow> distinct (sn_fetching (snapshot_refresh s)) \<and>
    (\<forall>n\<in>set (sn_fetching (snapshot_refresh s)). n < sn_next (snapshot_refresh s))"
  by (auto simp: snapshot_ok_def snapshot_refresh_def)

lemma snapshot_step_ok: "snapshot_ok es s \<Longrightarrow> snapshot_ok (es @ [e]) (snapshot_step e s)"
proof -
  assume ok: "snapshot_ok es s"
  then have "sn_value (snapshot_step e s) = foldl then_served None (es @ [e])"
    by (simp add: served_step snapshot_ok_def)
  moreover have "distinct (sn_fetching (snapshot_step e s)) \<and> (\<forall>n\<in>set (sn_fetching (snapshot_step e s)). n < sn_next (snapshot_step e s)) \<and>
      (\<forall>n. sn_in_flight (snapshot_step e s) = Some n \<longrightarrow> n \<in> set (sn_fetching (snapshot_step e s)))"
  proof (cases e)
    case (Answered n r)
    then show ?thesis using ok by (auto simp: snapshot_ok_def fetch_answers_def set_remove1_eq)
  qed (use ok in \<open>auto simp: snapshot_ok_def snapshot_get_def snapshot_refresh_def refreshAsync_def refreshing_def
      snapshot_clear_def split: option.splits\<close>)
  ultimately show ?thesis by (simp add: snapshot_ok_def)
qed

lemma snapshot_run_ok: "snapshot_run es s \<Longrightarrow> snapshot_ok es s"
  by (induction rule: snapshot_run.induct) (simp add: snapshot_ok_def new_snapshot_def, rule snapshot_step_ok)

text \<open>C35: The snapshot serves the last successful answer and refreshes one at a time in the background.
  However fetches overlap and fail, the cached value is what the last fetch to succeed since it was
  last cleared answered, so a failed refresh changes nothing; while one is cached a reader gets it at once
  and starts nothing; at most one background refresh runs, kicking another meanwhile does nothing, and
  when its fetch settles, however it settles, the next kick starts a new one.\<close>

theorem snapshot_serves_last_success:
  assumes "snapshot_run es s"
  shows "sn_value s = foldl then_served None es \<and>
    (\<forall>v. sn_value s = Some v \<longrightarrow> snapshot_get s = (Some v, s)) \<and>
    (refreshing s \<longrightarrow> refreshAsync s = s) \<and>
    (\<forall>n. sn_in_flight s = Some n \<longrightarrow> n \<in> set (sn_fetching s) \<and>
       (\<forall>r. \<not> refreshing (fetch_answers n r s) \<and> refreshing (refreshAsync (fetch_answers n r s)))) \<and>
    sn_value (fetch_answers m (Inl e) s) = sn_value s"
  using snapshot_run_ok [OF assms]
  by (auto simp: snapshot_ok_def snapshot_get_def refreshAsync_def refreshing_def fetch_answers_def snapshot_refresh_def)

theorem snapshot_serves_last_success_witness:
  "sn_value (snapshot_step (Answered 0 (Inl (Failure ''down''))) (snapshot_step Kicked (snapshot_step (Answered 0 (Inr (Some (7::int))))
     (snapshot_step Asked new_snapshot)))) = Some 7"
proof -
  have "snapshot_run ((([] @ [Asked]) @ [Answered 0 (Inr (Some (7::int)))]) @ [Kicked])
      (snapshot_step Kicked (snapshot_step (Answered 0 (Inr (Some 7))) (snapshot_step Asked new_snapshot)))"
    by (intro snapshot_run.intros) (simp_all add: snapshot_get_def new_snapshot_def snapshot_refresh_def)
  from snapshot_serves_last_success [OF this, of 0 "Failure ''down''"]
  show ?thesis by (simp add: fetch_answers_def)
qed

end
