(* ===== verification/PythonMath.thy ===== *)
theory PythonMath imports Complex_Main Prelude begin

text \<open>
  Python's number formatting where the monitor serves numbers Python computed
  (\<open>apps/fleet-monitor/src/pythonMath.ts\<close>). A number is an exact rational: the doubles of the program
  are the rationals \<open>m / 2 ^ k\<close>, and the rounding a double operation adds to its exact result is not modelled.
\<close>

subsection \<open>Rounding\<close>

definition toFixed :: "rat \<Rightarrow> nat \<Rightarrow> rat" where
  \<comment> \<open>\<open>Number(value.toFixed(digits))\<close>: the nearest decimal, the larger magnitude when two are as near\<close>
  "toFixed value digits =
     (let n = \<lfloor>\<bar>value\<bar> * 10 ^ digits + 1 / 2\<rfloor> in (if value < 0 then - 1 else 1) * of_int n / 10 ^ digits)"

definition is_integer :: "rat \<Rightarrow> bool" where
  "is_integer x \<longleftrightarrow> of_int \<lfloor>x\<rfloor> = x"

definition pythonRound :: "rat \<Rightarrow> nat \<Rightarrow> rat" where
  "pythonRound value digits =
     (let halves = value * 2 ^ (digits + 1) in
      if \<not> is_integer halves \<or> even \<lfloor>halves\<rfloor> then toFixed value digits
      else let below = \<lfloor>value * 10 ^ digits\<rfloor> in (if even below then of_int below else of_int (below + 1)) / 10 ^ digits)"

definition pythonSum :: "rat list \<Rightarrow> rat" where
  "pythonSum values =
     (let (total, compensation) = foldl (\<lambda>(total, compensation) value.
          let next = total + value;
              lost = (if \<bar>total\<bar> \<ge> \<bar>value\<bar> then total - next + value else value - next + total)
          in (next, compensation + lost)) (0, 0) values
      in if compensation \<noteq> 0 then total + compensation else total)"

definition js_trunc :: "rat \<Rightarrow> int" where
  "js_trunc x = (if x < 0 then - \<lfloor>- x\<rfloor> else \<lfloor>x\<rfloor>)"

definition js_rem :: "rat \<Rightarrow> rat \<Rightarrow> rat" where
  \<comment> \<open>\<open>a % b\<close>, C's \<open>fmod\<close>: the remainder has the sign of the dividend\<close>
  "js_rem a b = a - of_int (js_trunc (a / b)) * b"

definition floorDivide :: "rat \<Rightarrow> rat \<Rightarrow> rat" where
  "floorDivide dividend divisor =
     (let remainder = js_rem dividend divisor;
          borrow = (if remainder \<noteq> 0 \<and> (remainder < 0) \<noteq> (divisor < 0) then 1 else 0);
          quotient = (dividend - remainder) / divisor - borrow
      in if quotient = 0 then 0
         else let floored = of_int \<lfloor>quotient\<rfloor> in if quotient - floored > 1 / 2 then floored + 1 else floored)"

subsection \<open>Facts\<close>

text \<open>The decimal nearest a number, a tie going to the even digit: what Python's \<open>round\<close> answers.\<close>

definition half_even :: "rat \<Rightarrow> nat \<Rightarrow> rat" where
  "half_even value digits =
     (let n = \<lfloor>value * 10 ^ digits\<rfloor>; rest = value * 10 ^ digits - of_int n in
      of_int (if rest < 1 / 2 then n else if rest > 1 / 2 then n + 1 else if even n then n else n + 1) / 10 ^ digits)"

text \<open>The numbers a double can hold.\<close>

definition dyadic :: "rat \<Rightarrow> bool" where
  "dyadic value \<longleftrightarrow> (\<exists>m k. value * 2 ^ k = of_int m)"

lemma pythonSum_is_sum: "pythonSum values = sum_list values"
proof -
  have "foldl (\<lambda>(total, compensation) value.
          let next = total + value;
              lost = (if \<bar>total\<bar> \<ge> \<bar>value\<bar> then total - next + value else value - next + total)
          in (next, compensation + lost)) (s, 0) values = (s + sum_list values, 0)" for s :: rat
    by (induction "values" arbitrary: s) (simp_all add: Let_def)
  from this [of 0] show ?thesis unfolding pythonSum_def by simp
qed

lemma floor_half: "\<lfloor>x + 1 / 2\<rfloor> = (if x - of_int \<lfloor>x\<rfloor> < 1 / 2 then \<lfloor>x\<rfloor> else \<lfloor>x\<rfloor> + 1)" for x :: rat
proof (cases "x - of_int \<lfloor>x\<rfloor> < 1 / 2")
  case True
  then have "\<lfloor>x + 1 / 2\<rfloor> = \<lfloor>x\<rfloor>" by (intro floor_unique) linarith+
  then show ?thesis using True by simp
next
  case False
  then have "\<lfloor>x + 1 / 2\<rfloor> = \<lfloor>x\<rfloor> + 1" by (intro floor_unique) (simp_all, linarith+)
  then show ?thesis using False by simp
qed

lemma toFixed_no_tie:
  assumes "value * 10 ^ digits - of_int \<lfloor>value * 10 ^ digits\<rfloor> \<noteq> 1 / 2"
  shows "toFixed value digits = half_even value digits"
proof (cases "value < 0")
  case False
  then show ?thesis using assms floor_half [of "value * 10 ^ digits"]
    by (simp add: toFixed_def half_even_def Let_def)
next
  case True
  define x where "x = value * 10 ^ digits"
  have "\<lfloor>- x + 1 / 2\<rfloor> = - (if x - of_int \<lfloor>x\<rfloor> < 1 / 2 then \<lfloor>x\<rfloor> else \<lfloor>x\<rfloor> + 1)"
    by (rule floor_unique) (use assms [folded x_def] in \<open>auto split: if_splits; linarith\<close>)+
  then show ?thesis using True assms [folded x_def] unfolding toFixed_def half_even_def Let_def x_def [symmetric]
    by (auto simp: abs_if x_def [symmetric])
qed

lemma integer_of_coprime_multiples:
  fixes h :: rat and a b u v :: int
  assumes "coprime a b" "h * of_int a = of_int u" "h * of_int b = of_int v"
  shows "\<exists>i. h = of_int i"
proof -
  obtain s t where "s * a + t * b = 1" using bezout_int [of a b] assms(1) by auto
  then have "h = h * of_int (s * a + t * b)" by simp
  also have "\<dots> = of_int s * (h * of_int a) + of_int t * (h * of_int b)" by (simp add: algebra_simps)
  also have "\<dots> = of_int (s * u + t * v)" unfolding assms(2,3) by simp
  finally show ?thesis by blast
qed

text \<open>A double lies exactly between two decimals only when it is an odd multiple of \<open>2 ^ - (digits + 1)\<close>.\<close>

lemma tie_iff:
  assumes "dyadic value"
  shows "value * 10 ^ digits - of_int \<lfloor>value * 10 ^ digits\<rfloor> = 1 / 2 \<longleftrightarrow>
    is_integer (value * 2 ^ (digits + 1)) \<and> odd \<lfloor>value * 2 ^ (digits + 1)\<rfloor>"
    (is "?x - of_int \<lfloor>?x\<rfloor> = 1 / 2 \<longleftrightarrow> is_integer ?h \<and> odd \<lfloor>?h\<rfloor>")
proof
  have ten: "(10::rat) ^ digits = 2 ^ digits * 5 ^ digits" by (simp flip: power_mult_distrib)
  have h5: "?h * 5 ^ digits = 2 * ?x" by (simp add: ten)
  assume tie: "?x - of_int \<lfloor>?x\<rfloor> = 1 / 2"
  then have "2 * ?x = of_int (2 * \<lfloor>?x\<rfloor> + 1)" by simp
  then have "?h * of_int (5 ^ digits) = of_int (2 * \<lfloor>?x\<rfloor> + 1)" using h5 by simp
  moreover obtain m k where "value * 2 ^ k = of_int m" using assms by (auto simp: dyadic_def)
  then have "?h * of_int (2 ^ k) = of_int (m * 2 ^ (digits + 1))" by (simp add: algebra_simps)
  moreover have "coprime (5 ^ digits :: int) (2 ^ k)" by simp
  ultimately obtain i where i: "?h = of_int i" using integer_of_coprime_multiples by blast
  then have "of_int (i * 5 ^ digits) = (of_int (2 * \<lfloor>?x\<rfloor> + 1) :: rat)"
    using \<open>?h * of_int (5 ^ digits) = of_int (2 * \<lfloor>?x\<rfloor> + 1)\<close> by simp
  then have "i * 5 ^ digits = 2 * \<lfloor>?x\<rfloor> + 1" by (simp only: of_int_eq_iff)
  then have "odd i" by (metis even_mult_iff even_plus_one_iff dvd_triv_left)
  then show "is_integer ?h \<and> odd \<lfloor>?h\<rfloor>" unfolding i is_integer_def by simp
next
  have ten: "(10::rat) ^ digits = 2 ^ digits * 5 ^ digits" by (simp flip: power_mult_distrib)
  assume h: "is_integer ?h \<and> odd \<lfloor>?h\<rfloor>"
  then have "odd (\<lfloor>?h\<rfloor> * 5 ^ digits)" by simp
  then obtain n where n: "\<lfloor>?h\<rfloor> * 5 ^ digits = 2 * n + 1" by (rule oddE)
  have "2 * ?x = ?h * 5 ^ digits" by (simp add: ten)
  also have "\<dots> = of_int \<lfloor>?h\<rfloor> * 5 ^ digits" using h unfolding is_integer_def by metis
  also have "\<dots> = of_int (\<lfloor>?h\<rfloor> * 5 ^ digits)" by simp
  finally have x: "?x = of_int n + 1 / 2" unfolding n by simp
  then have "\<lfloor>?x\<rfloor> = n" by (simp add: floor_unique)
  then show "?x - of_int \<lfloor>?x\<rfloor> = 1 / 2" using x by simp
qed

lemma pythonRound_half_even:
  assumes "dyadic value"
  shows "pythonRound value digits = half_even value digits"
proof (cases "is_integer (value * 2 ^ (digits + 1)) \<and> odd \<lfloor>value * 2 ^ (digits + 1)\<rfloor>")
  case True
  then have "value * 10 ^ digits - of_int \<lfloor>value * 10 ^ digits\<rfloor> = 1 / 2" using tie_iff [OF assms] by blast
  then show ?thesis using True by (simp add: pythonRound_def half_even_def Let_def)
next
  case False
  then have "value * 10 ^ digits - of_int \<lfloor>value * 10 ^ digits\<rfloor> \<noteq> 1 / 2" using tie_iff [OF assms] by blast
  moreover have "pythonRound value digits = toFixed value digits" using False by (auto simp: pythonRound_def Let_def)
  ultimately show ?thesis by (simp add: toFixed_no_tie)
qed

lemma floorDivide_floor:
  assumes "divisor \<noteq> 0"
  shows "floorDivide dividend divisor = of_int \<lfloor>dividend / divisor\<rfloor>"
proof -
  define q where "q = dividend / divisor"
  define r where "r = js_rem dividend divisor"
  have r: "r = (q - of_int (js_trunc q)) * divisor"
    using assms by (simp add: r_def js_rem_def q_def algebra_simps)
  moreover have "dividend = q * divisor" using assms by (simp add: q_def)
  ultimately have "dividend - r = of_int (js_trunc q) * divisor" by (simp add: algebra_simps)
  then have quotient: "(dividend - r) / divisor = of_int (js_trunc q)" using assms by simp
  have borrow: "r \<noteq> 0 \<and> (r < 0) \<noteq> (divisor < 0) \<longleftrightarrow> q - of_int (js_trunc q) < 0"
    using assms unfolding r by (auto simp: mult_less_0_iff)
  have "of_int (js_trunc q) - (if q - of_int (js_trunc q) < 0 then 1 else 0) = (of_int \<lfloor>q\<rfloor> :: rat)"
    using of_int_floor_le [of q] floor_less_iff [of q "\<lfloor>q\<rfloor> + 1"] by (auto simp: js_trunc_def floor_minus ceiling_altdef not_less)
  then have "(dividend - r) / divisor - (if r \<noteq> 0 \<and> (r < 0) \<noteq> (divisor < 0) then 1 else 0) = of_int \<lfloor>q\<rfloor>"
    unfolding quotient borrow .
  then show ?thesis unfolding floorDivide_def Let_def r_def [symmetric] q_def [symmetric] by simp
qed

text \<open>The monitor rounds as Python does. For every value a double can hold, \<open>pythonRound\<close> is the decimal
  nearest the value with a tie going to the even digit, and \<open>floorDivide\<close> is the floor of the
  quotient for every non-zero divisor.\<close>

theorem rounding_is_pythons:
  "(dyadic value \<longrightarrow> pythonRound value digits = half_even value digits) \<and>
   (divisor \<noteq> 0 \<longrightarrow> floorDivide dividend divisor = of_int \<lfloor>dividend / divisor\<rfloor>)"
  using pythonRound_half_even floorDivide_floor by blast

theorem rounding_is_pythons_witness:
  "pythonRound (1 / 16) 3 = 62 / 1000 \<and> floorDivide (- 7) 2 = - 4"
proof -
  have floors: "\<lfloor>125 / 2 :: rat\<rfloor> = 62" "\<lfloor>- 7 / 2 :: rat\<rfloor> = - 4" by (rule floor_unique; simp)+
  have "dyadic (1 / 16)" unfolding dyadic_def by (rule exI [of _ 1], rule exI [of _ 4]) simp
  then show ?thesis using rounding_is_pythons [of "1 / 16" 3 2 "- 7"] floors by (simp add: half_even_def Let_def)
qed

lemma toFixed_nonneg:
  assumes "0 \<le> v" "v \<le> of_int k"
  shows "0 \<le> toFixed v d" "toFixed v d \<le> of_int k"
proof -
  let ?n = "\<lfloor>v * 10 ^ d + 1 / 2\<rfloor>"
  have eq: "toFixed v d = of_int ?n / 10 ^ d" using assms(1) by (simp add: toFixed_def)
  have "0 \<le> ?n" using assms(1) by simp
  then show "0 \<le> toFixed v d" unfolding eq by simp
  have "v * 10 ^ d \<le> of_int k * 10 ^ d" using assms(2) by (rule mult_right_mono) simp
  then have "v * 10 ^ d + 1 / 2 < of_int k * 10 ^ d + 1" by linarith
  then have "v * 10 ^ d + 1 / 2 < of_int (k * 10 ^ d + 1)" by simp
  then have "?n < k * 10 ^ d + 1" by (simp only: floor_less_iff)
  then have "(of_int ?n :: rat) \<le> of_int (k * 10 ^ d)" by (simp only: of_int_le_iff)
  then show "toFixed v d \<le> of_int k" unfolding eq by (simp add: divide_le_eq)
qed

lemma pythonRound_bounds:
  assumes "0 \<le> v" "v \<le> of_int k"
  shows "0 \<le> pythonRound v d \<and> pythonRound v d \<le> of_int k"
proof (cases "\<not> is_integer (v * 2 ^ (d + 1)) \<or> even \<lfloor>v * 2 ^ (d + 1)\<rfloor>")
  case True
  then show ?thesis using toFixed_nonneg [OF assms, of d] by (simp add: pythonRound_def Let_def)
next
  case False
  let ?b = "\<lfloor>v * 10 ^ d\<rfloor>"
  have "v \<noteq> of_int k"
  proof
    assume "v = of_int k"
    then have "v * 2 ^ (d + 1) = of_int (k * 2 ^ (d + 1))" by simp
    then have "even \<lfloor>v * 2 ^ (d + 1)\<rfloor>" by (simp only: floor_of_int) simp
    then show False using False by blast
  qed
  then have "v * 10 ^ d < of_int (k * 10 ^ d)" using assms(2) by simp
  then have "?b < k * 10 ^ d" by (simp only: floor_less_iff)
  then have "(of_int (?b + 1) :: rat) \<le> of_int (k * 10 ^ d)" by (simp only: of_int_le_iff)
  moreover have "0 \<le> ?b" using assms(1) by simp
  moreover have "pythonRound v d = of_int (if even ?b then ?b else ?b + 1) / 10 ^ d"
    using False by (auto simp: pythonRound_def Let_def)
  ultimately show ?thesis by (simp add: divide_le_eq)
qed

lemma pythonRound_int: "pythonRound (of_int k) d = of_int k"
proof -
  have "is_integer (of_int k * 2 ^ (d + 1))" "\<lfloor>of_int k * 2 ^ (d + 1) :: rat\<rfloor> = k * 2 ^ (d + 1)"
  proof -
    have "of_int k * 2 ^ (d + 1) = (of_int (k * 2 ^ (d + 1)) :: rat)" by simp
    then show "\<lfloor>of_int k * 2 ^ (d + 1) :: rat\<rfloor> = k * 2 ^ (d + 1)" by (simp only: floor_of_int)
    then show "is_integer (of_int k * 2 ^ (d + 1))" unfolding is_integer_def by simp
  qed
  then have "pythonRound (of_int k) d = toFixed (of_int k) d" by (simp add: pythonRound_def Let_def)
  moreover have "\<lfloor>\<bar>of_int k\<bar> * 10 ^ d + 1 / 2 :: rat\<rfloor> = \<bar>k\<bar> * 10 ^ d"
    by (rule floor_unique) simp_all
  ultimately have "pythonRound (of_int k) d = (if (of_int k :: rat) < 0 then - 1 else 1) * of_int (\<bar>k\<bar> * 10 ^ d) / 10 ^ d"
    by (simp only: toFixed_def Let_def)
  then show ?thesis by (simp add: abs_if)
qed

end
