(* ===== verification/Incidents.thy ===== *)
theory Incidents imports IsoTime PythonMath begin

text \<open>
  Outages and the checks they come from (\<open>apps/fleet-monitor/src/incidents.ts\<close>): the two tables, what one
  check does to them, and the availability read back. Timestamps are stored as text, as in the
  file; numbers read for display are exact rationals (theory \<open>PythonMath\<close>). Text compared by SQLite's
  \<open>LIKE\<close> is ASCII.
\<close>

record check_result =
  chk_target :: string
  chk_ok :: bool
  chk_reason :: string

record incident_row =
  inr_id :: int
  inr_target :: string
  inr_reason :: string
  inr_opened_at :: string
  inr_closed_at :: "string option"

record streak_row =
  stk_target :: string
  stk_ok_run :: int
  stk_fail_run :: int
  stk_last_at :: string
  stk_observed_since :: string

record checks_db =
  cdb_incidents :: "incident_row list"
  cdb_next_id :: int
  cdb_streaks :: "streak_row list"

datatype verdict = Opened | Closed

record incident =
  inc_id :: int
  inc_target :: string
  inc_reason :: string
  inc_opened_at :: int
  inc_closed_at :: "int option"

record observed_run =
  obs_since :: int
  obs_until :: int

definition VITALS_INTERVAL :: int where
  "VITALS_INTERVAL = 30"

definition MAX_ROUND_SECONDS :: int where
  \<comment> \<open>the two ssh budgets times \<open>CAPTURE_FACTOR\<close>\<close>
  "MAX_ROUND_SECONDS = (15 + 30) * 2"

definition COVERAGE_GAP_SECONDS :: int where
  "COVERAGE_GAP_SECONDS = MAX_ROUND_SECONDS + VITALS_INTERVAL * 3"

definition withinGap :: "int \<Rightarrow> int \<Rightarrow> int \<Rightarrow> bool" where
  "withinGap earlier later gap \<longleftrightarrow> 0 \<le> later - earlier \<and> later - earlier \<le> gap * 1000"

subsection \<open>Recording a check\<close>

definition streak_of :: "string \<Rightarrow> checks_db \<Rightarrow> streak_row option" where
  "streak_of target d = List.find (\<lambda>s. stk_target s = target) (cdb_streaks d)"

definition put_streak :: "streak_row \<Rightarrow> checks_db \<Rightarrow> checks_db" where
  "put_streak row d = d\<lparr>cdb_streaks :=
     (if streak_of (stk_target row) d = None then cdb_streaks d @ [row]
      else map (\<lambda>s. if stk_target s = stk_target row then row else s) (cdb_streaks d))\<rparr>"

definition open_row :: "string \<Rightarrow> incident_row \<Rightarrow> bool" where
  "open_row target row \<longleftrightarrow> inr_target row = target \<and> inr_closed_at row = None"

definition current_id :: "string \<Rightarrow> checks_db \<Rightarrow> int option" where
  "current_id target d = map_option inr_id (List.find (open_row target) (cdb_incidents d))"

definition update_incident :: "int \<Rightarrow> (incident_row \<Rightarrow> incident_row) \<Rightarrow> checks_db \<Rightarrow> checks_db" where
  "update_incident i f d = d\<lparr>cdb_incidents := map (\<lambda>row. if inr_id row = i then f row else row) (cdb_incidents d)\<rparr>"

definition open_incident :: "string \<Rightarrow> string \<Rightarrow> string \<Rightarrow> checks_db \<Rightarrow> checks_db" where
  "open_incident target reason moment d = d\<lparr>cdb_incidents := cdb_incidents d @
       [\<lparr>inr_id = cdb_next_id d, inr_target = target, inr_reason = reason, inr_opened_at = moment, inr_closed_at = None\<rparr>],
     cdb_next_id := cdb_next_id d + 1\<rparr>"

definition observed_from :: "streak_row option \<Rightarrow> int \<Rightarrow> int \<Rightarrow> exn + string" where
  "observed_from streak moment gap = (case streak of
     None \<Rightarrow> Inr (isoformat moment)
   | Some s \<Rightarrow> (case parseIso (stk_last_at s) of
        Inl e \<Rightarrow> Inl e
      | Inr last_at \<Rightarrow> Inr (if withinGap last_at moment gap then stk_observed_since s else isoformat moment)))"

definition ok_count :: "string \<Rightarrow> checks_db \<Rightarrow> int" where
  "ok_count target d = (case streak_of target d of Some s \<Rightarrow> stk_ok_run s | None \<Rightarrow> 0)"

definition fail_count :: "string \<Rightarrow> checks_db \<Rightarrow> int" where
  "fail_count target d = (case streak_of target d of Some s \<Rightarrow> stk_fail_run s | None \<Rightarrow> 0)"

text \<open>What a check does to the incidents once the streak is written.\<close>

definition settle_incident :: "int \<Rightarrow> int \<Rightarrow> int \<Rightarrow> check_result \<Rightarrow> string \<Rightarrow> checks_db \<Rightarrow> checks_db \<times> verdict option" where
  "settle_incident threshold okRun failRun result stamp d1 = (let current = current_id (chk_target result) d1;
      d2 = (case current of
        Some i \<Rightarrow> if \<not> chk_ok result \<and> chk_reason result \<noteq> []
          then update_incident i (\<lambda>row. row\<lparr>inr_reason := chk_reason result\<rparr>) d1 else d1
      | None \<Rightarrow> d1)
    in case current of
         None \<Rightarrow> if failRun \<ge> threshold then (open_incident (chk_target result) (chk_reason result) stamp d2, Some Opened)
           else (d2, None)
       | Some i \<Rightarrow> if okRun \<ge> threshold
           then (update_incident i (\<lambda>row. row\<lparr>inr_closed_at := Some stamp\<rparr>) d2, Some Closed)
           else (d2, None))"

definition record_check :: "int \<Rightarrow> int \<Rightarrow> check_result \<Rightarrow> int \<Rightarrow> checks_db \<Rightarrow> exn + (checks_db \<times> verdict option)" where
  "record_check threshold gap result moment d =
     (let target = chk_target result;
          okRun = (if chk_ok result then ok_count target d + 1 else 0);
          failRun = (if chk_ok result then 0 else fail_count target d + 1)
      in case observed_from (streak_of target d) moment gap of
           Inl e \<Rightarrow> Inl e
         | Inr observedSince \<Rightarrow> Inr (settle_incident threshold okRun failRun result (isoformat moment)
             (put_streak \<lparr>stk_target = target, stk_ok_run = okRun, stk_fail_run = failRun,
                stk_last_at = isoformat moment, stk_observed_since = observedSince\<rparr> d)))"

subsection \<open>Reading incidents back\<close>

definition incident_of :: "incident_row \<Rightarrow> exn + incident" where
  "incident_of row = (case parseIso (inr_opened_at row) of
     Inl e \<Rightarrow> Inl e
   | Inr opened \<Rightarrow> (case nonempty (inr_closed_at row) of
        None \<Rightarrow> Inr \<lparr>inc_id = inr_id row, inc_target = inr_target row, inc_reason = inr_reason row,
            inc_opened_at = opened, inc_closed_at = None\<rparr>
      | Some closed_text \<Rightarrow> (case parseIso closed_text of
           Inl e \<Rightarrow> Inl e
         | Inr closed_ms \<Rightarrow> Inr \<lparr>inc_id = inr_id row, inc_target = inr_target row, inc_reason = inr_reason row,
             inc_opened_at = opened, inc_closed_at = Some closed_ms\<rparr>)))"

fun incidents_of :: "incident_row list \<Rightarrow> exn + incident list" where
  "incidents_of [] = Inr []"
| "incidents_of (row # rows) = (case incident_of row of
     Inl e \<Rightarrow> Inl e
   | Inr i \<Rightarrow> (case incidents_of rows of Inl e \<Rightarrow> Inl e | Inr is \<Rightarrow> Inr (i # is)))"

definition newest_first :: "incident_row list \<Rightarrow> incident_row list" where
  \<comment> \<open>\<open>ORDER BY opened_at DESC\<close>\<close>
  "newest_first rows = rev (sort_key inr_opened_at rows)"

definition openIncidents :: "checks_db \<Rightarrow> exn + incident list" where
  "openIncidents d = incidents_of (newest_first (filter (\<lambda>row. inr_closed_at row = None) (cdb_incidents d)))"

definition incident_history :: "int \<Rightarrow> checks_db \<Rightarrow> exn + incident list" where
  "incident_history since d =
     incidents_of (newest_first (filter (\<lambda>row. isoformat since \<le> inr_opened_at row) (cdb_incidents d)))"

subsection \<open>Targets that are gone\<close>

definition removePrefix :: "string \<Rightarrow> string \<Rightarrow> string" where
  "removePrefix text prefix = (if starts_with prefix text then drop (length prefix) text else text)"

text \<open>SQLite's \<open>LIKE\<close>: \<open>%\<close> stands for any text, \<open>_\<close> for any character, and letters match in either case.\<close>

fun sql_like :: "string \<Rightarrow> string \<Rightarrow> bool" where
  "sql_like [] s = (s = [])"
| "sql_like (c # p) s =
     (if c = CHR ''%'' then sql_like p s \<or> (case s of [] \<Rightarrow> False | _ # t \<Rightarrow> sql_like (c # p) t)
      else case s of [] \<Rightarrow> False | x # t \<Rightarrow> (c = CHR ''_'' \<or> lower_char c = lower_char x) \<and> sql_like p t)"

definition stale_incidents :: "string \<Rightarrow> string list \<Rightarrow> checks_db \<Rightarrow> incident_row list" where
  "stale_incidents prefix seen d = filter (\<lambda>row. inr_closed_at row = None \<and> sql_like (prefix @ ''%'') (inr_target row) \<and>
     removePrefix (inr_target row) prefix \<notin> set seen) (cdb_incidents d)"

definition retireAbsent :: "string \<Rightarrow> string list \<Rightarrow> int \<Rightarrow> checks_db \<Rightarrow> checks_db \<times> nat" where
  "retireAbsent prefix seen moment d =
     (let stale = stale_incidents prefix seen d;
          retired = fold (\<lambda>row. update_incident (inr_id row)
            (\<lambda>r. r\<lparr>inr_closed_at := Some (isoformat moment), inr_reason := ''removed''\<rparr>)) stale d
      in (retired\<lparr>cdb_streaks := filter (\<lambda>s. stk_target s \<notin> set (map inr_target stale)) (cdb_streaks retired)\<rparr>, length stale))"

subsection \<open>Availability\<close>

definition observedRun :: "string \<Rightarrow> checks_db \<Rightarrow> exn + observed_run option" where
  "observedRun target d = (case streak_of target d of
     None \<Rightarrow> Inr None
   | Some s \<Rightarrow> (case (parseIso (stk_observed_since s), parseIso (stk_last_at s)) of
        (Inr since, Inr until) \<Rightarrow> Inr (Some \<lparr>obs_since = since, obs_until = until\<rparr>)
      | (Inl e, _) \<Rightarrow> Inl e
      | (_, Inl e) \<Rightarrow> Inl e))"

definition clipped_seconds :: "int \<Rightarrow> int \<Rightarrow> incident \<Rightarrow> rat list" where
  "clipped_seconds since now outage =
     (let end_at = min (case inc_closed_at outage of Some t \<Rightarrow> t | None \<Rightarrow> now) now;
          start_at = max (inc_opened_at outage) since
      in if end_at > start_at then [of_int (end_at - start_at) / 1000] else [])"

definition uptimePercent :: "string \<Rightarrow> int \<Rightarrow> int \<Rightarrow> observed_run \<Rightarrow> int \<Rightarrow> checks_db \<Rightarrow> exn + rat option" where
  "uptimePercent target since now observed gap d =
     (let window = (of_int (now - since) / 1000 :: rat) in
      if window \<le> 0 \<or> obs_since observed > since \<or> \<not> withinGap (obs_until observed) now gap then Inr None
      else case incidents_of (filter (\<lambda>row. inr_target row = target \<and>
              (case inr_closed_at row of None \<Rightarrow> True | Some c \<Rightarrow> isoformat since \<le> c)) (cdb_incidents d)) of
          Inl e \<Rightarrow> Inl e
        | Inr outages \<Rightarrow>
            let down = pythonSum (concat (map (clipped_seconds since now) outages))
            in Inr (Some (pythonRound (max 0 ((window - down) / window) * 100) 3)))"

subsection \<open>What the tables keep\<close>

definition stored_instant :: "int \<Rightarrow> bool" where
  "stored_instant t \<longleftrightarrow> 100 \<le> utc_year t \<and> utc_year t \<le> 9999"

lemma parse_stored [simp]: "stored_instant t \<Longrightarrow> parseIso (isoformat t) = Inr t"
  by (simp add: parseIso_def stored_instant_def iso_instant_isoformat)

definition incidents_inv :: "checks_db \<Rightarrow> bool" where
  "incidents_inv d \<longleftrightarrow> distinct (map inr_id (cdb_incidents d)) \<and> (\<forall>r\<in>set (cdb_incidents d). inr_id r < cdb_next_id d) \<and>
     (\<forall>r\<in>set (cdb_incidents d). \<forall>q\<in>set (cdb_incidents d). \<forall>t. open_row t r \<and> open_row t q \<longrightarrow> r = q)"

definition streaks_inv :: "checks_db \<Rightarrow> bool" where
  "streaks_inv d \<longleftrightarrow> distinct (map stk_target (cdb_streaks d)) \<and>
     (\<forall>s\<in>set (cdb_streaks d). \<exists>t. stored_instant t \<and> stk_last_at s = isoformat t)"

definition down_now :: "string \<Rightarrow> checks_db \<Rightarrow> bool" where
  "down_now target d \<longleftrightarrow> (\<exists>r\<in>set (cdb_incidents d). open_row target r)"

lemma current_id_facts:
  "current_id target d = None \<longleftrightarrow> \<not> down_now target d"
  "current_id target d = Some i \<Longrightarrow> \<exists>r\<in>set (cdb_incidents d). open_row target r \<and> inr_id r = i"
  by (auto simp: current_id_def down_now_def find_None dest: find_in_set)

lemma set_update_incident: "set (cdb_incidents (update_incident i f d)) = (\<lambda>r. if inr_id r = i then f r else r) ` set (cdb_incidents d)"
  by (simp add: update_incident_def)

lemma streak_of_put: "distinct (map stk_target (cdb_streaks d)) \<Longrightarrow>
    streak_of target (put_streak row d) = (if target = stk_target row then Some row else streak_of target d)"
proof -
  have hit: "List.find (\<lambda>s. stk_target s = t) (map (\<lambda>s. if stk_target s = stk_target row then row else s) ss) =
      (if t = stk_target row then if List.find (\<lambda>s. stk_target s = t) ss = None then None else Some row
       else List.find (\<lambda>s. stk_target s = t) ss)" for t ss
    by (induction ss) auto
  have app: "List.find P (ss @ [x]) = (case List.find P ss of Some y \<Rightarrow> Some y | None \<Rightarrow> if P x then Some x else None)" for P ss and x :: streak_row
    by (induction ss) auto
  show ?thesis by (auto simp: put_streak_def streak_of_def hit app split: option.splits)
qed

lemma put_streak_keeps:
  "cdb_incidents (put_streak row d) = cdb_incidents d" "cdb_next_id (put_streak row d) = cdb_next_id d"
  "distinct (map stk_target (cdb_streaks d)) \<Longrightarrow> distinct (map stk_target (cdb_streaks (put_streak row d)))"
  "set (cdb_streaks (put_streak row d)) \<subseteq> insert row (set (cdb_streaks d))"
proof -
  have "map stk_target (map (\<lambda>s. if stk_target s = stk_target row then row else s) ss) = map stk_target ss" for ss
    by (induction ss) auto
  then show "distinct (map stk_target (cdb_streaks d)) \<Longrightarrow> distinct (map stk_target (cdb_streaks (put_streak row d)))"
    by (auto simp: put_streak_def streak_of_def find_None simp del: map_map)
qed (auto simp: put_streak_def)

lemma streaks_inv_put:
  assumes "streaks_inv d" "stored_instant t" "stk_last_at row = isoformat t"
  shows "streaks_inv (put_streak row d)"
  using assms put_streak_keeps(3) [of d row] put_streak_keeps(4) [of row d] unfolding streaks_inv_def by blast

lemma incidents_inv_put: "incidents_inv (put_streak row d) = incidents_inv d" "down_now t (put_streak row d) = down_now t d"
  by (simp_all add: incidents_inv_def down_now_def put_streak_keeps)

lemma update_keeps: "cdb_next_id (update_incident i f d) = cdb_next_id d" "cdb_streaks (update_incident i f d) = cdb_streaks d"
  by (simp_all add: update_incident_def)

text \<open>A change to one incident that reopens nothing keeps the invariant.\<close>

lemma incidents_inv_update:
  assumes "incidents_inv d" "\<And>r. inr_id (f r) = inr_id r" "\<And>r t. open_row t (f r) \<Longrightarrow> open_row t r"
  shows "incidents_inv (update_incident i f d)"
proof -
  let ?g = "\<lambda>r. if inr_id r = i then f r else r"
  have ids: "map inr_id (cdb_incidents (update_incident i f d)) = map inr_id (cdb_incidents d)"
    using assms(2) by (simp add: update_incident_def)
  have lower: "open_row t (?g r) \<Longrightarrow> open_row t r" for t r using assms(3) by (simp split: if_splits)
  have "x = y" if xy: "x \<in> ?g ` set (cdb_incidents d)" "y \<in> ?g ` set (cdb_incidents d)" "open_row t x" "open_row t y" for x y t
  proof -
    obtain r q where rq: "r \<in> set (cdb_incidents d)" "q \<in> set (cdb_incidents d)" "x = ?g r" "y = ?g q" using xy(1,2) by blast
    then have "open_row t r" "open_row t q" using xy(3,4) lower by blast+
    then have "r = q" using assms(1) rq(1,2) unfolding incidents_inv_def by blast
    then show "x = y" using rq(3,4) by simp
  qed
  moreover have "\<forall>x\<in>?g ` set (cdb_incidents d). inr_id x < cdb_next_id d"
    using assms(1,2) unfolding incidents_inv_def by auto
  ultimately show ?thesis
    using assms(1) unfolding incidents_inv_def ids set_update_incident update_keeps by blast
qed

lemma down_now_reason: "down_now t (update_incident i (\<lambda>row. row\<lparr>inr_reason := reason\<rparr>) d) = down_now t d"
proof -
  have "open_row t (if inr_id r = i then r\<lparr>inr_reason := reason\<rparr> else r) = open_row t r" for r by (simp add: open_row_def)
  then show ?thesis unfolding down_now_def set_update_incident by blast
qed

lemma incidents_inv_open:
  assumes "incidents_inv d" "\<not> down_now target d"
  shows "incidents_inv (open_incident target reason stamp d)"
  using assms unfolding incidents_inv_def down_now_def open_incident_def by (fastforce simp: open_row_def)

lemma down_now_open: "down_now t (open_incident target reason stamp d) = (t = target \<or> down_now t d)"
  by (auto simp: down_now_def open_incident_def open_row_def)

lemma down_now_close:
  assumes "incidents_inv d" "current_id target d = Some i"
  shows "down_now t (update_incident i (\<lambda>row. row\<lparr>inr_closed_at := Some stamp\<rparr>) d) = (t \<noteq> target \<and> down_now t d)"
proof -
  obtain r where r: "r \<in> set (cdb_incidents d)" "open_row target r" "inr_id r = i"
    using current_id_facts(2) [OF assms(2)] by blast
  have same_id: "q = r" if "q \<in> set (cdb_incidents d)" "inr_id q = i" for q
    using assms(1) r that unfolding incidents_inv_def by (metis (no_types, lifting) distinct_map inj_onD)
  have same_target: "q = r" if "q \<in> set (cdb_incidents d)" "open_row target q" for q
    using assms(1) r that unfolding incidents_inv_def by blast
  have now: "open_row t (if inr_id q = i then q\<lparr>inr_closed_at := Some stamp\<rparr> else q) \<longleftrightarrow> inr_id q \<noteq> i \<and> open_row t q" for q
    by (simp add: open_row_def)
  have "(\<exists>q\<in>set (cdb_incidents d). inr_id q \<noteq> i \<and> open_row t q) \<longleftrightarrow> t \<noteq> target \<and> (\<exists>q\<in>set (cdb_incidents d). open_row t q)"
  proof
    assume "\<exists>q\<in>set (cdb_incidents d). inr_id q \<noteq> i \<and> open_row t q"
    then show "t \<noteq> target \<and> (\<exists>q\<in>set (cdb_incidents d). open_row t q)" using same_target r(3) by blast
  next
    assume other: "t \<noteq> target \<and> (\<exists>q\<in>set (cdb_incidents d). open_row t q)"
    then obtain q where q: "q \<in> set (cdb_incidents d)" "open_row t q" by blast
    then have "q \<noteq> r" using other r(2) by (auto simp: open_row_def)
    then show "\<exists>q\<in>set (cdb_incidents d). inr_id q \<noteq> i \<and> open_row t q" using q same_id by blast
  qed
  then show ?thesis unfolding down_now_def set_update_incident by (simp only: bex_simps(7) now)
qed

subsection \<open>The hysteresis\<close>

text \<open>What the detailed rules stand for, over the results of one target in order: the last \<open>n\<close> all came out
  as \<open>b\<close>; and the target is down when at some point its last \<open>n\<close> checks had all failed, and at no
  point since had its last \<open>n\<close> all passed.\<close>

definition run_at_end :: "nat \<Rightarrow> bool \<Rightarrow> bool list \<Rightarrow> bool" where
  "run_at_end n b h \<longleftrightarrow> n \<le> length h \<and> set (drop (length h - n) h) \<subseteq> {b}"

definition is_down :: "nat \<Rightarrow> bool list \<Rightarrow> bool" where
  "is_down n h \<longleftrightarrow> (\<exists>k\<in>{0..length h}. run_at_end n False (take k h) \<and>
     (\<forall>j\<in>{k..length h}. \<not> run_at_end n True (take j h)))"

lemma run_at_end_0 [simp]: "run_at_end 0 b h"
  by (simp add: run_at_end_def)

lemma run_at_end_Nil [simp]: "0 < n \<Longrightarrow> \<not> run_at_end n b []"
  by (simp add: run_at_end_def)

lemma run_at_end_snoc: "0 < n \<Longrightarrow> run_at_end n b (h @ [c]) \<longleftrightarrow> c = b \<and> run_at_end (n - 1) b h"
  by (cases n) (auto simp: run_at_end_def)

lemma is_down_Nil [simp]: "0 < n \<Longrightarrow> \<not> is_down n []"
  by (simp add: is_down_def)

lemma is_down_snoc:
  assumes "0 < n"
  shows "is_down n (h @ [b]) \<longleftrightarrow> run_at_end n False (h @ [b]) \<or> is_down n h \<and> \<not> run_at_end n True (h @ [b])"
proof -
  have not_both: "\<not> (run_at_end n False (h @ [b]) \<and> run_at_end n True (h @ [b]))"
    using assms by (auto simp: run_at_end_snoc)
  have upto: "{k..length (h @ [b])} = insert (length (h @ [b])) {k..length h}" if "k \<le> length (h @ [b])" for k
    using that by auto
  have old: "take k (h @ [b]) = take k h" if "k \<in> {j..length h}" for j k using that by simp
  show ?thesis
  proof
    assume "is_down n (h @ [b])"
    then obtain k where k: "k \<le> length (h @ [b])" "run_at_end n False (take k (h @ [b]))"
      "\<forall>j\<in>{k..length (h @ [b])}. \<not> run_at_end n True (take j (h @ [b]))"
      unfolding is_down_def by (metis atLeastAtMost_iff)
    show "run_at_end n False (h @ [b]) \<or> is_down n h \<and> \<not> run_at_end n True (h @ [b])"
    proof (cases "k = length (h @ [b])")
      case True
      then show ?thesis using k(2) by simp
    next
      case False
      then have "k \<in> {0..length h}" using k(1) by simp
      moreover from this have "run_at_end n False (take k h)" using k(2) old by simp
      moreover have "\<forall>j\<in>{k..length h}. \<not> run_at_end n True (take j h)" using k(3) unfolding upto [OF k(1)] by (simp add: old)
      moreover have "\<not> run_at_end n True (h @ [b])" using k(3) unfolding upto [OF k(1)] by simp
      ultimately show ?thesis unfolding is_down_def by blast
    qed
  next
    assume "run_at_end n False (h @ [b]) \<or> is_down n h \<and> \<not> run_at_end n True (h @ [b])"
    then show "is_down n (h @ [b])"
    proof
      assume "run_at_end n False (h @ [b])"
      then show ?thesis using not_both unfolding is_down_def by (intro bexI [of _ "length (h @ [b])"]) auto
    next
      assume r: "is_down n h \<and> \<not> run_at_end n True (h @ [b])"
      then obtain k where k: "k \<in> {0..length h}" "run_at_end n False (take k h)" "\<forall>j\<in>{k..length h}. \<not> run_at_end n True (take j h)"
        unfolding is_down_def by blast
      then have "k \<le> length (h @ [b])" by simp
      moreover have "\<forall>j\<in>{k..length (h @ [b])}. \<not> run_at_end n True (take j (h @ [b]))"
        unfolding upto [OF calculation] using k(3) r by (simp add: old)
      moreover have "run_at_end n False (take k (h @ [b]))" using k(1,2) by simp
      ultimately show ?thesis unfolding is_down_def by (intro bexI [of _ k]) simp_all
    qed
  qed
qed

text \<open>The relation between the tables and what was checked: the runs the streak counts are the runs at the
  end of the target's results, and an incident is open exactly while the target is down.\<close>

definition passes :: "string \<Rightarrow> (check_result \<times> int) list \<Rightarrow> bool list" where
  "passes target checks = map (\<lambda>(r, _). chk_ok r) (filter (\<lambda>(r, _). chk_target r = target) checks)"

definition counts :: "int \<Rightarrow> bool \<Rightarrow> bool list \<Rightarrow> bool" where
  "counts c b h \<longleftrightarrow> 0 \<le> c \<and> (\<forall>m::nat. int m \<le> c \<longleftrightarrow> run_at_end m b h)"

lemma counts_snoc: "counts c b h \<Longrightarrow> counts (if x = b then c + 1 else 0) b (h @ [x])"
proof -
  assume c: "counts c b h"
  have "int m \<le> (if x = b then c + 1 else 0) \<longleftrightarrow> run_at_end m b (h @ [x])" for m
  proof (cases m)
    case (Suc k)
    then have "int k \<le> c \<longleftrightarrow> run_at_end k b h" using c by (simp add: counts_def)
    then show ?thesis using Suc c by (auto simp: run_at_end_snoc counts_def)
  qed (use c in \<open>simp add: counts_def\<close>)
  then show ?thesis using c by (simp add: counts_def)
qed

definition follows :: "nat \<Rightarrow> (check_result \<times> int) list \<Rightarrow> checks_db \<Rightarrow> bool" where
  "follows n checks d \<longleftrightarrow> incidents_inv d \<and> streaks_inv d \<and>
     (\<forall>t. counts (ok_count t d) True (passes t checks) \<and> counts (fail_count t d) False (passes t checks) \<and>
        (down_now t d \<longleftrightarrow> is_down n (passes t checks)))"

fun record_all :: "int \<Rightarrow> int \<Rightarrow> (check_result \<times> int) list \<Rightarrow> checks_db \<Rightarrow> exn + (checks_db \<times> verdict option list)" where
  "record_all threshold gap [] d = Inr (d, [])"
| "record_all threshold gap ((result, moment) # checks) d = (case record_check threshold gap result moment d of
     Inl e \<Rightarrow> Inl e
   | Inr (d', v) \<Rightarrow> (case record_all threshold gap checks d' of Inl e \<Rightarrow> Inl e | Inr (e, vs) \<Rightarrow> Inr (e, v # vs)))"

definition verdict_of :: "bool \<Rightarrow> bool \<Rightarrow> verdict option" where
  "verdict_of was is_now = (if \<not> was \<and> is_now then Some Opened else if was \<and> \<not> is_now then Some Closed else None)"

lemma settle_incident_facts:
  assumes "incidents_inv d1" "0 < threshold" "chk_ok result \<Longrightarrow> failRun = 0" "\<not> chk_ok result \<Longrightarrow> okRun = 0"
  defines "target \<equiv> chk_target result"
  assumes "settle_incident threshold okRun failRun result stamp d1 = (d', v)"
  shows "incidents_inv d'" "cdb_streaks d' = cdb_streaks d1"
    "down_now t d' \<longleftrightarrow> (if t = target then failRun \<ge> threshold \<or> down_now t d1 \<and> \<not> okRun \<ge> threshold else down_now t d1)"
    "v = verdict_of (down_now target d1) (down_now target d')"
proof -
  have "incidents_inv d' \<and> cdb_streaks d' = cdb_streaks d1 \<and>
    (\<forall>t. down_now t d' \<longleftrightarrow> (if t = target then failRun \<ge> threshold \<or> down_now t d1 \<and> \<not> okRun \<ge> threshold else down_now t d1)) \<and>
    v = verdict_of (down_now target d1) (down_now target d')"
  proof (cases "current_id target d1")
    case None
    then have up: "\<not> down_now target d1" by (simp add: current_id_facts)
    show ?thesis
    proof (cases "failRun \<ge> threshold")
      case True
      then have "d' = open_incident target (chk_reason result) stamp d1" "v = Some Opened"
        using assms(6) None by (simp_all add: settle_incident_def target_def)
      then show ?thesis using up True incidents_inv_open [OF assms(1) up]
        by (simp add: down_now_open verdict_of_def) (simp add: open_incident_def)
    next
      case False
      then have "d' = d1" "v = None" using assms(6) None by (simp_all add: settle_incident_def target_def)
      then show ?thesis using up False assms(1) by (simp add: verdict_of_def)
    qed
  next
    case (Some i)
    then have down: "down_now target d1" using current_id_facts(1) [of target d1] by simp
    show ?thesis
    proof (cases "okRun \<ge> threshold")
      case True
      then have "chk_ok result" using assms(2,4) by fastforce
      then have d': "d' = update_incident i (\<lambda>row. row\<lparr>inr_closed_at := Some stamp\<rparr>) d1" "v = Some Closed" "failRun = 0"
        using True assms(3,6) Some by (simp_all add: settle_incident_def target_def)
      have "incidents_inv d'" unfolding d' by (rule incidents_inv_update [OF assms(1)]) (simp_all add: open_row_def)
      then show ?thesis using True down d'(2,3) assms(2) down_now_close [OF assms(1) Some, of _ stamp]
        unfolding d'(1) by (auto simp: verdict_of_def update_keeps)
    next
      case False
      define d2 where "d2 = (if \<not> chk_ok result \<and> chk_reason result \<noteq> []
          then update_incident i (\<lambda>row. row\<lparr>inr_reason := chk_reason result\<rparr>) d1 else d1)"
      have "incidents_inv (update_incident i (\<lambda>row. row\<lparr>inr_reason := chk_reason result\<rparr>) d1)"
        by (rule incidents_inv_update [OF assms(1)]) (simp_all add: open_row_def)
      then have d2: "incidents_inv d2" "cdb_streaks d2 = cdb_streaks d1" "down_now t d2 = down_now t d1" for t
        using assms(1) by (simp_all add: d2_def update_keeps down_now_reason)
      have "d' = d2" "v = None"
        using assms(6) Some False by (simp_all add: settle_incident_def target_def d2_def split: if_splits)
      then show ?thesis using d2 down False by (simp add: verdict_of_def)
    qed
  qed
  then show "incidents_inv d'" "cdb_streaks d' = cdb_streaks d1"
    "down_now t d' \<longleftrightarrow> (if t = target then failRun \<ge> threshold \<or> down_now t d1 \<and> \<not> okRun \<ge> threshold else down_now t d1)"
    "v = verdict_of (down_now target d1) (down_now target d')" by blast+
qed

lemma observed_from_ok: "streaks_inv d \<Longrightarrow> \<exists>since. observed_from (streak_of target d) moment gap = Inr since"
  unfolding observed_from_def streak_of_def streaks_inv_def
  by (fastforce split: option.splits dest: find_in_set)

lemma record_check_settles:
  assumes "streaks_inv d" "stored_instant moment"
  shows "\<exists>row. record_check threshold gap result moment d =
      Inr (settle_incident threshold (stk_ok_run row) (stk_fail_run row) result (isoformat moment) (put_streak row d)) \<and>
    stk_target row = chk_target result \<and> stk_last_at row = isoformat moment \<and>
    stk_ok_run row = (if chk_ok result then ok_count (chk_target result) d + 1 else 0) \<and>
    stk_fail_run row = (if chk_ok result then 0 else fail_count (chk_target result) d + 1)"
proof -
  obtain since where since: "observed_from (streak_of (chk_target result) d) moment gap = Inr since"
    using observed_from_ok [OF assms(1)] by blast
  let ?row = "\<lparr>stk_target = chk_target result, stk_ok_run = (if chk_ok result then ok_count (chk_target result) d + 1 else 0),
      stk_fail_run = (if chk_ok result then 0 else fail_count (chk_target result) d + 1),
      stk_last_at = isoformat moment, stk_observed_since = since\<rparr>"
  show ?thesis
    by (rule exI [of _ ?row]) (simp add: record_check_def since Let_def)
qed

lemma passes_snoc: "passes t (checks @ [(r, moment)]) = (if chk_target r = t then passes t checks @ [chk_ok r] else passes t checks)"
  by (simp add: passes_def)

text \<open>One target's part of it.\<close>

definition tracks :: "nat \<Rightarrow> bool list \<Rightarrow> string \<Rightarrow> checks_db \<Rightarrow> bool" where
  "tracks n h t d \<longleftrightarrow> counts (ok_count t d) True h \<and> counts (fail_count t d) False h \<and> (down_now t d \<longleftrightarrow> is_down n h)"

lemma follows_tracks: "follows n checks d \<longleftrightarrow> incidents_inv d \<and> streaks_inv d \<and> (\<forall>t. tracks n (passes t checks) t d)"
  by (simp add: follows_def tracks_def)

lemma record_check_tracks:
  assumes "incidents_inv d" "streaks_inv d" "0 < n" "stored_instant moment"
  shows "\<exists>d'. record_check (int n) gap result moment d =
      Inr (d', verdict_of (down_now (chk_target result) d) (down_now (chk_target result) d')) \<and> incidents_inv d' \<and> streaks_inv d' \<and>
    (\<forall>t h. tracks n h t d \<longrightarrow> tracks n (if chk_target result = t then h @ [chk_ok result] else h) t d')"
proof -
  let ?t = "chk_target result" and ?b = "chk_ok result"
  obtain row where row: "record_check (int n) gap result moment d =
      Inr (settle_incident (int n) (stk_ok_run row) (stk_fail_run row) result (isoformat moment) (put_streak row d))"
    "stk_target row = ?t" "stk_last_at row = isoformat moment"
    "stk_ok_run row = (if ?b then ok_count ?t d + 1 else 0)" "stk_fail_run row = (if ?b then 0 else fail_count ?t d + 1)"
    using record_check_settles [OF assms(2,4)] by blast
  obtain d' v where settled: "settle_incident (int n) (stk_ok_run row) (stk_fail_run row) result (isoformat moment) (put_streak row d) = (d', v)"
    by fastforce
  note facts = settle_incident_facts [OF _ _ _ _ settled, unfolded incidents_inv_put]
  have inv1: "incidents_inv d" "0 < int n" "?b \<Longrightarrow> stk_fail_run row = 0" "\<not> ?b \<Longrightarrow> stk_ok_run row = 0"
    using assms row by simp_all
  note facts = facts [OF inv1]
  have put: "streaks_inv (put_streak row d)" using streaks_inv_put [OF assms(2,4) row(3)] .
  have streaks: "streaks_inv d'" "streak_of t d' = (if t = ?t then Some row else streak_of t d)" for t
    using put streak_of_put [of d t row] assms(2) row(2) facts(2) by (simp_all add: streaks_inv_def streak_of_def)
  have "tracks n (if ?t = t then h @ [?b] else h) t d'" if "tracks n h t d" for t h
  proof (cases "t = ?t")
    case True
    then have new: "counts (stk_ok_run row) True (h @ [?b])" "counts (stk_fail_run row) False (h @ [?b])"
      using that counts_snoc [of "ok_count t d" True h ?b] counts_snoc [of "fail_count t d" False h ?b] row(4,5)
      by (cases ?b; simp add: tracks_def)+
    then have "down_now t d' \<longleftrightarrow> is_down n (h @ [?b])"
      using facts(3) [of t] that True assms(3) by (simp add: is_down_snoc counts_def tracks_def)
    then show ?thesis using True new streaks(2) [of t] by (simp add: tracks_def ok_count_def fail_count_def)
  next
    case False
    then show ?thesis using that facts(3) [of t] streaks(2) [of t] by (simp add: tracks_def ok_count_def fail_count_def)
  qed
  then show ?thesis using row(1) settled facts(1,4) streaks(1) by auto
qed

lemma record_check_step:
  assumes "follows n checks d" "0 < n" "stored_instant moment"
  shows "\<exists>d'. record_check (int n) gap result moment d =
      Inr (d', verdict_of (down_now (chk_target result) d) (down_now (chk_target result) d')) \<and>
    follows n (checks @ [(result, moment)]) d'"
proof -
  obtain d' where d': "record_check (int n) gap result moment d =
      Inr (d', verdict_of (down_now (chk_target result) d) (down_now (chk_target result) d'))" "incidents_inv d'" "streaks_inv d'"
    "\<forall>t h. tracks n h t d \<longrightarrow> tracks n (if chk_target result = t then h @ [chk_ok result] else h) t d'"
    using record_check_tracks [OF _ _ assms(2,3)] assms(1) unfolding follows_tracks by blast
  then have "follows n (checks @ [(result, moment)]) d'"
    using assms(1) unfolding follows_tracks passes_snoc by blast
  then show ?thesis using d'(1) by blast
qed

lemma record_all_snoc: "record_all threshold gap (checks @ [(r, m)]) d = (case record_all threshold gap checks d of
     Inl e \<Rightarrow> Inl e
   | Inr (d', vs) \<Rightarrow> (case record_check threshold gap r m d' of Inl e \<Rightarrow> Inl e | Inr (d'', v) \<Rightarrow> Inr (d'', vs @ [v])))"
  by (induction checks arbitrary: d) (auto split: sum.splits prod.splits)

definition empty_checks :: checks_db where
  "empty_checks = \<lparr>cdb_incidents = [], cdb_next_id = 1, cdb_streaks = []\<rparr>"

text \<open>What the abstract rule says of each check in turn: whether it takes its target down, or brings it back.\<close>

definition verdicts :: "nat \<Rightarrow> (check_result \<times> int) list \<Rightarrow> verdict option list" where
  "verdicts n checks = map (\<lambda>i. let t = chk_target (fst (checks ! i)) in
     verdict_of (is_down n (passes t (take i checks))) (is_down n (passes t (take (Suc i) checks)))) [0..<length checks]"

lemma verdicts_snoc: "verdicts n (checks @ [c]) = verdicts n checks @
    [verdict_of (is_down n (passes (chk_target (fst c)) checks)) (is_down n (passes (chk_target (fst c)) (checks @ [c])))]"
  by (auto simp: verdicts_def Let_def nth_append)

lemma counts_Nil: "counts 0 b []"
proof -
  have "int m \<le> 0 \<longleftrightarrow> run_at_end m b []" for m by (cases m) simp_all
  then show ?thesis by (simp add: counts_def)
qed

lemma record_all_follows:
  assumes "0 < n" "list_all (\<lambda>(_, moment). stored_instant moment) checks"
  shows "\<exists>d. record_all (int n) gap checks empty_checks = Inr (d, verdicts n checks) \<and> follows n checks d"
  using assms(2)
proof (induction checks rule: rev_induct)
  case Nil
  have "follows n [] empty_checks"
    using assms(1) by (simp add: follows_def empty_checks_def incidents_inv_def streaks_inv_def down_now_def passes_def
        ok_count_def fail_count_def streak_of_def counts_Nil)
  then show ?case by (simp add: verdicts_def)
next
  case (snoc c checks)
  obtain r m where c: "c = (r, m)" by (cases c)
  obtain d where d: "record_all (int n) gap checks empty_checks = Inr (d, verdicts n checks)" "follows n checks d"
    using snoc by auto
  obtain d' where d': "record_check (int n) gap r m d = Inr (d', verdict_of (down_now (chk_target r) d) (down_now (chk_target r) d'))"
    "follows n (checks @ [(r, m)]) d'"
    using record_check_step [OF d(2) assms(1), of m gap r] snoc.prems unfolding c by auto
  have "down_now (chk_target r) d = is_down n (passes (chk_target r) checks)"
    "down_now (chk_target r) d' = is_down n (passes (chk_target r) (checks @ [c]))"
    using d(2) d'(2) c by (simp_all add: follows_def)
  then show ?case using d d' c by (auto simp: record_all_snoc verdicts_snoc)
qed

text \<open>C18: The incident tables implement the hysteresis. However the checks of all targets interleave, every one
  is recorded; afterwards a target has an open incident exactly when at some point its last \<open>n\<close> checks had
  all failed and at no point since have its last \<open>n\<close> all passed, it then has exactly one, and each check
  answered "opened" or "closed" exactly when it turned that condition on or off.\<close>

theorem incidents_follow_the_checks:
  assumes "0 < n" "list_all (\<lambda>(_, moment). stored_instant moment) checks"
  shows "\<exists>d. record_all (int n) gap checks empty_checks = Inr (d, verdicts n checks) \<and>
    (\<forall>target. (\<exists>!row. row \<in> set (cdb_incidents d) \<and> open_row target row) \<longleftrightarrow> is_down n (passes target checks)) \<and>
    (\<forall>target. (\<exists>row\<in>set (cdb_incidents d). open_row target row) \<longleftrightarrow> is_down n (passes target checks))"
proof -
  obtain d where d: "record_all (int n) gap checks empty_checks = Inr (d, verdicts n checks)" "follows n checks d"
    using record_all_follows [OF assms] by blast
  then have "down_now target d = is_down n (passes target checks)" for target by (simp add: follows_def)
  moreover have "(\<exists>!row. row \<in> set (cdb_incidents d) \<and> open_row target row) = down_now target d" for target
    using d(2) unfolding down_now_def follows_def incidents_inv_def by blast
  ultimately show ?thesis using d(1) unfolding down_now_def by blast
qed

theorem incidents_follow_the_checks_witness:
  "\<exists>d. record_all 2 180 (map (\<lambda>(ok, m). (\<lparr>chk_target = ''host:a'', chk_ok = ok, chk_reason = ''timeout''\<rparr>, m))
       [(False, 1790000000000), (False, 1790000030000), (True, 1790000060000)]) empty_checks =
     Inr (d, [None, Some Opened, None]) \<and> (\<exists>row\<in>set (cdb_incidents d). open_row ''host:a'' row)"
proof -
  let ?checks = "map (\<lambda>(ok, m). (\<lparr>chk_target = ''host:a'', chk_ok = ok, chk_reason = ''timeout''\<rparr>, m))
       [(False, 1790000000000), (False, 1790000030000), (True, 1790000060000 :: int)]"
  have in_range: "list_all (\<lambda>(_, moment). stored_instant moment) ?checks" by code_simp
  have down: "is_down 2 [] = False" "is_down 2 [False] = False" "is_down 2 [False, False] = True" "is_down 2 [False, False, True] = True"
    using is_down_snoc [of 2 "[]" False] is_down_snoc [of 2 "[False]" False] is_down_snoc [of 2 "[False, False]" True]
    by (simp_all add: run_at_end_def)
  have "verdicts 2 ?checks = [None, Some Opened, None]"
    by (simp add: verdicts_def passes_def upt_rec down verdict_of_def)
  moreover have "is_down 2 (passes ''host:a'' ?checks)" by (simp add: passes_def down)
  ultimately show ?thesis using incidents_follow_the_checks [OF _ in_range, of 2 180] by auto
qed

subsection \<open>Retiring targets\<close>

lemma like_any [simp]: "sql_like ''%'' s"
  by (induction s) simp_all

text \<open>A pattern without wildcards but its last matches what starts with it, in either case.\<close>

lemma like_prefix:
  assumes "CHR ''%'' \<notin> set p" "CHR ''_'' \<notin> set p"
  shows "sql_like (p @ ''%'') s \<longleftrightarrow> starts_with (toLowerCase p) (toLowerCase s)"
  using assms
proof (induction p arbitrary: s)
  case (Cons c p)
  then show ?case by (cases s) (auto simp: starts_with_def toLowerCase_def)
next
  case Nil
  have "sql_like ''%'' s" by (rule like_any)
  then show ?case by (simp add: starts_with_def)
qed

text \<open>An underscore in a host's name is a wildcard: one host's round retires the containers of another.\<close>

lemma underscore_reaches_other_hosts:
  "stale_incidents ''container:nas_1/'' [''sonarr''] \<lparr>cdb_incidents = [\<lparr>inr_id = 1, inr_target = ''container:nas-1/sonarr'',
     inr_reason = ''not_running'', inr_opened_at = ''2026-09-26T07:00:00+00:00'', inr_closed_at = None\<rparr>],
     cdb_next_id = 2, cdb_streaks = []\<rparr> \<noteq> []"
  by code_simp

definition removed_at :: "string \<Rightarrow> incident_row \<Rightarrow> incident_row" where
  "removed_at stamp r = r\<lparr>inr_closed_at := Some stamp, inr_reason := ''removed''\<rparr>"

lemma fold_update:
  assumes "\<And>r. inr_id (f r) = inr_id r" "\<And>r. f (f r) = f r"
  shows "cdb_incidents (fold (\<lambda>row. update_incident (inr_id row) f) xs d) =
      map (\<lambda>r. if inr_id r \<in> inr_id ` set xs then f r else r) (cdb_incidents d) \<and>
    cdb_streaks (fold (\<lambda>row. update_incident (inr_id row) f) xs d) = cdb_streaks d"
  using assms by (induction xs arbitrary: d) (auto simp: update_incident_def)

lemma retired_tables:
  assumes "incidents_inv d"
  shows "cdb_incidents (fst (retireAbsent prefix seen moment d)) =
      map (\<lambda>r. if r \<in> set (stale_incidents prefix seen d) then removed_at (isoformat moment) r else r) (cdb_incidents d)"
    "cdb_streaks (fst (retireAbsent prefix seen moment d)) =
      filter (\<lambda>s. stk_target s \<notin> inr_target ` set (stale_incidents prefix seen d)) (cdb_streaks d)"
proof -
  let ?stale = "stale_incidents prefix seen d"
  let ?f = "\<lambda>r. r\<lparr>inr_closed_at := Some (isoformat moment), inr_reason := ''removed''\<rparr>"
  have ids: "inr_id r \<in> inr_id ` set ?stale \<longleftrightarrow> r \<in> set ?stale" if "r \<in> set (cdb_incidents d)" for r
  proof
    assume "inr_id r \<in> inr_id ` set ?stale"
    then obtain q where "q \<in> set ?stale" "inr_id r = inr_id q" by blast
    moreover have "q \<in> set (cdb_incidents d)" using calculation(1) by (simp add: stale_incidents_def)
    ultimately show "r \<in> set ?stale"
      using that assms unfolding incidents_inv_def by (metis (no_types, lifting) distinct_map inj_onD)
  qed blast
  have fold: "cdb_incidents (fold (\<lambda>row. update_incident (inr_id row) ?f) ?stale d) =
      map (\<lambda>r. if inr_id r \<in> inr_id ` set ?stale then ?f r else r) (cdb_incidents d) \<and>
    cdb_streaks (fold (\<lambda>row. update_incident (inr_id row) ?f) ?stale d) = cdb_streaks d"
    by (rule fold_update) simp_all
  show "cdb_incidents (fst (retireAbsent prefix seen moment d)) =
      map (\<lambda>r. if r \<in> set ?stale then removed_at (isoformat moment) r else r) (cdb_incidents d)"
    using fold ids by (simp add: retireAbsent_def Let_def removed_at_def)
  show "cdb_streaks (fst (retireAbsent prefix seen moment d)) =
      filter (\<lambda>s. stk_target s \<notin> inr_target ` set ?stale) (cdb_streaks d)"
    using fold by (simp add: retireAbsent_def Let_def)
qed

lemma incidents_inv_retire:
  assumes "incidents_inv d"
  shows "incidents_inv (fst (retireAbsent prefix seen moment d))"
proof -
  have "incidents_inv (update_incident i (removed_at stamp) e)" if "incidents_inv e" for i stamp e
    by (rule incidents_inv_update [OF that]) (simp_all add: removed_at_def open_row_def)
  then have "incidents_inv e \<Longrightarrow> incidents_inv (fold (\<lambda>row. update_incident (inr_id row) (removed_at stamp)) xs e)" for xs stamp e
    by (induction xs arbitrary: e) simp_all
  from this [OF assms] show ?thesis unfolding retireAbsent_def Let_def removed_at_def [abs_def] incidents_inv_def by simp
qed

lemma streaks_inv_retire:
  "incidents_inv d \<Longrightarrow> streaks_inv d \<Longrightarrow> streaks_inv (fst (retireAbsent prefix seen moment d))"
  unfolding streaks_inv_def by (auto simp: retired_tables distinct_map_filter)

lemma find_kept: "List.find (\<lambda>s. f s = t) (filter (\<lambda>s. f s \<notin> A) xs) = (if t \<in> A then None else List.find (\<lambda>s. f s = t) xs)"
  by (induction xs) auto

text \<open>What retiring does to one target.\<close>

lemma retire_tracks:
  assumes "incidents_inv d" "streaks_inv d" "0 < n" "tracks n h t d"
    and gone_def: "gone \<longleftrightarrow> sql_like (prefix @ ''%'') t \<and> removePrefix t prefix \<notin> set seen \<and> is_down n h"
  shows "tracks n (if gone then [] else h) t (fst (retireAbsent prefix seen moment d))"
proof -
  let ?stale = "stale_incidents prefix seen d" and ?d = "fst (retireAbsent prefix seen moment d)"
  have down: "down_now t d \<longleftrightarrow> is_down n h" using assms(4) by (simp add: tracks_def)
  have stale: "t \<in> inr_target ` set ?stale \<longleftrightarrow> gone"
    using down unfolding gone_def by (auto simp: stale_incidents_def down_now_def open_row_def)
  have streak: "streak_of t ?d = (if gone then None else streak_of t d)"
    unfolding streak_of_def retired_tables(2) [OF assms(1)] stale [symmetric]
    by (rule find_kept)
  have "down_now t ?d \<longleftrightarrow> down_now t d \<and> \<not> gone"
    unfolding down_now_def retired_tables(1) [OF assms(1)] stale [symmetric]
    by (auto simp: removed_at_def open_row_def stale_incidents_def)
  then show ?thesis
    using assms(3,4) streak down by (auto simp: tracks_def ok_count_def fail_count_def counts_Nil)
qed

text \<open>C20: Retiring a host's absent containers closes exactly those. The open incidents of targets under the
  prefix whose rest was not seen are closed as removed, at the given instant, and the streaks of
  those targets are forgotten; every other incident and streak is kept as it was; afterwards
  nothing under the prefix is open that was not seen. For a prefix without wildcard characters,
  "under" means to start with it, in either case.\<close>

theorem retire_closes_exactly_the_absent:
  assumes "incidents_inv d"
  shows "let stale = stale_incidents prefix seen d; d' = fst (retireAbsent prefix seen moment d) in
    cdb_incidents d' = map (\<lambda>r. if r \<in> set stale then removed_at (isoformat moment) r else r) (cdb_incidents d) \<and>
    cdb_streaks d' = filter (\<lambda>s. stk_target s \<notin> inr_target ` set stale) (cdb_streaks d) \<and>
    stale_incidents prefix seen d' = [] \<and> incidents_inv d' \<and>
    (set prefix \<inter> {CHR ''%'', CHR ''_''} = {} \<longrightarrow>
       set stale = {r \<in> set (cdb_incidents d). inr_closed_at r = None \<and>
         starts_with (toLowerCase prefix) (toLowerCase (inr_target r)) \<and> removePrefix (inr_target r) prefix \<notin> set seen})"
proof -
  let ?stale = "stale_incidents prefix seen d" and ?d = "fst (retireAbsent prefix seen moment d)"
  have gone: "stale_incidents prefix seen ?d = []"
    by (auto simp: stale_incidents_def [of prefix seen ?d] retired_tables [OF assms] filter_empty_conv removed_at_def stale_incidents_def)
  have "incidents_inv ?d" by (rule incidents_inv_retire [OF assms])
  moreover have "set prefix \<inter> {CHR ''%'', CHR ''_''} = {} \<longrightarrow> set ?stale = {r \<in> set (cdb_incidents d). inr_closed_at r = None \<and>
         starts_with (toLowerCase prefix) (toLowerCase (inr_target r)) \<and> removePrefix (inr_target r) prefix \<notin> set seen}"
    by (auto simp: stale_incidents_def like_prefix)
  ultimately show ?thesis using gone retired_tables [OF assms] by (simp add: Let_def)
qed

theorem retire_closes_exactly_the_absent_witness:
  "stale_incidents ''container:a/'' [] (fst (retireAbsent ''container:a/'' [] 1790000000000
     \<lparr>cdb_incidents = [\<lparr>inr_id = 1, inr_target = ''container:a/x'', inr_reason = '''', inr_opened_at = '''', inr_closed_at = None\<rparr>],
       cdb_next_id = 2, cdb_streaks = []\<rparr>)) = []"
proof -
  have "incidents_inv \<lparr>cdb_incidents = [\<lparr>inr_id = 1, inr_target = ''container:a/x'', inr_reason = '''', inr_opened_at = '''', inr_closed_at = None\<rparr>],
       cdb_next_id = 2, cdb_streaks = []\<rparr>"
    by (simp add: incidents_inv_def)
  from retire_closes_exactly_the_absent [OF this, of "''container:a/''" "[]" 1790000000000] show ?thesis
    by (simp only: Let_def)
qed

subsection \<open>Availability\<close>

definition stored_row :: "incident_row \<Rightarrow> bool" where
  "stored_row r \<longleftrightarrow> (\<exists>t. stored_instant t \<and> inr_opened_at r = isoformat t) \<and>
     (case inr_closed_at r of None \<Rightarrow> True | Some c \<Rightarrow> (\<exists>t. stored_instant t \<and> c = isoformat t))"

text \<open>The instants a stored incident was open.\<close>

definition opened_ms :: "incident_row \<Rightarrow> int" where
  "opened_ms r = (case parseIso (inr_opened_at r) of Inr t \<Rightarrow> t | Inl _ \<Rightarrow> 0)"

definition closed_ms_of :: "incident_row \<Rightarrow> int option" where
  "closed_ms_of r = (case inr_closed_at r of None \<Rightarrow> None | Some c \<Rightarrow> (case parseIso c of Inr t \<Rightarrow> Some t | Inl _ \<Rightarrow> None))"

definition down_at :: "incident_row \<Rightarrow> int \<Rightarrow> bool" where
  "down_at r t \<longleftrightarrow> opened_ms r \<le> t \<and> (case closed_ms_of r of None \<Rightarrow> True | Some c \<Rightarrow> t < c)"

lemma isoformat_nonempty [simp]: "isoformat t \<noteq> []"
  by (simp add: isoformat_def)

lemma incident_of_stored:
  assumes "stored_row r"
  shows "incident_of r = Inr \<lparr>inc_id = inr_id r, inc_target = inr_target r, inc_reason = inr_reason r,
    inc_opened_at = opened_ms r, inc_closed_at = closed_ms_of r\<rparr>"
  using assms by (auto simp: stored_row_def incident_of_def opened_ms_def closed_ms_of_def split: option.splits)

lemma incidents_of_stored:
  assumes "\<forall>r\<in>set rows. stored_row r"
  shows "incidents_of rows = Inr (map (\<lambda>r. \<lparr>inc_id = inr_id r, inc_target = inr_target r, inc_reason = inr_reason r,
    inc_opened_at = opened_ms r, inc_closed_at = closed_ms_of r\<rparr>) rows)"
  using assms by (induction rows) (simp_all add: incident_of_stored)

definition watched :: "int \<Rightarrow> int \<Rightarrow> observed_run \<Rightarrow> int \<Rightarrow> bool" where
  "watched since now observed gap \<longleftrightarrow> since < now \<and> obs_since observed \<le> since \<and> withinGap (obs_until observed) now gap"

lemma clipped_nonneg: "x \<in> set (clipped_seconds since now outage) \<Longrightarrow> 0 < x"
  by (auto simp: clipped_seconds_def Let_def split: if_splits)

lemma uptime_value:
  assumes "\<forall>r\<in>set (cdb_incidents d). stored_row r" "watched since now observed gap"
  shows "\<exists>outages. outages = filter (\<lambda>row. inr_target row = target \<and>
              (case inr_closed_at row of None \<Rightarrow> True | Some c \<Rightarrow> isoformat since \<le> c)) (cdb_incidents d) \<and>
    uptimePercent target since now observed gap d = Inr (Some (pythonRound (max 0 ((of_int (now - since) / 1000 -
      sum_list (concat (map (\<lambda>r. clipped_seconds since now \<lparr>inc_id = inr_id r, inc_target = inr_target r,
        inc_reason = inr_reason r, inc_opened_at = opened_ms r, inc_closed_at = closed_ms_of r\<rparr>) outages)))
      / (of_int (now - since) / 1000)) * 100) 3))"
  using assms by (simp add: watched_def uptimePercent_def Let_def incidents_of_stored pythonSum_is_sum comp_def)

lemma member_le_sum: "x \<in> set xs \<Longrightarrow> \<forall>y\<in>set xs. 0 \<le> y \<Longrightarrow> x \<le> sum_list (xs :: rat list)"
proof (induction xs)
  case (Cons y ys)
  then have "0 \<le> sum_list ys" by (intro sum_list_nonneg) simp
  then show ?case using Cons by (auto intro: order_trans)
qed simp

text \<open>The seconds a stored incident takes from the window: some exactly when it was open at some instant of
  it, and all when it was open throughout.\<close>

definition taken :: "int \<Rightarrow> int \<Rightarrow> incident_row \<Rightarrow> rat list" where
  "taken since now r = clipped_seconds since now \<lparr>inc_id = inr_id r, inc_target = inr_target r, inc_reason = inr_reason r,
     inc_opened_at = opened_ms r, inc_closed_at = closed_ms_of r\<rparr>"

lemma taken_none:
  assumes "\<forall>t\<in>{since..<now}. \<not> down_at r t"
  shows "taken since now r = []"
proof (rule ccontr)
  let ?t = "max (opened_ms r) since"
  assume "taken since now r \<noteq> []"
  then have "?t < min (case closed_ms_of r of Some t \<Rightarrow> t | None \<Rightarrow> now) now"
    by (simp add: taken_def clipped_seconds_def Let_def split: if_splits)
  then have "?t \<in> {since..<now} \<and> down_at r ?t" by (auto simp: down_at_def split: option.splits)
  then show False using assms by blast
qed

lemma taken_all:
  assumes "\<forall>t\<in>{since..<now}. down_at r t" "since < now"
  shows "taken since now r = [of_int (now - since) / 1000]"
proof -
  have "down_at r since" "down_at r (now - 1)" using assms by simp_all
  then have "opened_ms r \<le> since" "case closed_ms_of r of None \<Rightarrow> True | Some c \<Rightarrow> now \<le> c"
    by (auto simp: down_at_def split: option.splits)
  then show ?thesis using assms(2) by (auto simp: taken_def clipped_seconds_def Let_def max_def min_def split: option.splits)
qed

lemma taken_selected:
  assumes "\<forall>t\<in>{since..<now}. down_at r t" "since < now" "stored_row r" "stored_instant since"
  shows "case inr_closed_at r of None \<Rightarrow> True | Some c \<Rightarrow> isoformat since \<le> c"
proof (cases "inr_closed_at r")
  case (Some stamp)
  then obtain c where c: "stored_instant c" "stamp = isoformat c" using assms(3) by (auto simp: stored_row_def)
  then have "closed_ms_of r = Some c" using Some by (simp add: closed_ms_of_def)
  moreover have "down_at r since" using assms(1,2) by simp
  ultimately have "since < c" by (simp add: down_at_def)
  then have "isoformat since < isoformat c" using assms(4) c(1) by (intro isoformat_less) (simp_all add: stored_instant_def)
  then show ?thesis using Some c(2) by simp
qed simp

lemma known_uptime:
  assumes "\<forall>r\<in>set (cdb_incidents d). stored_row r" "stored_instant since" "watched since now observed gap"
  shows "\<exists>p. uptimePercent target since now observed gap d = Inr (Some p) \<and> 0 \<le> p \<and> p \<le> 100 \<and>
       ((\<forall>r\<in>set (cdb_incidents d). \<forall>t\<in>{since..<now}. inr_target r = target \<longrightarrow> \<not> down_at r t) \<longrightarrow> p = 100) \<and>
       ((\<exists>r\<in>set (cdb_incidents d). inr_target r = target \<and> (\<forall>t\<in>{since..<now}. down_at r t)) \<longrightarrow> p = 0)"
proof -
  have now: "since < now" using assms(3) by (simp add: watched_def)
  define selected where "selected = filter (\<lambda>row. inr_target row = target \<and>
              (case inr_closed_at row of None \<Rightarrow> True | Some c \<Rightarrow> isoformat since \<le> c)) (cdb_incidents d)"
  define W where "W = (of_int (now - since) / 1000 :: rat)"
  define D where "D = sum_list (concat (map (taken since now) selected))"
  define v where "v = max 0 ((W - D) / W) * 100"
  have p: "uptimePercent target since now observed gap d = Inr (Some (pythonRound v 3))"
    using uptime_value [OF assms(1,3), of target] by (simp add: v_def D_def W_def selected_def taken_def [abs_def])
  have W: "0 < W" using now by (simp add: W_def)
  have nonneg: "\<forall>y\<in>set (concat (map (taken since now) selected)). 0 \<le> y"
    using clipped_nonneg by (fastforce simp: taken_def)
  then have "0 \<le> D" unfolding D_def by (intro sum_list_nonneg) blast
  then have v: "0 \<le> v" "v \<le> of_int 100" using W by (simp_all add: v_def divide_le_eq)
  have "pythonRound v 3 = 100" if up: "\<forall>r\<in>set (cdb_incidents d). \<forall>t\<in>{since..<now}. inr_target r = target \<longrightarrow> \<not> down_at r t"
  proof -
    have none: "concat (map (taken since now) selected) = []" using up by (auto simp: selected_def intro!: taken_none)
    have "D = 0" unfolding D_def none by simp
    then have "v = of_int 100" using W by (simp add: v_def)
    then show ?thesis using pythonRound_int [of 100 3] by simp
  qed
  moreover have "pythonRound v 3 = 0" if throughout: "\<exists>r\<in>set (cdb_incidents d). inr_target r = target \<and> (\<forall>t\<in>{since..<now}. down_at r t)"
  proof -
    obtain r where r: "r \<in> set (cdb_incidents d)" "inr_target r = target" "\<forall>t\<in>{since..<now}. down_at r t" using throughout by blast
    then have "r \<in> set selected" using taken_selected [OF r(3) now _ assms(2)] assms(1) by (simp add: selected_def)
    then have "W \<in> set (concat (map (taken since now) selected))" using taken_all [OF r(3) now] by (force simp: W_def)
    then have "W \<le> D" unfolding D_def using nonneg by (rule member_le_sum)
    then have "(W - D) / W \<le> 0" using W by (simp add: divide_le_0_iff)
    then have "v = of_int 0" by (simp add: v_def)
    then show ?thesis using pythonRound_int [of 0 3] by simp
  qed
  ultimately show ?thesis using p pythonRound_bounds [OF v, of 3] by auto
qed

text \<open>C19: Availability is only reported for time that was watched, and is honest at both ends. It is unknown
  exactly when the window is empty, or the unbroken run of checks began after the window did, or its
  last check is further back than the tolerance, or that check is stamped after the present, as when the
  clock was set back; otherwise it is a percentage from 0 to 100, which is 100 when
  the target was in no incident at any instant of the window and 0 when one incident covers the whole of it.\<close>

theorem uptime_is_honest:
  assumes "\<forall>r\<in>set (cdb_incidents d). stored_row r" "stored_instant since"
  shows "(uptimePercent target since now observed gap d = Inr None \<longleftrightarrow>
      now \<le> since \<or> since < obs_since observed \<or> gap * 1000 < now - obs_until observed \<or> now < obs_until observed) \<and>
    (since < now \<and> obs_since observed \<le> since \<and> now - obs_until observed \<le> gap * 1000 \<and> obs_until observed \<le> now \<longrightarrow>
      (\<exists>p. uptimePercent target since now observed gap d = Inr (Some p) \<and> 0 \<le> p \<and> p \<le> 100 \<and>
       ((\<forall>r\<in>set (cdb_incidents d). \<forall>t\<in>{since..<now}. inr_target r = target \<longrightarrow> \<not> down_at r t) \<longrightarrow> p = 100) \<and>
       ((\<exists>r\<in>set (cdb_incidents d). inr_target r = target \<and> (\<forall>t\<in>{since..<now}. down_at r t)) \<longrightarrow> p = 0)))"
proof -
  have "watched since now observed gap \<longleftrightarrow>
      since < now \<and> obs_since observed \<le> since \<and> now - obs_until observed \<le> gap * 1000 \<and> obs_until observed \<le> now"
    by (auto simp: watched_def withinGap_def)
  then show ?thesis
    using known_uptime [OF assms, of now observed gap target]
    by (cases "watched since now observed gap") (auto simp: uptimePercent_def withinGap_def)
qed

text \<open>A host that is down all through the window, and another that came back before it.\<close>

definition sample_outages :: checks_db where
  "sample_outages = \<lparr>cdb_incidents =
     [\<lparr>inr_id = 1, inr_target = ''host:a'', inr_reason = ''timeout'', inr_opened_at = isoformat 1789999000000, inr_closed_at = None\<rparr>,
      \<lparr>inr_id = 2, inr_target = ''host:b'', inr_reason = ''timeout'', inr_opened_at = isoformat 1789999000000,
        inr_closed_at = Some (isoformat 1789999500000)\<rparr>], cdb_next_id = 3, cdb_streaks = []\<rparr>"

lemma sample_outages_stored: "\<forall>r\<in>set (cdb_incidents sample_outages). stored_row r"
proof -
  have "stored_instant 1789999000000" "stored_instant 1789999500000" by code_simp+
  then show ?thesis by (auto simp: sample_outages_def stored_row_def)
qed

lemma sample_outages_down:
  "down_at r t \<longleftrightarrow> 1789999000000 \<le> t \<and> (inr_target r = ''host:b'' \<longrightarrow> t < 1789999500000)"
  if "r \<in> set (cdb_incidents sample_outages)"
proof -
  have "stored_instant 1789999000000" "stored_instant 1789999500000" by code_simp+
  then show ?thesis using that by (auto simp: sample_outages_def down_at_def opened_ms_def closed_ms_of_def)
qed

theorem uptime_is_honest_witness:
  "uptimePercent ''host:a'' 1790000000000 1790000600000 \<lparr>obs_since = 1789990000000, obs_until = 1790000590000\<rparr> 180 sample_outages =
     Inr (Some 0) \<and>
   uptimePercent ''host:b'' 1790000000000 1790000600000 \<lparr>obs_since = 1789990000000, obs_until = 1790000590000\<rparr> 180 sample_outages =
     Inr (Some 100) \<and>
   uptimePercent ''host:a'' 1790000000000 1790000600000 \<lparr>obs_since = 1789990000000, obs_until = 1790000601000\<rparr> 180 sample_outages =
     Inr None"
proof -
  let ?run = "\<lparr>obs_since = 1789990000000, obs_until = 1790000590000\<rparr>"
  have s: "stored_instant 1790000000000" by code_simp
  note honest = uptime_is_honest [OF sample_outages_stored s, of _ 1790000600000 _ 180]
  have "\<exists>r\<in>set (cdb_incidents sample_outages). inr_target r = ''host:a''" by (simp add: sample_outages_def)
  then have "\<exists>r\<in>set (cdb_incidents sample_outages). inr_target r = ''host:a'' \<and>
      (\<forall>t\<in>{1790000000000..<1790000600000}. down_at r t)"
    using sample_outages_down by fastforce
  then have "uptimePercent ''host:a'' 1790000000000 1790000600000 ?run 180 sample_outages = Inr (Some 0)"
    using honest [of "''host:a''" ?run, THEN conjunct2] by auto
  moreover have "\<forall>r\<in>set (cdb_incidents sample_outages). \<forall>t\<in>{1790000000000..<1790000600000}. inr_target r = ''host:b'' \<longrightarrow> \<not> down_at r t"
    using sample_outages_down by fastforce
  then have "uptimePercent ''host:b'' 1790000000000 1790000600000 ?run 180 sample_outages = Inr (Some 100)"
    using honest [of "''host:b''" ?run, THEN conjunct2] by auto
  ultimately show ?thesis
    using honest [of "''host:a''" "\<lparr>obs_since = 1789990000000, obs_until = 1790000601000\<rparr>", THEN conjunct1] by simp
qed

end
