(* ===== verification/JsText.thy ===== *)
theory JsText imports PythonMath IsoTime "HOL-Library.Multiset" begin

text \<open>
  What the portal and the monitor use of JavaScript beyond \<open>Prelude\<close>: sorting by a comparator, splitting text,
  and reading a decimal number. A comparator answers an integer; the \<open>NaN\<close> a comparator of dates may answer
  counts as zero, as \<open>sort\<close> has it.
\<close>

subsection \<open>Sorting\<close>

text \<open>A stable sort: an element goes before the later ones it does not come after. When the comparator is not
  an order the language leaves the result open; this is one result it allows.\<close>

fun js_insert :: "('a \<Rightarrow> 'a \<Rightarrow> int) \<Rightarrow> 'a \<Rightarrow> 'a list \<Rightarrow> 'a list" where
  "js_insert cmp x [] = [x]"
| "js_insert cmp x (y # ys) = (if cmp x y \<le> 0 then x # y # ys else y # js_insert cmp x ys)"

definition js_sort :: "('a \<Rightarrow> 'a \<Rightarrow> int) \<Rightarrow> 'a list \<Rightarrow> 'a list" where
  "js_sort cmp xs = foldr (js_insert cmp) xs []"

lemma mset_js_insert: "mset (js_insert cmp x xs) = add_mset x (mset xs)"
  by (induction xs) auto

lemma mset_js_sort [simp]: "mset (js_sort cmp xs) = mset xs"
  by (induction xs) (simp_all add: js_sort_def mset_js_insert)

lemma set_js_sort [simp]: "set (js_sort cmp xs) = set xs"
  by (metis mset_js_sort set_mset_mset)

lemma length_js_sort [simp]: "length (js_sort cmp xs) = length xs"
  by (metis mset_js_sort size_mset)

lemma set_js_insert: "set (js_insert cmp x xs) = insert x (set xs)"
  by (metis mset_js_insert set_mset_add_mset_insert set_mset_mset)

lemma js_insert_key:
  assumes "\<And>y. y \<in> set ys \<Longrightarrow> cmp x y \<le> 0 \<longleftrightarrow> f x \<le> f y"
  shows "js_insert cmp x ys = insort_key f x ys"
  using assms by (induction ys) auto

text \<open>A comparator that agrees with a key sorts by the key.\<close>

lemma js_sort_key:
  assumes "\<And>x y. x \<in> set xs \<Longrightarrow> y \<in> set xs \<Longrightarrow> cmp x y \<le> 0 \<longleftrightarrow> f x \<le> f y"
  shows "js_sort cmp xs = sort_key f xs"
  using assms
proof (induction xs)
  case Nil
  then show ?case by (simp add: js_sort_def)
next
  case (Cons x xs)
  have rest: "js_sort cmp xs = sort_key f xs" by (rule Cons.IH) (use Cons.prems in auto)
  have "js_insert cmp x (sort_key f xs) = insort_key f x (sort_key f xs)"
    by (rule js_insert_key) (use Cons.prems in auto)
  then show ?case using rest by (simp add: js_sort_def)
qed

subsection \<open>Splitting and numbers\<close>

fun split_on :: "char \<Rightarrow> string \<Rightarrow> string list" where
  \<comment> \<open>\<open>text.split(separator)\<close> at a single character\<close>
  "split_on sep [] = [[]]"
| "split_on sep (c # s) = (if c = sep then [] # split_on sep s
     else case split_on sep s of [] \<Rightarrow> [[c]] | t # ts \<Rightarrow> (c # t) # ts)"

lemma split_on_nonempty [simp]: "split_on sep s \<noteq> []"
  by (induction s) (auto split: list.splits)

lemma split_on_absent: "sep \<notin> set s \<Longrightarrow> split_on sep s = [s]"
  by (induction s) auto

lemma split_on_append: "sep \<notin> set a \<Longrightarrow> split_on sep (a @ sep # s) = a # split_on sep s"
  by (induction a) auto

lemma split_on_parts: "t \<in> set (split_on sep s) \<Longrightarrow> sep \<notin> set t \<and> set t \<subseteq> set s"
proof (induction s arbitrary: t)
  case Nil
  then show ?case by simp
next
  case (Cons c s)
  obtain u us where u: "split_on sep s = u # us" by (meson neq_Nil_conv split_on_nonempty)
  have "set u \<subseteq> set s" "sep \<notin> set u" using Cons.IH [of u] u by simp_all
  moreover have "t = [] \<or> t \<in> set (split_on sep s)" if "c = sep" using Cons.prems that by auto
  moreover have "t = c # u \<or> t \<in> set us" if "c \<noteq> sep" using Cons.prems u that by simp
  moreover have "sep \<notin> set v \<and> set v \<subseteq> set s" if "v \<in> set us" for v using Cons.IH [of v] u that by simp
  ultimately show ?case using Cons.IH [of t] by (cases "c = sep") force+
qed

definition decimal :: "string \<Rightarrow> rat option" where
  \<comment> \<open>\<open>Number(text)\<close> of a text of digits and dots; \<open>None\<close> is \<open>NaN\<close>\<close>
  "decimal s = (let whole = takeWhile is_digit s; rest = dropWhile is_digit s in
     if s = [] then Some 0
     else case rest of [] \<Rightarrow> Some (of_nat (read_nat whole))
     | c # f \<Rightarrow> if c = CHR ''.'' \<and> list_all is_digit f \<and> (whole \<noteq> [] \<or> f \<noteq> [])
                then Some (of_nat (read_nat whole) + of_nat (read_nat f) / 10 ^ length f) else None)"

definition js_round :: "rat \<Rightarrow> rat" where
  \<comment> \<open>\<open>Math.round\<close>: half goes up\<close>
  "js_round x = of_int \<lfloor>x + 1 / 2\<rfloor>"

definition fixed_text :: "rat \<Rightarrow> nat \<Rightarrow> string" where
  \<comment> \<open>\<open>x.toFixed(places)\<close>, for at least one digit\<close>
  "fixed_text x places = (let n = nat \<lfloor>\<bar>toFixed x places\<bar> * 10 ^ places\<rfloor> in
     (if x < 0 then ''-'' else []) @ show_nat (n div 10 ^ places) @ ''.'' @ pad (int (n mod 10 ^ places)) places)"

end
