(* ===== verification/Portal.thy ===== *)
theory Portal imports Roster JsText begin

text \<open>
  What the portal derives from a member's row (\<open>apps/admin-portal/src/lib\<close>: \<open>dates.ts\<close>, \<open>inviteRules.ts\<close>,
  \<open>memberStatus.ts\<close>, \<open>billing.ts\<close>, and the price list of \<open>site.config.ts\<close>). The row is the record the bridge
  serves, \<open>member\<close>, with \<open>'unknown'\<close>, the tier of a member without one, as \<open>None\<close>; the log's entries are its
  \<open>event_row\<close>. \<open>Date.now()\<close> is an argument. \<open>Date.parse\<close> reads the timestamps the bridge and the monitor write;
  what it makes of any other text is up to the engine, the parameter \<open>other\<close>, and \<open>None\<close> is \<open>NaN\<close>.
\<close>

subsection \<open>Dates\<close>

definition zoned :: "string \<Rightarrow> bool" where
  \<comment> \<open>a \<open>T\<close> between date and time, and an offset at the end\<close>
  "zoned s \<longleftrightarrow> 19 < length s \<and> s ! 10 = CHR ''T'' \<and>
     (last s = CHR ''Z'' \<or> s ! (length s - 6) \<in> set ''+-'')"

definition Date_parse :: "(string \<Rightarrow> int option) \<Rightarrow> string \<Rightarrow> int option" where
  "Date_parse other s = (case (if zoned s then iso_instant s else None) of Some t \<Rightarrow> Some t | None \<Rightarrow> other s)"

definition DAY_MS :: int where
  "DAY_MS = 24 * 60 * 60 * 1000"

definition parseTimestamp :: "(string \<Rightarrow> int option) \<Rightarrow> string option \<Rightarrow> int option" where
  "parseTimestamp other value = Option.bind (nonempty value) (Date_parse other)"

lemma length_isoformat:
  assumes "0 \<le> utc_year t" "utc_year t \<le> 9999"
  shows "length (isoformat t) = (if utc_millis t = 0 then 25 else 32)"
  using assms utc_month_bounds [of t] utc_date_bounds [of t] time_bounds [of t] by (simp add: isoformat_def)

lemma Date_parse_stored [simp]:
  assumes "100 \<le> utc_year t" "utc_year t \<le> 9999"
  shows "Date_parse other (isoformat t) = Some t"
proof -
  have "zoned (isoformat t)"
    using assms utc_month_bounds [of t] utc_date_bounds [of t] time_bounds [of t]
    by (simp add: zoned_def isoformat_def nth_append)
  then show ?thesis by (simp add: Date_parse_def iso_instant_isoformat [OF assms])
qed

subsection \<open>Invite rules\<close>

definition PAID_TIERS :: "tier list" where
  "PAID_TIERS = [Bronze, Silver, Gold, Youth]"

definition paid_tier :: "string \<Rightarrow> tier option" where
  \<comment> \<open>\<open>isPaidTier\<close> of a text, with the tier it is\<close>
  "paid_tier value = List.find (\<lambda>t. tier_name t = value) PAID_TIERS"

definition TIER_DOWNLOADS :: "tier \<Rightarrow> bool" where
  "TIER_DOWNLOADS t = (case t of Bronze \<Rightarrow> False | Silver \<Rightarrow> False | Gold \<Rightarrow> True | Youth \<Rightarrow> True)"

definition INVITE_LINK_DAYS :: int where
  "INVITE_LINK_DAYS = 14"

definition INVITE_GRACE_DAYS :: int where
  "INVITE_GRACE_DAYS = 14"

definition inviteWindowEnd :: "int \<Rightarrow> int" where
  "inviteWindowEnd invitedAt = invitedAt + INVITE_LINK_DAYS * DAY_MS"

definition pendingMember :: "string \<Rightarrow> tier \<Rightarrow> string \<Rightarrow> member" where
  \<comment> \<open>the last argument is \<open>new Date().toISOString()\<close>\<close>
  "pendingMember email t now_text = \<lparr>mem_member = local_part email, mem_email = email, mem_tier = Some t,
     mem_downloads = Some (TIER_DOWNLOADS t), mem_expires = None, mem_servers = [], mem_libraries = [], mem_entitled = [],
     mem_subscribed = False, mem_payment_state = None, mem_invited_at = Some now_text, mem_customer_id = None,
     mem_stripe_email = None, mem_tag = None\<rparr>"

subsection \<open>Status\<close>

datatype member_status =
    BannedMember | Uninvited | Invited | DeclinedInvite | SubscribedMonthly | PaymentFailing | VipMember | ExpiredMember

definition HOLDS_ACCESS :: "member_status list" where
  "HOLDS_ACCESS = [SubscribedMonthly, PaymentFailing]"

definition inviteActionLabel :: "member_status \<Rightarrow> string" where
  "inviteActionLabel status = (if status \<in> set HOLDS_ACCESS then ''Re-invite'' else ''Invite'')"

definition GRACE_MS :: int where
  "GRACE_MS = INVITE_GRACE_DAYS * DAY_MS"

definition deriveStatus :: "(string \<Rightarrow> int option) \<Rightarrow> int \<Rightarrow> member \<Rightarrow> member_status" where
  "deriveStatus other now m =
     (if mem_tag m = Some Banned then BannedMember
      else if mem_tag m = Some Vip then VipMember
      else let expired = (case Option.bind (nonempty (mem_expires m)) (Date_parse other) of
                 Some t \<Rightarrow> t < now | None \<Rightarrow> False) in
        if mem_payment_state m = Some PastDue \<and> \<not> expired then PaymentFailing
        else if mem_subscribed m then (if expired then ExpiredMember else SubscribedMonthly)
        else case Option.bind (nonempty (mem_invited_at m)) (Date_parse other) of
             Some t \<Rightarrow> (if now - t > GRACE_MS then DeclinedInvite else Invited)
           | None \<Rightarrow> Uninvited)"

definition deriveHistory :: "(string \<Rightarrow> int option) \<Rightarrow> int \<Rightarrow> member \<Rightarrow> event_row list \<Rightarrow> event_row list" where
  "deriveHistory other now m events =
     (case (if deriveStatus other now m = ExpiredMember then nonempty (mem_expires m) else None) of
        Some t \<Rightarrow> \<lparr>ev_id = -1, ev_at = t, ev_email = mem_email m, ev_action = ''Membership expired'', ev_detail = ''''\<rparr> # events
      | None \<Rightarrow> events)"

record member_problems =
  pb_paymentFailed :: bool
  pb_noAccess :: bool

definition ACCESS_EXPECTED :: "member_status list" where
  "ACCESS_EXPECTED = [SubscribedMonthly, PaymentFailing, VipMember]"

definition deriveProblems :: "(string \<Rightarrow> int option) \<Rightarrow> int \<Rightarrow> member \<Rightarrow> member_problems" where
  "deriveProblems other now m = (let status = deriveStatus other now m in
     \<lparr>pb_paymentFailed = (status \<noteq> BannedMember \<and> mem_payment_state m = Some PastDue),
      pb_noAccess = (mem_servers m = [] \<and> status \<in> set ACCESS_EXPECTED)\<rparr>)"

end
