(* ===== verification/Pricing.thy ===== *)
theory Pricing imports Tiers JsText begin

text \<open>
  The price list of the landing page (\<open>apps/admin-portal/src/site.config.ts\<close>) and the figures derived from it
  (\<open>apps/admin-portal/src/lib/billing.ts\<close>). Amounts are exact rationals; a price whose text is not a number
  reads as \<open>None\<close>, which is \<open>NaN\<close>. The payment links of the build's environment are an argument.
\<close>

subsection \<open>Amounts\<close>

datatype billing_cadence = Monthly | Annual

record annual_pricing =
  ap_total :: string
  ap_perMonth :: string
  ap_cadence :: string
  ap_savings :: string
  ap_headline :: string
  ap_paymentLinkUrl :: string

definition ANNUAL_MONTHS_CHARGED :: int where
  "ANNUAL_MONTHS_CHARGED = 10"

definition ANNUAL_MONTHS_FREE :: int where
  "ANNUAL_MONTHS_FREE = 12 - ANNUAL_MONTHS_CHARGED"

definition amountOf :: "string \<Rightarrow> rat option" where
  "amountOf price = decimal (filter (\<lambda>c. is_digit c \<or> c = CHR ''.'') price)"

definition dollars :: "rat option \<Rightarrow> string" where
  "dollars amount = ''$'' @ (case amount of None \<Rightarrow> ''NaN''
     | Some x \<Rightarrow> if is_integer x then show_int \<lfloor>x\<rfloor> else fixed_text x 2)"

definition toAnnualPricing :: "string \<Rightarrow> string \<Rightarrow> annual_pricing" where
  "toAnnualPricing price link = (let monthly = amountOf price;
       total = map_option (\<lambda>m. m * of_int ANNUAL_MONTHS_CHARGED) monthly in
     \<lparr>ap_total = dollars total,
      ap_perMonth = dollars (map_option (\<lambda>t. js_round (t / 12 * 100) / 100) total),
      ap_cadence = ''CAD / month, billed annually'',
      ap_savings = ''Save '' @ dollars (map_option (\<lambda>m. m * of_int ANNUAL_MONTHS_FREE) monthly) @ '' a year'',
      ap_headline = show_int ANNUAL_MONTHS_FREE @ '' months free'',
      ap_paymentLinkUrl = link\<rparr>)"

subsection \<open>The tiers on sale\<close>

record tier_feature =
  tf_label :: string
  tf_included :: bool

record site_tier =
  st_id :: tier
  st_name :: string
  st_price :: string
  st_cadence :: string
  st_summary :: string
  st_features :: "tier_feature list"
  st_paymentLinkUrl :: string
  st_annual :: annual_pricing

definition FEATURE_LABELS :: "string list" where
  "FEATURE_LABELS = [''1080p HD streaming'', ''4K UHD streaming'', ''Lossless audio streaming'',
     ''Offline downloads for travel'', ''Access to the request queue'']"

definition YOUTH_FEATURE_LABELS :: "string list" where
  "YOUTH_FEATURE_LABELS = [''1080p HD streaming (youth profile)'', ''4K UHD streaming (youth profile)'',
     ''Lossless audio streaming'', ''Offline downloads for travel'', ''Access to the request queue'']"

fun PRICES :: "tier \<Rightarrow> string" where
  "PRICES Bronze = ''$8''"
| "PRICES Silver = ''$14''"
| "PRICES Gold = ''$20''"
| "PRICES Youth = ''$10''"

definition toChecklist :: "string list \<Rightarrow> string list \<Rightarrow> tier_feature list" where
  "toChecklist labels included = map (\<lambda>l. \<lparr>tf_label = l, tf_included = l \<in> set included\<rparr>) labels"

definition included_features :: "tier \<Rightarrow> string list" where
  "included_features t = (case t of
     Bronze \<Rightarrow> [''1080p HD streaming'', ''Lossless audio streaming'', ''Access to the request queue'']
   | Silver \<Rightarrow> [''1080p HD streaming'', ''4K UHD streaming'', ''Lossless audio streaming'', ''Access to the request queue'']
   | Gold \<Rightarrow> [''1080p HD streaming'', ''4K UHD streaming'', ''Lossless audio streaming'',
       ''Offline downloads for travel'', ''Access to the request queue'']
   | Youth \<Rightarrow> [''1080p HD streaming (youth profile)'', ''4K UHD streaming (youth profile)'',
       ''Offline downloads for travel'', ''Access to the request queue''])"

definition config_tier :: "(tier \<Rightarrow> string option) \<Rightarrow> (tier \<Rightarrow> string option) \<Rightarrow> tier \<Rightarrow> site_tier" where
  "config_tier link annual_link t = \<lparr>st_id = t,
     st_name = (case t of Bronze \<Rightarrow> ''Bronze'' | Silver \<Rightarrow> ''Silver'' | Gold \<Rightarrow> ''Gold'' | Youth \<Rightarrow> ''Youth''),
     st_price = PRICES t, st_cadence = ''CAD / month'',
     st_summary = (case t of Bronze \<Rightarrow> ''Everyday playback in 1080p.'' | Silver \<Rightarrow> ''Full 4K playback quality.''
       | Gold \<Rightarrow> ''Everything the server offers.'' | Youth \<Rightarrow> ''A youth profile with restricted defaults.''),
     st_features = toChecklist (if t = Youth then YOUTH_FEATURE_LABELS else FEATURE_LABELS) (included_features t),
     st_paymentLinkUrl = option_text [] (link t),
     st_annual = toAnnualPricing (PRICES t) (option_text [] (annual_link t))\<rparr>"

definition config_tiers :: "(tier \<Rightarrow> string option) \<Rightarrow> (tier \<Rightarrow> string option) \<Rightarrow> site_tier list" where
  "config_tiers link annual_link = map (config_tier link annual_link) [Bronze, Silver, Gold, Youth]"

subsection \<open>What a month costs\<close>

definition monthlyPrice :: "site_tier \<Rightarrow> billing_cadence \<Rightarrow> string" where
  "monthlyPrice t cadence = (if cadence = Annual then ap_perMonth (st_annual t) else st_price t)"

definition monthlyAmount :: "site_tier \<Rightarrow> billing_cadence \<Rightarrow> rat option" where
  "monthlyAmount t cadence = amountOf (if cadence = Annual then ap_perMonth (st_annual t) else st_price t)"

definition less_amount :: "rat option \<Rightarrow> rat option \<Rightarrow> bool" where
  \<comment> \<open>\<open><\<close>, which \<open>NaN\<close> never satisfies\<close>
  "less_amount x y = (case (x, y) of (Some a, Some b) \<Rightarrow> a < b | _ \<Rightarrow> False)"

definition fromPrice :: "site_tier list \<Rightarrow> billing_cadence \<Rightarrow> string" where
  "fromPrice tiers cadence = foldl (\<lambda>cheapest t.
       if less_amount (monthlyAmount t cadence) (amountOf cheapest) then monthlyPrice t cadence else cheapest)
     (case tiers of t # _ \<Rightarrow> monthlyPrice t cadence | [] \<Rightarrow> ''$8'') tiers"

lemma price_amounts [simp]: "amountOf (PRICES t) = Some (case t of Bronze \<Rightarrow> 8 | Silver \<Rightarrow> 14 | Gold \<Rightarrow> 20 | Youth \<Rightarrow> 10)"
  by (cases t) (simp_all add: amountOf_def decimal_def is_digit_def code_of_def read_nat_def digit_val_def)

lemma show_digit [simp]: "n < 10 \<Longrightarrow> show_nat n = [digit_char n]"
  by (subst show_nat.simps) simp

lemma show_digits: "10 \<le> n \<Longrightarrow> show_nat n = show_nat (n div 10) @ [digit_char (n mod 10)]"
  by (subst show_nat.simps) simp

lemma floor_ratio: "\<lfloor>numeral a / numeral b :: rat\<rfloor> = numeral a div numeral b"
  using floor_divide_of_int_eq [of "numeral a" "numeral b", where ?'a = rat] by simp

lemma annual_texts:
  "ap_perMonth (toAnnualPricing (PRICES t) link) =
     (case t of Bronze \<Rightarrow> ''$6.67'' | Silver \<Rightarrow> ''$11.67'' | Gold \<Rightarrow> ''$16.67'' | Youth \<Rightarrow> ''$8.33'')"
  unfolding toAnnualPricing_def Let_def price_amounts
  by (cases t) (simp_all add: dollars_def ANNUAL_MONTHS_CHARGED_def js_round_def is_integer_def
    fixed_text_def toFixed_def Let_def floor_ratio show_digits digit_char_def char_of_def bit_0 pad_def show_int_def)


text \<open>The amount a price text names: what a tier costs a month under either cadence reads back from its text.\<close>

lemma amount_of_price: "amountOf (monthlyPrice t cadence) = monthlyAmount t cadence"
  by (simp add: monthlyPrice_def monthlyAmount_def)

text \<open>The headline price is that of a tier no other undercuts.\<close>

lemma from_price_is_cheapest:
  assumes "tiers \<noteq> []" "\<And>t. t \<in> set tiers \<Longrightarrow> monthlyAmount t cadence \<noteq> None"
  shows "\<exists>t\<in>set tiers. fromPrice tiers cadence = monthlyPrice t cadence \<and>
    (\<forall>u\<in>set tiers. the (monthlyAmount t cadence) \<le> the (monthlyAmount u cadence))"
proof -
  define step where "step = (\<lambda>cheapest t. if less_amount (monthlyAmount t cadence) (amountOf cheapest)
    then monthlyPrice t cadence else cheapest)"
  have "\<exists>t\<in>set (c # ts). foldl step (monthlyPrice c cadence) ts = monthlyPrice t cadence \<and>
      (\<forall>u\<in>set (c # ts). the (monthlyAmount t cadence) \<le> the (monthlyAmount u cadence))"
    if "set (c # ts) \<subseteq> set tiers" for c ts
    using that
  proof (induction ts rule: rev_induct)
    case Nil
    then show ?case by simp
  next
    case (snoc x ts)
    then obtain t where t: "t \<in> set (c # ts)" "foldl step (monthlyPrice c cadence) ts = monthlyPrice t cadence"
      "\<forall>u\<in>set (c # ts). the (monthlyAmount t cadence) \<le> the (monthlyAmount u cadence)" by auto
    obtain a b where ab: "monthlyAmount t cadence = Some a" "monthlyAmount x cadence = Some b"
      using assms(2) t(1) snoc.prems by (metis (no_types, lifting) in_set_conv_decomp insertCI insertE list.simps(15)
        not_Some_eq set_append subsetD sup.coboundedI1 Un_iff)
    show ?case
    proof (cases "b < a")
      case True
      have "the (monthlyAmount x cadence) \<le> the (monthlyAmount u cadence)" if "u \<in> set (c # ts)" for u
        using t(3) that True ab by fastforce
      then show ?thesis using True t(2) ab by (auto simp: step_def amount_of_price less_amount_def)
    next
      case False
      then show ?thesis using t ab by (auto simp: step_def amount_of_price less_amount_def)
    qed
  qed
  from this [of "hd tiers" tiers] show ?thesis
    using assms(1) by (cases tiers) (auto simp: fromPrice_def step_def [abs_def])
qed

end
