(* ===== verification/Months.thy ===== *)
theory Months imports JsText begin

text \<open>
  The months of the income page (\<open>monthOf\<close> to \<open>monthsBetween\<close> of \<open>apps/admin-portal/src/lib/income.ts\<close>). A month is
  its text; a part of it that is not all digits reads as \<open>NaN\<close>. The lemmas number the months since year 0: the month
  of an instant, its text, its end and the month after it are then plain arithmetic.
\<close>

subsection \<open>Months\<close>

definition monthOf :: "string \<Rightarrow> string" where
  "monthOf stamp = take 7 stamp"

definition monthKey :: "int \<Rightarrow> string" where
  \<comment> \<open>\<open>toISOString().slice(0, 7)\<close>: outside the years 0 to 9999 the year has a sign and six digits\<close>
  "monthKey ms = (let y = utc_year ms in
     if 0 \<le> y \<and> y \<le> 9999 then pad y 4 @ ''-'' @ pad (utc_month ms + 1) 2
     else (if y < 0 then ''-'' else ''+'') @ pad \<bar>y\<bar> 6)"

definition month_number :: "string \<Rightarrow> int option" where
  "month_number part = (if list_all is_digit part then Some (int (read_nat part)) else None)"

definition time_clip :: "int \<Rightarrow> int option" where
  \<comment> \<open>an instant a \<open>Date\<close> can hold; any other is \<open>NaN\<close>\<close>
  "time_clip t = (if \<bar>t\<bar> \<le> 8640000000000000 then Some t else None)"

definition monthEnd :: "string \<Rightarrow> int option" where
  "monthEnd month = (let parts = split_on CHR ''-'' month in
     case (month_number (parts ! 0), if 1 < length parts then month_number (parts ! 1) else Some 1) of
       (Some y, Some m) \<Rightarrow> time_clip (date_utc y m 1 0 0 0 0)
     | _ \<Rightarrow> None)"

definition nextMonth :: "string \<Rightarrow> exn + string" where
  "nextMonth month = (case monthEnd month of Some t \<Rightarrow> Inr (monthKey t) | None \<Rightarrow> Inl (RangeErr ''Invalid time value''))"

fun extend_months :: "nat \<Rightarrow> string \<Rightarrow> string list \<Rightarrow> exn + string list" where
  \<comment> \<open>the \<open>reduce\<close> of \<open>monthsBetween\<close> over so many turns\<close>
  "extend_months 0 last_month keys = Inr keys"
| "extend_months (Suc n) last_month keys =
     (if last keys = last_month then extend_months n last_month keys
      else case nextMonth (last keys) of Inl e \<Rightarrow> Inl e | Inr k \<Rightarrow> extend_months n last_month (keys @ [k]))"

definition monthsBetween :: "string \<Rightarrow> string \<Rightarrow> exn + string list" where
  "monthsBetween first_month last_month =
     (if last_month \<le> first_month then Inr [last_month] else extend_months 240 last_month [first_month])"

subsection \<open>Numbered months\<close>

definition month_index :: "int \<Rightarrow> int" where
  "month_index t = 12 * utc_year t + utc_month t"

definition month_name :: "int \<Rightarrow> string" where
  "month_name n = pad (n div 12) 4 @ ''-'' @ pad (n mod 12 + 1) 2"

definition month_begin :: "int \<Rightarrow> int" where
  "month_begin n = (day_from_year (n div 12) + month_start (leap_day (n div 12)) (n mod 12)) * ms_per_day"

lemma month_index_parts: "month_index t div 12 = utc_year t" "month_index t mod 12 = utc_month t"
  using utc_month_bounds [of t] by (simp_all add: month_index_def)

lemma next_month_parts:
  fixes n :: int
  shows "n mod 12 = 11 \<Longrightarrow> (n + 1) div 12 = n div 12 + 1 \<and> (n + 1) mod 12 = 0"
    "n mod 12 \<noteq> 11 \<Longrightarrow> (n + 1) div 12 = n div 12 \<and> (n + 1) mod 12 = n mod 12 + 1"
proof -
  define q r where "q = n div 12" and "r = n mod 12"
  have n: "n = 12 * q + r" "0 \<le> r" "r < 12" by (simp_all add: q_def r_def)
  show "(n + 1) div 12 = n div 12 + 1 \<and> (n + 1) mod 12 = 0" if "n mod 12 = 11"
    using that int_div_pos_eq [of "n + 1" 12 "q + 1" 0] int_mod_pos_eq [of "n + 1" 12 "q + 1" 0]
    unfolding r_def [symmetric] q_def [symmetric] by (simp add: n(1))
  show "(n + 1) div 12 = n div 12 \<and> (n + 1) mod 12 = n mod 12 + 1" if "n mod 12 \<noteq> 11"
    using that n int_div_pos_eq [of "n + 1" 12 q "r + 1"] int_mod_pos_eq [of "n + 1" 12 q "r + 1"]
    unfolding r_def [symmetric] q_def [symmetric] by auto
qed

lemma month_start_step:
  assumes "0 \<le> m" "m \<le> 10" "l = 0 \<or> l = 1"
  shows "month_start l m < month_start l (m + 1)"
proof -
  have "m = 0 \<or> m = 1 \<or> m = 2 \<or> m = 3 \<or> m = 4 \<or> m = 5 \<or> m = 6 \<or> m = 7 \<or> m = 8 \<or> m = 9 \<or> m = 10"
    using assms(1,2) by presburger
  then show ?thesis using assms(3) by (elim disjE) (simp_all add: month_start_def)
qed

lemma month_begin_next:
  "month_begin (n + 1) = (day_from_year (n div 12) + month_start (leap_day (n div 12)) (n mod 12 + 1)) * ms_per_day"
proof (cases "n mod 12 = 11")
  case True
  then show ?thesis by (simp add: month_begin_def next_month_parts(1) day_from_year_step month_start_def)
next
  case False
  then show ?thesis by (simp add: month_begin_def next_month_parts(2))
qed

lemma month_step: "month_begin n < month_begin (n + 1)"
proof -
  have "month_start (leap_day (n div 12)) (n mod 12) < month_start (leap_day (n div 12)) (n mod 12 + 1)"
  proof (cases "n mod 12 = 11")
    case True
    then show ?thesis using leap_day_01 [of "n div 12"] by (simp add: month_start_def)
  next
    case False
    have "n mod 12 < 12" by simp
    then have "n mod 12 \<le> 10" using False by linarith
    then show ?thesis using leap_day_01 by (intro month_start_step) simp_all
  qed
  then show ?thesis unfolding month_begin_next by (simp add: month_begin_def ms_per_day_def)
qed

lemma month_begin_mono: "n \<le> k \<Longrightarrow> month_begin n \<le> month_begin k"
proof (induction k rule: int_ge_induct)
  case base
  then show ?case by simp
next
  case (step k)
  then show ?case using month_step [of k] by linarith
qed

lemma month_contains: "month_begin (month_index t) \<le> t" "t < month_begin (month_index t + 1)"
proof -
  let ?d = "t div ms_per_day" and ?y = "utc_year t" and ?m = "utc_month t"
  have pos: "0 < ms_per_day" by (simp add: ms_per_day_def)
  have day: "?d * ms_per_day \<le> t" "t < (?d + 1) * ms_per_day"
    using div_bounds [OF pos, of t] by (simp_all add: algebra_simps)
  have l: "leap_day ?y = 0 \<or> leap_day ?y = 1" by (rule leap_day_01)
  note n = day_in_year_bounds [of t]
  have ms: "month_start (leap_day ?y) ?m \<le> day_in_year t" "day_in_year t < month_start (leap_day ?y) (?m + 1)"
    using l n by (auto simp: utc_month_def month_of_def month_start_def)
  have d: "?d = day_from_year ?y + day_in_year t" by (simp add: day_in_year_def)
  have b: "month_begin (month_index t) = (day_from_year ?y + month_start (leap_day ?y) ?m) * ms_per_day"
    by (simp add: month_begin_def month_index_parts)
  have "(day_from_year ?y + month_start (leap_day ?y) ?m) * ms_per_day \<le> ?d * ms_per_day"
    using ms(1) d pos by simp
  then show "month_begin (month_index t) \<le> t" using day b by linarith
  have e: "month_begin (month_index t + 1) = (day_from_year ?y + month_start (leap_day ?y) (?m + 1)) * ms_per_day"
    by (simp only: month_begin_next month_index_parts)
  have "(?d + 1) * ms_per_day \<le> (day_from_year ?y + month_start (leap_day ?y) (?m + 1)) * ms_per_day"
    using ms(2) d pos by simp
  then show "t < month_begin (month_index t + 1)" using day e by linarith
qed

lemma before_month: "t < month_begin n \<longleftrightarrow> month_index t < n"
proof
  assume "t < month_begin n"
  then show "month_index t < n" using month_contains(1) [of t] month_begin_mono [of n "month_index t"] by linarith
next
  assume "month_index t < n"
  then show "t < month_begin n" using month_contains(2) [of t] month_begin_mono [of "month_index t + 1" n] by linarith
qed

lemma month_index_begin: "month_index (month_begin n) = n"
  using before_month [of "month_begin n" n] before_month [of "month_begin n" "n + 1"] month_step [of n] by simp

subsection \<open>The texts\<close>

text \<open>The months of the years 100 to 9999, which four digits write and \<open>Date.UTC\<close> does not move to the 1900s.\<close>

definition plain_month :: "int \<Rightarrow> bool" where
  "plain_month n \<longleftrightarrow> 1200 \<le> n \<and> n \<le> 119999"

lemma plain_month_bounds:
  assumes "plain_month n"
  shows "100 \<le> n div 12" "n div 12 \<le> 9999" "0 \<le> n mod 12" "n mod 12 \<le> 11"
proof -
  show "100 \<le> n div 12" "n div 12 \<le> 9999"
    using assms zdiv_mono1 [of 1200 n 12] zdiv_mono1 [of n 119999 12] by (simp_all add: plain_month_def)
  show "0 \<le> n mod 12" by simp
  have "n mod 12 < 12" by simp
  then show "n mod 12 \<le> 11" by linarith
qed

lemma plain_month_index: "plain_month (month_index t) \<longleftrightarrow> 100 \<le> utc_year t \<and> utc_year t \<le> 9999"
  using utc_month_bounds [of t] by (auto simp: plain_month_def month_index_def)

lemma monthKey_index: "plain_month (month_index t) \<Longrightarrow> monthKey t = month_name (month_index t)"
  using utc_month_bounds [of t] by (simp add: plain_month_index monthKey_def month_name_def month_index_parts Let_def)

lemma length_month_name: "plain_month n \<Longrightarrow> length (month_name n) = 7"
  using plain_month_bounds [of n] by (simp add: month_name_def)

lemma monthOf_stored: "plain_month (month_index t) \<Longrightarrow> monthOf (isoformat t) = month_name (month_index t)"
  using utc_month_bounds [of t]
  by (simp add: plain_month_index monthOf_def isoformat_def month_name_def month_index_parts)

lemma month_name_less: "plain_month n \<Longrightarrow> plain_month k \<Longrightarrow> n < k \<Longrightarrow> month_name n < month_name k"
proof -
  assume n: "plain_month n" and k: "plain_month k" and less: "n < k"
  note b = plain_month_bounds [OF n] plain_month_bounds [OF k]
  have le: "n div 12 \<le> k div 12" using less by (simp add: zdiv_mono1)
  have last: "n mod 12 + 1 < k mod 12 + 1" if "n div 12 = k div 12"
    using less that mult_div_mod_eq [of 12 n] mult_div_mod_eq [of 12 k] by linarith
  show ?thesis unfolding month_name_def
  proof (rule pad_next)
    assume "n div 12 = k div 12"
    then have "pad (n mod 12 + 1) 2 < pad (k mod 12 + 1) 2" using last b by (intro pad_less) simp_all
    then show "''-'' @ pad (n mod 12 + 1) 2 < ''-'' @ pad (k mod 12 + 1) 2" by (rule literal_less)
  qed (use b le in simp_all)
qed

lemma month_name_eq_iff: "plain_month n \<Longrightarrow> plain_month k \<Longrightarrow> month_name n = month_name k \<longleftrightarrow> n = k"
  using month_name_less [of n k] month_name_less [of k n] by (cases n k rule: linorder_cases) auto

lemma month_name_le_iff: "plain_month n \<Longrightarrow> plain_month k \<Longrightarrow> month_name n \<le> month_name k \<longleftrightarrow> n \<le> k"
  using month_name_less [of n k] month_name_less [of k n] by (cases n k rule: linorder_cases) auto

lemma month_begin_range: "plain_month n \<Longrightarrow> \<bar>month_begin (n + 1)\<bar> \<le> 8640000000000000"
proof -
  assume n: "plain_month n"
  note b = plain_month_bounds [OF n]
  have s: "0 \<le> month_start l m" "month_start l m \<le> 366" if "l = 0 \<or> l = 1" for l m
    using that by (auto simp: month_start_def)
  define d where "d = day_from_year (n div 12) + month_start (leap_day (n div 12)) (n mod 12 + 1)"
  have sum: "\<bar>x + z\<bar> \<le> 10000000" if "400 * x \<le> 146097 * (y - 1970) + 593" "146097 * (y - 1970) - 607 \<le> 400 * x"
    "100 \<le> y" "y \<le> 9999" "0 \<le> z" "z \<le> 366" for x y z :: int
    by (rule abs_leI) (use that in \<open>simp_all add: algebra_simps\<close>)
  have "\<bar>d\<bar> \<le> 10000000"
    unfolding d_def by (rule sum [OF day_from_year_bounds b(1,2) s [OF leap_day_01] ])
  then show ?thesis unfolding month_begin_next d_def [symmetric] by (simp add: ms_per_day_def abs_mult)
qed

lemma no_dash: "list_all is_digit s \<Longrightarrow> CHR ''-'' \<notin> set s"
  by (auto simp: list_all_iff is_digit_def code_of_def)

lemma monthEnd_name: "plain_month n \<Longrightarrow> monthEnd (month_name n) = Some (month_begin (n + 1))"
proof -
  assume n: "plain_month n"
  note b = plain_month_bounds [OF n]
  have parts: "split_on CHR ''-'' (month_name n) = [pad (n div 12) 4, pad (n mod 12 + 1) 2]"
    using no_dash [OF digits_pad, of "n div 12" 4] no_dash [OF digits_pad, of "n mod 12 + 1" 2] b
    by (simp add: month_name_def split_on_append split_on_absent)
  have "date_utc (n div 12) (n mod 12 + 1) 1 0 0 0 0 = month_begin (n + 1)"
  proof (cases "n mod 12 = 11")
    case True
    then show ?thesis using b by (simp add: date_utc_def month_begin_def next_month_parts(1) Let_def)
  next
    case False
    then have "n mod 12 + 1 < 12" using b by linarith
    then show ?thesis using b False by (simp add: date_utc_def month_begin_def next_month_parts(2) Let_def)
  qed
  then show ?thesis using b month_begin_range [OF n]
    by (simp add: monthEnd_def parts month_number_def time_clip_def Let_def)
qed

lemma nextMonth_name: "plain_month n \<Longrightarrow> plain_month (n + 1) \<Longrightarrow> nextMonth (month_name n) = Inr (month_name (n + 1))"
  by (simp add: nextMonth_def monthEnd_name monthKey_index month_index_begin)

lemma extend_months_names:
  assumes "keys \<noteq> []" "last keys = month_name a" "a \<le> b" "plain_month a" "plain_month b"
  shows "extend_months k (month_name b) keys = Inr (keys @ map month_name [a + 1..min b (a + int k)])"
  using assms
proof (induction k arbitrary: keys a)
  case 0
  then show ?case by simp
next
  case (Suc k)
  show ?case
  proof (cases "a = b")
    case True
    then show ?thesis using Suc by simp
  next
    case False
    then have a: "plain_month (a + 1)" "a + 1 \<le> b" using Suc.prems by (simp_all add: plain_month_def)
    have "last keys \<noteq> month_name b" using Suc.prems False by (simp add: month_name_eq_iff)
    then have "extend_months (Suc k) (month_name b) keys = extend_months k (month_name b) (keys @ [month_name (a + 1)])"
      using Suc.prems a by (simp add: nextMonth_name)
    also have "\<dots> = Inr (keys @ month_name (a + 1) # map month_name [a + 1 + 1..min b (a + 1 + int k)])"
      using Suc.IH [of "keys @ [month_name (a + 1)]" "a + 1"] Suc.prems a by simp
    also have "month_name (a + 1) # map month_name [a + 1 + 1..min b (a + 1 + int k)] = map month_name [a + 1..min b (a + int (Suc k))]"
      using a upto_rec1 [of "a + 1" "min b (a + int (Suc k))"] by (simp add: ac_simps)
    finally show ?thesis .
  qed
qed

lemma monthsBetween_names:
  assumes "a \<le> b" "plain_month a" "plain_month b"
  shows "monthsBetween (month_name a) (month_name b) = Inr (map month_name [a..min b (a + 240)])"
proof (cases "a = b")
  case True
  then show ?thesis by (simp add: monthsBetween_def)
next
  case False
  then have "\<not> month_name b \<le> month_name a" using assms by (simp add: month_name_le_iff)
  then have "monthsBetween (month_name a) (month_name b) = Inr ([month_name a] @ map month_name [a + 1..min b (a + 240)])"
    using extend_months_names [of "[month_name a]" a b 240] assms by (simp add: monthsBetween_def)
  then show ?thesis using assms upto_rec1 [of a "min b (a + 240)"] by simp
qed

text \<open>C29: The line of the income page runs month by month. Between the months of two instants of the years 100 to 9999
  it lists every month once, in order, from the first, and never more than 241 of them; it ends at the month of
  the later instant exactly when no more than 240 months lie between, which is twenty years.\<close>

theorem months_run_without_gaps:
  assumes "s \<le> t" "100 \<le> utc_year s" "utc_year t \<le> 9999"
  shows "\<exists>months. monthsBetween (monthKey s) (monthKey t) = Inr months \<and>
    months = map month_name [month_index s..min (month_index t) (month_index s + 240)] \<and>
    hd months = monthKey s \<and> distinct months \<and> length months \<le> 241 \<and>
    (last months = monthKey t \<longleftrightarrow> month_index t \<le> month_index s + 240)"
proof -
  let ?a = "month_index s" and ?b = "month_index t"
  have ab: "?a \<le> ?b" using month_contains [of s] before_month [of s "?b + 1"] month_contains(2) [of t] assms(1) by linarith
  have y: "utc_year s \<le> utc_year t" unfolding utc_year_def
    by (rule year_of_day_mono) (use assms(1) in \<open>simp add: ms_per_day_def zdiv_mono1\<close>)
  have plain: "plain_month ?a" "plain_month ?b" using assms y by (simp_all add: plain_month_index)
  define top where "top = min ?b (?a + 240)"
  define months where "months = map month_name [?a..top]"
  have top: "?a \<le> top" "top \<le> ?b" "top \<le> ?a + 240" using ab by (simp_all add: top_def)
  have inside: "plain_month n" if "n \<in> {?a..top}" for n
    using that plain top by (auto simp: plain_month_def)
  have eq: "monthsBetween (monthKey s) (monthKey t) = Inr months"
    using monthsBetween_names [OF ab plain] plain by (simp add: monthKey_index months_def top_def)
  have "inj_on month_name {?a..top}" by (rule inj_onI) (use inside in \<open>simp add: month_name_eq_iff\<close>)
  then have dist: "distinct months" by (simp add: months_def distinct_map)
  have hd: "hd months = monthKey s" using top plain by (simp add: months_def monthKey_index upto_rec1)
  have "last months = month_name top" using top by (simp add: months_def upto_rec2)
  then have last: "last months = monthKey t \<longleftrightarrow> ?b \<le> ?a + 240"
    using plain inside [of top] top by (simp add: monthKey_index month_name_eq_iff top_def) linarith
  show ?thesis using eq dist hd last top by (intro exI [of _ months]) (simp add: months_def top_def)
qed

theorem months_run_without_gaps_witness:
  "\<exists>months. monthsBetween (monthKey 1767225600000) (monthKey 1790000000000) = Inr months \<and>
    months = map month_name [month_index 1767225600000..min (month_index 1790000000000) (month_index 1767225600000 + 240)] \<and>
    hd months = monthKey 1767225600000 \<and> distinct months \<and> length months \<le> 241 \<and>
    (last months = monthKey 1790000000000 \<longleftrightarrow> month_index 1790000000000 \<le> month_index 1767225600000 + 240)"
  by (rule months_run_without_gaps; code_simp)

end
