(* ===== verification/Income.thy ===== *)
theory Income imports Portal Pricing Months begin

text \<open>
  The income page (\<open>apps/admin-portal/src/lib/income.ts\<close>): what each row of the member log means for the monthly
  income, and the month by month series rebuilt from it. A log row is the bridge's \<open>event_row\<close>; dollars are exact
  rationals; \<open>Date.now()\<close> is the argument \<open>now\<close> and \<open>other\<close> is what \<open>Date.parse\<close> makes of texts in no form of
  ours (theory \<open>Portal\<close>). A month is its text (theory \<open>Months\<close>).
\<close>

subsection \<open>Events\<close>

datatype income_kind = Signup | Upgrade | Downgrade | Cancel | CancelScheduled | PaymentFailure | Outage

record income_event =
  ie_id :: string
  ie_at :: string
  ie_kind :: income_kind
  ie_email :: "string option"
  ie_tier :: "tier option"
  ie_fromTier :: "tier option"
  ie_delta :: rat
  ie_detail :: string

record income_month =
  im_month :: string
  im_income :: rat
  im_members :: nat
  im_signups :: rat
  im_upgrades :: rat
  im_downgrades :: rat
  im_churn :: rat
  im_outages :: nat
  im_paymentFailures :: nat

record tier_tally =
  tt_count :: nat
  tt_amount :: rat

record current_income =
  ci_total :: rat
  ci_paying :: nat
  ci_byTier :: "tier \<Rightarrow> tier_tally"
  ci_atRisk :: tier_tally
  ci_untiered :: nat

record paying_state =
  pst_paying :: bool
  pst_tier :: "tier option"
  pst_inferred :: bool

record portal_incident =
  pi_id :: int
  pi_target :: string
  pi_reason :: string
  pi_opened_at :: string
  pi_closed_at :: "string option"

definition EMPTY_STATE :: paying_state where
  "EMPTY_STATE = \<lparr>pst_paying = False, pst_tier = None, pst_inferred = False\<rparr>"

definition tierPrice :: "tier \<Rightarrow> rat" where
  \<comment> \<open>no configured price reads as \<open>NaN\<close> (lemma \<open>price_amounts\<close>)\<close>
  "tierPrice t = (case amountOf (case List.find (\<lambda>c. st_id c = t) (config_tiers Map.empty Map.empty) of
       Some c \<Rightarrow> st_price c | None \<Rightarrow> ''$0'') of Some a \<Rightarrow> a | None \<Rightarrow> 0)"

definition priceOf :: "tier option \<Rightarrow> rat" where
  "priceOf t = (case t of None \<Rightarrow> 0 | Some t \<Rightarrow> tierPrice t)"

definition formatMoney :: "rat \<Rightarrow> string" where
  "formatMoney amount = (let magnitude = \<bar>amount\<bar>;
       figure = (if is_integer magnitude then show_int \<lfloor>magnitude\<rfloor> else fixed_text magnitude 2)
     in (if amount < 0 then ''-'' else []) @ ''$'' @ figure)"

subsection \<open>Today's income\<close>

definition isExpired :: "(string \<Rightarrow> int option) \<Rightarrow> int \<Rightarrow> member \<Rightarrow> bool" where
  "isExpired other now m = (case Option.bind (nonempty (mem_expires m)) (Date_parse other) of Some t \<Rightarrow> t < now | None \<Rightarrow> False)"

definition isPaying :: "(string \<Rightarrow> int option) \<Rightarrow> int \<Rightarrow> member \<Rightarrow> bool" where
  "isPaying other now m \<longleftrightarrow> mem_subscribed m \<and> mem_tag m \<noteq> Some Banned \<and> \<not> isExpired other now m"

type_synonym priced_member = "member \<times> tier \<times> rat"

definition tally :: "priced_member list \<Rightarrow> tier_tally" where
  "tally rows = \<lparr>tt_count = length rows, tt_amount = foldl (\<lambda>total (_, _, amount). total + amount) 0 rows\<rparr>"

definition priced :: "member list \<Rightarrow> priced_member list" where
  "priced paying = somes (map (\<lambda>m. map_option (\<lambda>t. (m, t, tierPrice t)) (mem_tier m)) paying)"

definition currentIncome :: "(string \<Rightarrow> int option) \<Rightarrow> member list \<Rightarrow> int \<Rightarrow> current_income" where
  "currentIncome other members now = (let paying = filter (isPaying other now) members; rows = priced paying; whole = tally rows in
     \<lparr>ci_total = tt_amount whole, ci_paying = tt_count whole,
      ci_byTier = (\<lambda>t. tally (filter (\<lambda>(_, u, _). u = t) rows)),
      ci_atRisk = tally (filter (\<lambda>(m, _, _). mem_payment_state m = Some PastDue) rows),
      ci_untiered = length paying - length rows\<rparr>)"

subsection \<open>Reading the log\<close>

definition is_word :: "char \<Rightarrow> bool" where
  "is_word c \<longleftrightarrow> is_digit c \<or> (97 \<le> code_of (lower_char c) \<and> code_of (lower_char c) \<le> 122) \<or> c = CHR ''_''"

definition TIER_WORDS :: "string list" where
  "TIER_WORDS = [''bronze'', ''silver'', ''gold'', ''youth'', ''kids'']"

text \<open>The leftmost tier word that stands alone; the first argument says whether a word character comes before.\<close>

fun tier_word :: "bool \<Rightarrow> string \<Rightarrow> string option" where
  "tier_word after_word [] = None"
| "tier_word after_word (c # s) =
     (case (if after_word then None
            else List.find (\<lambda>w. starts_with w (toLowerCase (c # s)) \<and>
              (drop (length w) (c # s) = [] \<or> \<not> is_word (hd (drop (length w) (c # s))))) TIER_WORDS) of
        Some w \<Rightarrow> Some w
      | None \<Rightarrow> tier_word (is_word c) s)"

definition tierFromDetail :: "string \<Rightarrow> tier option" where
  "tierFromDetail detail = (case tier_word False detail of None \<Rightarrow> None
     | Some w \<Rightarrow> if w = ''kids'' then Some Youth else paid_tier w)"

definition DURATION_UNITS :: "(int \<times> string) list" where
  "DURATION_UNITS = [(86400000, ''day''), (3600000, ''hour''), (60000, ''minute'')]"

definition describeDuration :: "int \<Rightarrow> string" where
  "describeDuration ms = (let parts = snd (foldl (\<lambda>(rest, words) (unit, name).
         let count = rest div unit in
         if count > 0 then (rest - count * unit, words @ [show_int count @ '' '' @ name @ (if count = 1 then [] else ''s'')])
         else (rest, words)) (ms, []) DURATION_UNITS)
     in if parts = [] then ''under a minute'' else joined '' '' (take 2 parts))"

definition outageEvent :: "(string \<Rightarrow> int option) \<Rightarrow> portal_incident \<Rightarrow> income_event" where
  "outageEvent other incident = (let opened = Date_parse other (pi_opened_at incident);
       closed_ms = Option.bind (pi_closed_at incident) (Date_parse other);
       span = (case (closed_ms, opened) of (Some c, Some p) \<Rightarrow> ''down for '' @ describeDuration (c - p) | _ \<Rightarrow> ''still down'')
     in \<lparr>ie_id = ''outage-'' @ show_int (pi_id incident), ie_at = pi_opened_at incident, ie_kind = Outage, ie_email = None,
         ie_tier = None, ie_fromTier = None, ie_delta = 0, ie_detail = pi_target incident @ '' '' @ span\<rparr>)"

definition memberEvent :: "event_row \<Rightarrow> income_kind \<Rightarrow> tier option \<Rightarrow> tier option \<Rightarrow> rat \<Rightarrow> income_event" where
  "memberEvent source kind t from_tier delta = \<lparr>ie_id = ''member-'' @ show_int (ev_id source), ie_at = ev_at source, ie_kind = kind,
     ie_email = Some (ev_email source), ie_tier = t, ie_fromTier = from_tier, ie_delta = delta, ie_detail = ev_detail source\<rparr>"

definition tierChange :: "event_row \<Rightarrow> tier \<Rightarrow> tier \<Rightarrow> income_event" where
  "tierChange source from_tier to_tier = (let delta = tierPrice to_tier - tierPrice from_tier in
     memberEvent source (if delta > 0 then Upgrade else Downgrade) (Some to_tier) (Some from_tier) delta)"

subsection \<open>One row of the log\<close>

text \<open>What one row means for its member, given where they stood: the new standing and the event to list.\<close>

definition sign_up :: "paying_state \<Rightarrow> event_row \<Rightarrow> paying_state \<times> income_event option" where
  \<comment> \<open>the cases \<open>Signed up\<close> and \<open>Access restored\<close>\<close>
  "sign_up state source = (let named = tierFromDetail (ev_detail source);
       t = (case named of Some n \<Rightarrow> Some n | None \<Rightarrow> pst_tier state);
       known = pst_paying state \<and> \<not> pst_inferred state;
       paying = \<lparr>pst_paying = True, pst_tier = t, pst_inferred = False\<rparr>
     in case (known, pst_tier state, named) of
       (True, Some old, Some new) \<Rightarrow>
         if new \<noteq> old then (paying, Some (tierChange source old new))
         else (paying, if ev_action source = ''Access restored'' then Some (memberEvent source Signup t None 0) else None)
     | (True, _, _) \<Rightarrow> (paying, if ev_action source = ''Access restored'' then Some (memberEvent source Signup t None 0) else None)
     | (False, _, _) \<Rightarrow> (paying, Some (memberEvent source Signup t None (priceOf t))))"

definition change_tier :: "paying_state \<Rightarrow> event_row \<Rightarrow> paying_state \<times> income_event option" where
  \<comment> \<open>the cases \<open>Tier reset\<close> and \<open>Invite issued\<close>\<close>
  "change_tier state source = (case tierFromDetail (ev_detail source) of
     None \<Rightarrow> (state, None)
   | Some named \<Rightarrow> (state\<lparr>pst_tier := Some named\<rparr>,
       case pst_tier state of
         Some old \<Rightarrow> if pst_paying state \<and> named \<noteq> old then Some (tierChange source old named) else None
       | None \<Rightarrow> None))"

definition stop_paying :: "paying_state \<Rightarrow> event_row \<Rightarrow> paying_state \<times> income_event option" where
  \<comment> \<open>the cases \<open>Canceled\<close> and \<open>Banned\<close>\<close>
  "stop_paying state source = (if \<not> pst_paying state then (state, None)
     else (\<lparr>pst_paying = False, pst_tier = pst_tier state, pst_inferred = False\<rparr>,
       Some (memberEvent source Cancel (pst_tier state) None (- priceOf (pst_tier state)))))"

definition stepMember :: "paying_state \<Rightarrow> event_row \<Rightarrow> paying_state \<times> income_event option" where
  "stepMember state source =
     (if ev_action source \<in> {''Signed up'', ''Access restored''} then sign_up state source
      else if ev_action source \<in> {''Tier reset'', ''Invite issued''} then change_tier state source
      else if ev_action source \<in> {''Canceled'', ''Banned''} then stop_paying state source
      else if ev_action source = ''Cancellation scheduled'' then (state, Some (memberEvent source CancelScheduled (pst_tier state) None 0))
      else if ev_action source = ''Payment failed'' then (state, Some (memberEvent source PaymentFailure (pst_tier state) None 0))
      else if ev_action source = ''Payment received'' then
        (if pst_paying state then state else state\<lparr>pst_paying := True, pst_inferred := True\<rparr>, None)
      else (state, None))"

subsection \<open>The whole log\<close>

definition byTime :: "(string \<Rightarrow> int option) \<Rightarrow> string \<Rightarrow> string \<Rightarrow> int" where
  \<comment> \<open>of two timestamps; \<open>NaN\<close> counts as zero\<close>
  "byTime other a b = (case (Date_parse other a, Date_parse other b) of (Some s, Some t) \<Rightarrow> s - t | _ \<Rightarrow> 0)"

definition log_order :: "(string \<Rightarrow> int option) \<Rightarrow> event_row \<Rightarrow> event_row \<Rightarrow> int" where
  "log_order other a b = (let d = byTime other (ev_at a) (ev_at b) in if d \<noteq> 0 then d else ev_id a - ev_id b)"

definition state_at :: "string \<Rightarrow> (string \<times> paying_state) list \<Rightarrow> paying_state" where
  "state_at key states = (case map_of states key of Some st \<Rightarrow> st | None \<Rightarrow> EMPTY_STATE)"

definition walk_row ::
  "(string \<times> paying_state) list \<times> income_event list \<Rightarrow> event_row \<Rightarrow> (string \<times> paying_state) list \<times> income_event list" where
  "walk_row walked source = (case walked of (states, out) \<Rightarrow>
     let key = toLowerCase (ev_email source); (state, event) = stepMember (state_at key states) source
     in (map_put key state states, case event of None \<Rightarrow> out | Some e \<Rightarrow> out @ [e]))"

definition toIncomeEvents :: "(string \<Rightarrow> int option) \<Rightarrow> event_row list \<Rightarrow> portal_incident list \<Rightarrow> income_event list" where
  "toIncomeEvents other events outages =
     (let walked = foldl walk_row ([], []) (js_sort (log_order other) events)
      in js_sort (\<lambda>a b. byTime other (ie_at b) (ie_at a)) (snd walked @ map (outageEvent other) outages))"

definition replay :: "(string \<times> paying_state) list \<Rightarrow> income_event \<Rightarrow> (string \<times> paying_state) list" where
  "replay states event = (let key = toLowerCase (text_or_empty (ie_email event)); state = state_at key states in
     map_put key (case ie_kind event of
         Signup \<Rightarrow> \<lparr>pst_paying = True, pst_tier = (case ie_tier event of Some t \<Rightarrow> Some t | None \<Rightarrow> pst_tier state), pst_inferred = False\<rparr>
       | Upgrade \<Rightarrow> \<lparr>pst_paying = True, pst_tier = ie_tier event, pst_inferred = False\<rparr>
       | Downgrade \<Rightarrow> \<lparr>pst_paying = True, pst_tier = ie_tier event, pst_inferred = False\<rparr>
       | Cancel \<Rightarrow> \<lparr>pst_paying = False, pst_tier = pst_tier state, pst_inferred = False\<rparr>
       | _ \<Rightarrow> state) states)"

definition is_before :: "int option \<Rightarrow> int option \<Rightarrow> bool" where
  \<comment> \<open>\<open><\<close>, which \<open>NaN\<close> never satisfies\<close>
  "is_before s t = (case (s, t) of (Some a, Some b) \<Rightarrow> a < b | _ \<Rightarrow> False)"

definition statesBefore :: "(string \<Rightarrow> int option) \<Rightarrow> income_event list \<Rightarrow> int option \<Rightarrow> (string \<times> paying_state) list" where
  "statesBefore other events boundary = foldl replay []
     (js_sort (\<lambda>a b. byTime other (ie_at a) (ie_at b))
       (filter (\<lambda>e. ie_email e \<noteq> None \<and> is_before (Date_parse other (ie_at e)) boundary) events))"

subsection \<open>The series\<close>

definition sumWhere :: "income_event list \<Rightarrow> income_kind \<Rightarrow> (income_event \<Rightarrow> rat) \<Rightarrow> rat" where
  "sumWhere events kind pick = foldl (\<lambda>total e. total + pick e) 0 (filter (\<lambda>e. ie_kind e = kind) events)"

record unlogged_member =
  ul_key :: string
  ul_tier :: tier
  ul_since :: "int option"

definition unlogged_members :: "(string \<Rightarrow> int option) \<Rightarrow> member list \<Rightarrow> income_event list \<Rightarrow> int \<Rightarrow> unlogged_member list" where
  "unlogged_members other members events now =
     (let loggedSignups = map (\<lambda>e. toLowerCase (text_or_empty (ie_email e))) (filter (\<lambda>e. ie_kind e = Signup) events) in
      somes (map (\<lambda>m. case mem_tier m of
          Some t \<Rightarrow> if isPaying other now m \<and> toLowerCase (mem_email m) \<notin> set loggedSignups
            then Some \<lparr>ul_key = toLowerCase (mem_email m), ul_tier = t,
              ul_since = Option.bind (mem_invited_at m) (Date_parse other)\<rparr> else None
        | None \<Rightarrow> None) members))"

definition current_tiers :: "member list \<Rightarrow> (string \<times> tier) list" where
  "current_tiers members = js_map (somes (map (\<lambda>m. map_option (\<lambda>t. (toLowerCase (mem_email m), t)) (mem_tier m)) members))"

definition first_month :: "string \<Rightarrow> income_event list \<Rightarrow> unlogged_member list \<Rightarrow> string" where
  "first_month thisMonth events unlogged = foldl (\<lambda>earliest month. if month < earliest then month else earliest) thisMonth
     (map (\<lambda>e. monthOf (ie_at e)) events @ map monthKey (somes (map ul_since unlogged)))"

definition month_row :: "(string \<Rightarrow> int option) \<Rightarrow> member list \<Rightarrow> income_event list \<Rightarrow> int \<Rightarrow> string \<Rightarrow> income_month" where
  \<comment> \<open>the row \<open>monthlySeries\<close> builds for one month\<close>
  "month_row other members events now month =
     (let thisMonth = monthKey now; current = currentIncome other members now;
          unlogged = unlogged_members other members events now;
          boundary = (if month = thisMonth then Some now else monthEnd month);
          inMonth = filter (\<lambda>e. monthOf (ie_at e) = month) events;
          states = statesBefore other events boundary;
          logged = map (\<lambda>(key, st). priceOf (case pst_tier st of Some t \<Rightarrow> Some t | None \<Rightarrow> map_of (current_tiers members) key))
            (filter (\<lambda>(_, st). pst_paying st) states);
          early = map (\<lambda>u. tierPrice (ul_tier u))
            (filter (\<lambda>u. ul_since u = None \<or> is_before (ul_since u) boundary)
              (filter (\<lambda>u. map_of states (ul_key u) = None) unlogged))
      in \<lparr>im_month = month,
          im_income = (if month = thisMonth then ci_total current else foldl (+) 0 (logged @ early)),
          im_members = (if month = thisMonth then ci_paying current else length logged + length early),
          im_signups = sumWhere inMonth Signup ie_delta, im_upgrades = sumWhere inMonth Upgrade ie_delta,
          im_downgrades = sumWhere inMonth Downgrade (\<lambda>e. - ie_delta e), im_churn = sumWhere inMonth Cancel (\<lambda>e. - ie_delta e),
          im_outages = length (filter (\<lambda>e. ie_kind e = Outage) inMonth),
          im_paymentFailures = length (filter (\<lambda>e. ie_kind e = PaymentFailure) inMonth)\<rparr>)"

definition monthlySeries :: "(string \<Rightarrow> int option) \<Rightarrow> member list \<Rightarrow> income_event list \<Rightarrow> int \<Rightarrow> exn + income_month list" where
  "monthlySeries other members events now =
     (case monthsBetween (first_month (monthKey now) events (unlogged_members other members events now)) (monthKey now) of
        Inl e \<Rightarrow> Inl e
      | Inr months \<Rightarrow> Inr (map (month_row other members events now) months))"

subsection \<open>What the log says\<close>

text \<open>What the rows of one member tell, without their amounts: whether they last joined or left, and whether a tier
  was ever named.\<close>

definition joins :: "event_row \<Rightarrow> bool" where
  "joins r \<longleftrightarrow> ev_action r \<in> {''Signed up'', ''Access restored''}"

definition leaves :: "event_row \<Rightarrow> bool" where
  "leaves r \<longleftrightarrow> ev_action r \<in> {''Canceled'', ''Banned''}"

definition tiers_row :: "event_row \<Rightarrow> bool" where
  "tiers_row r \<longleftrightarrow> (joins r \<or> ev_action r \<in> {''Tier reset'', ''Invite issued''}) \<and> tierFromDetail (ev_detail r) \<noteq> None"

definition told :: "bool \<times> bool \<Rightarrow> event_row \<Rightarrow> bool \<times> bool" where
  "told f r = ((if joins r then True else if leaves r then False else fst f), snd f \<or> tiers_row r)"

text \<open>A row is explained when the log holds what it builds on: a signup knows its tier, and a payment comes from
  somebody who joined.\<close>

definition explained :: "bool \<times> bool \<Rightarrow> event_row \<Rightarrow> bool" where
  "explained f r = ((joins r \<longrightarrow> snd f \<or> tiers_row r) \<and> (ev_action r = ''Payment received'' \<longrightarrow> fst f))"

fun complete_from :: "bool \<times> bool \<Rightarrow> event_row list \<Rightarrow> bool" where
  "complete_from f [] = True"
| "complete_from f (r # rs) = (explained f r \<and> complete_from (told f r) rs)"

abbreviation key_of :: "event_row \<Rightarrow> string" where
  "key_of r \<equiv> toLowerCase (ev_email r)"

abbreviation rows_of :: "string \<Rightarrow> event_row list \<Rightarrow> event_row list" where
  "rows_of key \<equiv> filter (\<lambda>r. key_of r = key)"

definition complete_log :: "event_row list \<Rightarrow> bool" where
  "complete_log rows = list_all (\<lambda>key. complete_from (False, False) (rows_of key rows)) (map key_of rows)"

lemma complete_from_snoc: "complete_from f (rs @ [r]) \<longleftrightarrow> complete_from f rs \<and> explained (foldl told f rs) r"
  by (induction rs arbitrary: f) auto

lemma complete_log_key: "complete_log rows \<Longrightarrow> complete_from (False, False) (rows_of key rows)"
proof -
  assume c: "complete_log rows"
  show ?thesis
  proof (cases "key \<in> key_of ` set rows")
    case True
    then show ?thesis using c by (auto simp: complete_log_def list_all_iff)
  next
    case False
    then have "rows_of key rows = []" by (auto simp: filter_empty_conv)
    then show ?thesis by simp
  qed
qed

lemma complete_log_snoc:
  assumes "complete_log (rows @ [r])"
  shows "complete_log rows" "explained (foldl told (False, False) (rows_of (key_of r) rows)) r"
proof -
  have c: "complete_from (False, False) (rows_of key (rows @ [r]))" for key by (rule complete_log_key [OF assms])
  have "complete_from (False, False) (rows_of key rows)" for key
    using c [of key] by (cases "key_of r = key") (simp_all add: complete_from_snoc)
  then show "complete_log rows" by (simp add: complete_log_def list_all_iff)
  show "explained (foldl told (False, False) (rows_of (key_of r) rows)) r"
    using c [of "key_of r"] by (simp add: complete_from_snoc)
qed

text \<open>How a standing stands for what the rows told.\<close>

definition stands_for :: "paying_state \<Rightarrow> bool \<times> bool \<Rightarrow> bool" where
  "stands_for st f \<longleftrightarrow> pst_paying st = fst f \<and> (pst_tier st \<noteq> None) = snd f \<and> \<not> pst_inferred st \<and> (fst f \<longrightarrow> snd f)"

definition worth :: "paying_state \<Rightarrow> rat" where
  "worth st = (if pst_paying st then priceOf (pst_tier st) else 0)"

text \<open>The standing an event replays to.\<close>

definition replayed :: "paying_state \<Rightarrow> income_event \<Rightarrow> paying_state" where
  "replayed state event = (case ie_kind event of
         Signup \<Rightarrow> \<lparr>pst_paying = True, pst_tier = (case ie_tier event of Some t \<Rightarrow> Some t | None \<Rightarrow> pst_tier state), pst_inferred = False\<rparr>
       | Upgrade \<Rightarrow> \<lparr>pst_paying = True, pst_tier = ie_tier event, pst_inferred = False\<rparr>
       | Downgrade \<Rightarrow> \<lparr>pst_paying = True, pst_tier = ie_tier event, pst_inferred = False\<rparr>
       | Cancel \<Rightarrow> \<lparr>pst_paying = False, pst_tier = pst_tier state, pst_inferred = False\<rparr>
       | _ \<Rightarrow> state)"

lemma replay_eq: "replay states e = map_put (toLowerCase (text_or_empty (ie_email e)))
    (replayed (state_at (toLowerCase (text_or_empty (ie_email e))) states) e) states"
  by (simp add: replay_def replayed_def Let_def)

text \<open>Two standings the page treats alike.\<close>

definition agrees :: "paying_state \<Rightarrow> paying_state \<Rightarrow> bool" where
  "agrees rebuilt st \<longleftrightarrow> pst_paying rebuilt = pst_paying st \<and> (pst_paying st \<longrightarrow> pst_tier rebuilt = pst_tier st)"

lemma change_event [simp]: "ie_delta (tierChange r a b) = tierPrice b - tierPrice a"
  "ie_email (tierChange r a b) = Some (ev_email r)" "ie_at (tierChange r a b) = ev_at r"
  "replayed st (tierChange r a b) = \<lparr>pst_paying = True, pst_tier = Some b, pst_inferred = False\<rparr>"
  by (simp_all add: tierChange_def memberEvent_def replayed_def Let_def)

lemma member_event [simp]: "ie_delta (memberEvent r k t f d) = d" "ie_email (memberEvent r k t f d) = Some (ev_email r)"
  "ie_at (memberEvent r k t f d) = ev_at r" "ie_kind (memberEvent r k t f d) = k" "ie_tier (memberEvent r k t f d) = t"
  "replayed st (memberEvent r Signup t f d) =
     \<lparr>pst_paying = True, pst_tier = (case t of Some u \<Rightarrow> Some u | None \<Rightarrow> pst_tier st), pst_inferred = False\<rparr>"
  "replayed st (memberEvent r Cancel t f d) = \<lparr>pst_paying = False, pst_tier = pst_tier st, pst_inferred = False\<rparr>"
  by (simp_all add: memberEvent_def replayed_def)

lemma step_cases:
  obtains (join) "joins r" "stepMember st r = sign_up st r"
  | (tier) "\<not> joins r" "\<not> leaves r" "ev_action r \<in> {''Tier reset'', ''Invite issued''}" "stepMember st r = change_tier st r"
  | (leave) "leaves r" "\<not> joins r" "\<not> tiers_row r" "stepMember st r = stop_paying st r"
  | (pay) "ev_action r = ''Payment received''" "\<not> joins r" "\<not> leaves r" "\<not> tiers_row r"
      "stepMember st r = (if pst_paying st then st else st\<lparr>pst_paying := True, pst_inferred := True\<rparr>, None)"
  | (other) "\<not> joins r" "\<not> leaves r" "\<not> tiers_row r" "fst (stepMember st r) = st"
      "\<And>e. snd (stepMember st r) = Some e \<Longrightarrow> ie_delta e = 0 \<and> ie_kind e \<in> {CancelScheduled, PaymentFailure} \<and>
        ie_email e = Some (ev_email r) \<and> ie_at e = ev_at r"
proof -
  consider "joins r" | "ev_action r \<in> {''Tier reset'', ''Invite issued''}" | "leaves r" | "ev_action r = ''Payment received''"
    | "\<not> joins r" "\<not> leaves r" "ev_action r \<notin> {''Tier reset'', ''Invite issued'', ''Payment received''}"
    by blast
  then show thesis
  proof cases
    case 1
    then show ?thesis by (intro join) (auto simp: joins_def stepMember_def)
  next
    case 2
    then show ?thesis by (intro tier) (auto simp: joins_def leaves_def stepMember_def)
  next
    case 3
    then show ?thesis by (intro leave) (auto simp: joins_def leaves_def tiers_row_def stepMember_def)
  next
    case 4
    then show ?thesis by (intro pay) (auto simp: joins_def leaves_def tiers_row_def stepMember_def)
  next
    case 5
    then show ?thesis by (intro other) (auto simp: joins_def leaves_def tiers_row_def stepMember_def split: if_splits)
  qed
qed

text \<open>What one row does to its member, given that it is explained: the standing still stands for what the rows told,
  the listed amount is the change of what the member is worth, and replaying the listed event does the same.\<close>

definition steps_well :: "paying_state \<Rightarrow> bool \<times> bool \<Rightarrow> event_row \<Rightarrow> paying_state \<times> income_event option \<Rightarrow> bool" where
  "steps_well st f r res \<longleftrightarrow> stands_for (fst res) (told f r) \<and>
     worth (fst res) = worth st + (case snd res of None \<Rightarrow> 0 | Some e \<Rightarrow> ie_delta e) \<and>
     (\<forall>rebuilt. agrees rebuilt st \<longrightarrow> agrees (case snd res of None \<Rightarrow> rebuilt | Some e \<Rightarrow> replayed rebuilt e) (fst res)) \<and>
     (\<forall>e. snd res = Some e \<longrightarrow> ie_email e = Some (ev_email r) \<and> ie_at e = ev_at r)"

lemma sign_up_well:
  assumes "stands_for st f" "explained f r" "joins r"
  shows "steps_well st f r (sign_up st r)"
proof (cases "pst_paying st")
  case True
  then obtain old where old: "pst_tier st = Some old" "\<not> pst_inferred st" using assms(1) by (auto simp: stands_for_def)
  then show ?thesis using True assms
    by (cases "tierFromDetail (ev_detail r)")
      (auto simp: steps_well_def sign_up_def Let_def stands_for_def told_def worth_def agrees_def tiers_row_def priceOf_def)
next
  case False
  then show ?thesis using assms
    by (cases "tierFromDetail (ev_detail r)"; cases "pst_tier st")
      (auto simp: steps_well_def sign_up_def Let_def stands_for_def told_def worth_def agrees_def tiers_row_def
        explained_def)
qed

lemma change_tier_well:
  assumes "stands_for st f" "\<not> joins r" "\<not> leaves r" "ev_action r \<in> {''Tier reset'', ''Invite issued''}"
  shows "steps_well st f r (change_tier st r)"
proof (cases "tierFromDetail (ev_detail r)")
  case None
  then show ?thesis using assms by (simp add: steps_well_def change_tier_def stands_for_def told_def tiers_row_def)
next
  case (Some named)
  then show ?thesis using assms
    by (cases "pst_tier st")
      (auto simp: steps_well_def change_tier_def stands_for_def told_def tiers_row_def worth_def agrees_def priceOf_def)
qed

lemma stop_paying_well:
  assumes "stands_for st f" "leaves r" "\<not> joins r" "\<not> tiers_row r"
  shows "steps_well st f r (stop_paying st r)"
  using assms by (auto simp: steps_well_def stop_paying_def stands_for_def told_def worth_def agrees_def)

lemma step_well:
  assumes "stands_for st f" "explained f r"
  shows "steps_well st f r (stepMember st r)"
proof (cases st r rule: step_cases)
  case join
  then show ?thesis using sign_up_well assms by simp
next
  case tier
  then show ?thesis using change_tier_well assms by simp
next
  case leave
  then show ?thesis using stop_paying_well assms by simp
next
  case pay
  then show ?thesis using assms by (auto simp: steps_well_def stands_for_def told_def explained_def agrees_def)
next
  case other
  have "agrees (replayed rebuilt e) st = agrees rebuilt st" if "ie_kind e \<in> {CancelScheduled, PaymentFailure}" for rebuilt e
    using that by (auto simp: replayed_def)
  then show ?thesis using other assms
    by (cases "snd (stepMember st r)") (auto simp: steps_well_def stands_for_def told_def)
qed

lemma step_event_source: "snd (stepMember st r) = Some e \<Longrightarrow> ie_at e = ev_at r \<and> ie_email e = Some (ev_email r)"
  by (cases st r rule: step_cases)
    (auto simp: sign_up_def change_tier_def stop_paying_def Let_def split: option.splits if_splits bool.splits)

subsection \<open>Walking the whole log\<close>

abbreviation event_key :: "income_event \<Rightarrow> string" where
  "event_key e \<equiv> toLowerCase (text_or_empty (ie_email e))"

lemma state_at_put [simp]: "state_at k (map_put k' st states) = (if k = k' then st else state_at k states)"
  by (simp add: state_at_def)

lemma state_at_Nil [simp]: "state_at k [] = EMPTY_STATE"
  by (simp add: state_at_def)

lemma walk_row_eq: "walk_row (states, out) r =
    (map_put (key_of r) (fst (stepMember (state_at (key_of r) states) r)) states,
     case snd (stepMember (state_at (key_of r) states) r) of None \<Rightarrow> out | Some e \<Rightarrow> out @ [e])"
  by (simp add: walk_row_def Let_def split_beta)

lemma walk_from: "\<exists>new. snd (foldl walk_row (states, out) rows) = out @ new \<and>
    (\<forall>e\<in>set new. \<exists>r\<in>set rows. ie_at e = ev_at r \<and> ie_email e = Some (ev_email r))"
proof (induction rows arbitrary: states out)
  case Nil
  then show ?case by simp
next
  case (Cons r rows)
  define ev where "ev = snd (stepMember (state_at (key_of r) states) r)"
  define states' where "states' = map_put (key_of r) (fst (stepMember (state_at (key_of r) states) r)) states"
  have ev: "ie_at e = ev_at r \<and> ie_email e = Some (ev_email r)" if "ev = Some e" for e
    using that step_event_source unfolding ev_def by blast
  obtain new where new: "snd (foldl walk_row (states', case ev of None \<Rightarrow> out | Some e \<Rightarrow> out @ [e]) rows) =
      (case ev of None \<Rightarrow> out | Some e \<Rightarrow> out @ [e]) @ new"
    "\<forall>e\<in>set new. \<exists>r\<in>set rows. ie_at e = ev_at r \<and> ie_email e = Some (ev_email r)"
    using Cons.IH [of states' "case ev of None \<Rightarrow> out | Some e \<Rightarrow> out @ [e]"] by blast
  have "snd (foldl walk_row (states, out) (r # rows)) = out @ (case ev of None \<Rightarrow> [] | Some e \<Rightarrow> [e]) @ new"
    using new(1) by (simp add: walk_row_eq ev_def [symmetric] states'_def [symmetric] split: option.splits)
  moreover have "\<forall>e\<in>set ((case ev of None \<Rightarrow> [] | Some e \<Rightarrow> [e]) @ new). \<exists>r\<in>set (r # rows). ie_at e = ev_at r \<and> ie_email e = Some (ev_email r)"
    using new(2) ev by (auto split: option.splits)
  ultimately show ?case by blast
qed

text \<open>After a complete log: every standing stands for what its rows told, is worth the amounts listed for it, and
  is what the listed events replay to.\<close>

definition walked_well :: "event_row list \<Rightarrow> (string \<times> paying_state) list \<times> income_event list \<Rightarrow> bool" where
  "walked_well rows walked \<longleftrightarrow> (\<forall>key.
     stands_for (state_at key (fst walked)) (foldl told (False, False) (rows_of key rows)) \<and>
     worth (state_at key (fst walked)) = sum_list (map ie_delta (filter (\<lambda>e. event_key e = key) (snd walked))) \<and>
     agrees (state_at key (foldl replay [] (snd walked))) (state_at key (fst walked)))"

lemma walk_well: "complete_log rows \<Longrightarrow> walked_well rows (foldl walk_row ([], []) rows)"
proof (induction rows rule: rev_induct)
  case Nil
  then show ?case by (simp add: walked_well_def stands_for_def worth_def agrees_def EMPTY_STATE_def)
next
  case (snoc r rows)
  obtain states out where walked: "foldl walk_row ([], []) rows = (states, out)" by (cases "foldl walk_row ([], []) rows")
  have IH: "walked_well rows (states, out)" using snoc complete_log_snoc(1) walked by simp
  let ?k = "key_of r"
  obtain st ev where step: "stepMember (state_at ?k states) r = (st, ev)" by (cases "stepMember (state_at ?k states) r")
  have "steps_well (state_at ?k states) (foldl told (False, False) (rows_of ?k rows)) r (st, ev)"
    using step_well [OF _ complete_log_snoc(2) [OF snoc.prems], of "state_at ?k states"] IH
    by (simp add: walked_well_def step)
  then have well: "stands_for st (told (foldl told (False, False) (rows_of ?k rows)) r)"
    "worth st = worth (state_at ?k states) + (case ev of None \<Rightarrow> 0 | Some e \<Rightarrow> ie_delta e)"
    "\<And>rebuilt. agrees rebuilt (state_at ?k states) \<Longrightarrow> agrees (case ev of None \<Rightarrow> rebuilt | Some e \<Rightarrow> replayed rebuilt e) st"
    "\<And>e. ev = Some e \<Longrightarrow> event_key e = ?k"
    by (simp_all add: steps_well_def)
  have now: "foldl walk_row ([], []) (rows @ [r]) = (map_put ?k st states, case ev of None \<Rightarrow> out | Some e \<Rightarrow> out @ [e])"
    by (simp add: walked walk_row_eq step)
  show ?case
    unfolding now using IH well by (cases ev) (auto simp: walked_well_def replay_eq)
qed

subsection \<open>Rebuilding the standings of a moment\<close>

text \<open>Timestamps that read, and the instant they read as.\<close>

definition readable :: "(string \<Rightarrow> int option) \<Rightarrow> string \<Rightarrow> bool" where
  "readable other s \<longleftrightarrow> Date_parse other s \<noteq> None"

definition instant :: "(string \<Rightarrow> int option) \<Rightarrow> string \<Rightarrow> int" where
  "instant other s = (case Date_parse other s of Some t \<Rightarrow> t | None \<Rightarrow> 0)"

lemma readable_parse: "readable other s \<Longrightarrow> Date_parse other s = Some (instant other s)"
  by (auto simp: readable_def instant_def)

lemma sorted_split: "sorted (map f xs) \<Longrightarrow> xs = filter (\<lambda>x. f x < (b :: int)) xs @ filter (\<lambda>x. \<not> f x < b) xs"
proof (induction xs)
  case Nil
  then show ?case by simp
next
  case (Cons x xs)
  show ?case
  proof (cases "f x < b")
    case True
    then show ?thesis using Cons by simp
  next
    case False
    then have "\<forall>y\<in>set (x # xs). \<not> f y < b" using Cons.prems by auto
    then show ?thesis by (metis append_Nil filter_False filter_True)
  qed
qed

lemma walk_sorted: "sorted (map (\<lambda>r. T (ev_at r) :: int) rows) \<Longrightarrow>
    sorted (map (\<lambda>e. T (ie_at e)) (snd (foldl walk_row ([], []) rows)))"
proof (induction rows rule: rev_induct)
  case Nil
  then show ?case by simp
next
  case (snoc r rows)
  obtain states out where walked: "foldl walk_row ([], []) rows = (states, out)" by (cases "foldl walk_row ([], []) rows")
  have from_rows: "\<exists>r\<in>set rows. ie_at e = ev_at r" if "e \<in> set out" for e
    using walk_from [of "[]" "[]" rows] walked that by auto
  have IH: "sorted (map (\<lambda>e. T (ie_at e)) out)" using snoc walked by (simp add: sorted_append)
  show ?case
  proof (cases "snd (stepMember (state_at (key_of r) states) r)")
    case None
    then show ?thesis using IH by (simp add: walked walk_row_eq)
  next
    case (Some e)
    have "T (ie_at e') \<le> T (ie_at e)" if "e' \<in> set out" for e'
      using from_rows [OF that] step_event_source [OF Some] snoc.prems by (auto simp: sorted_append)
    then show ?thesis using IH Some by (simp add: walked walk_row_eq sorted_append)
  qed
qed

lemma sort_again: "sorted (map f xs) \<Longrightarrow> sort_key f (sort_key (\<lambda>x. - f x :: int) xs) = xs"
proof (rule properties_for_sort_key)
  fix k
  have "filter (\<lambda>x. - f k = - f x) (sort_key (\<lambda>x. - f x) xs) = filter (\<lambda>x. - f k = - f x) xs"
    using sort_key_stable [of "\<lambda>x. - f x" "- f k" xs] by (simp only: eq_commute)
  then show "filter (\<lambda>x. f k = f x) xs = filter (\<lambda>x. f k = f x) (sort_key (\<lambda>x. - f x) xs)" by simp
qed simp_all

lemma log_sorted:
  assumes "\<And>r. r \<in> set rows \<Longrightarrow> readable other (ev_at r)"
  shows "js_sort (log_order other) rows = sort_key (\<lambda>r. (instant other (ev_at r), ev_id r)) rows"
proof (rule js_sort_key)
  fix a b assume "a \<in> set rows" "b \<in> set rows"
  then have "byTime other (ev_at a) (ev_at b) = instant other (ev_at a) - instant other (ev_at b)"
    using assms by (simp add: byTime_def readable_parse)
  then show "log_order other a b \<le> 0 \<longleftrightarrow> (instant other (ev_at a), ev_id a) \<le> (instant other (ev_at b), ev_id b)"
    by (auto simp: log_order_def Let_def less_eq_prod_def)
qed

lemma log_sorted_by_time:
  assumes "\<And>r. r \<in> set rows \<Longrightarrow> readable other (ev_at r)"
  shows "sorted (map (\<lambda>r. instant other (ev_at r)) (js_sort (log_order other) rows))"
proof -
  have "sorted (map fst (map (\<lambda>r. (instant other (ev_at r), ev_id r)) (js_sort (log_order other) rows)))"
  proof -
    have "sorted ps \<Longrightarrow> sorted (map fst ps)" for ps :: "(int \<times> int) list"
      by (induction ps) (auto simp: less_eq_prod_def)
    moreover have "sorted (map (\<lambda>r. (instant other (ev_at r), ev_id r)) (sort_key (\<lambda>r. (instant other (ev_at r), ev_id r)) rows))"
      by (rule sorted_sort_key)
    moreover have "js_sort (log_order other) rows = sort_key (\<lambda>r. (instant other (ev_at r), ev_id r)) rows"
      by (rule log_sorted) (use assms in blast)
    ultimately show ?thesis by (simp only:)
  qed
  then show ?thesis by (simp add: o_def)
qed

text \<open>The rows before a moment, in the order the page walks them.\<close>

definition rows_before :: "(string \<Rightarrow> int option) \<Rightarrow> event_row list \<Rightarrow> int \<Rightarrow> event_row list" where
  "rows_before other rows b = filter (\<lambda>r. instant other (ev_at r) < b) (js_sort (log_order other) rows)"

lemma listed_before:
  assumes "\<And>r. r \<in> set rows \<Longrightarrow> readable other (ev_at r)" "\<And>i. i \<in> set outages \<Longrightarrow> readable other (pi_opened_at i)"
  shows "filter (\<lambda>e. ie_email e \<noteq> None \<and> instant other (ie_at e) < b)
      (snd (foldl walk_row ([], []) (js_sort (log_order other) rows)) @ map (outageEvent other) outages) =
    snd (foldl walk_row ([], []) (rows_before other rows b))"
proof -
  let ?rows = "js_sort (log_order other) rows"
  let ?late = "filter (\<lambda>r. \<not> instant other (ev_at r) < b) ?rows"
  have split: "?rows = rows_before other rows b @ ?late"
    unfolding rows_before_def by (rule sorted_split [OF log_sorted_by_time]) (use assms in blast)
  obtain states out where walked: "foldl walk_row ([], []) (rows_before other rows b) = (states, out)"
    by (cases "foldl walk_row ([], []) (rows_before other rows b)")
  obtain new where new: "snd (foldl walk_row (states, out) ?late) = out @ new"
    "\<forall>e\<in>set new. \<exists>r\<in>set ?late. ie_at e = ev_at r \<and> ie_email e = Some (ev_email r)"
    using walk_from by blast
  have old: "\<forall>e\<in>set out. \<exists>r\<in>set (rows_before other rows b). ie_at e = ev_at r \<and> ie_email e = Some (ev_email r)"
    using walk_from [of "[]" "[]" "rows_before other rows b"] walked by auto
  have "foldl walk_row ([], []) ?rows = foldl walk_row (states, out) ?late"
    by (subst split) (simp add: walked)
  then have all: "snd (foldl walk_row ([], []) ?rows) = out @ new" using new(1) by simp
  have "filter (\<lambda>e. ie_email e \<noteq> None \<and> instant other (ie_at e) < b) out = out"
    using old by (intro filter_True) (fastforce simp: rows_before_def)
  moreover have "filter (\<lambda>e. ie_email e \<noteq> None \<and> instant other (ie_at e) < b) new = []"
    using new(2) by (intro filter_False) fastforce
  moreover have "filter (\<lambda>e. ie_email e \<noteq> None \<and> instant other (ie_at e) < b) (map (outageEvent other) outages) = []"
    by (auto simp: filter_empty_conv outageEvent_def Let_def)
  ultimately show ?thesis by (simp add: all walked)
qed

lemma events_sorted:
  assumes "\<And>r. r \<in> set rows \<Longrightarrow> readable other (ev_at r)" "\<And>i. i \<in> set outages \<Longrightarrow> readable other (pi_opened_at i)"
  shows "toIncomeEvents other rows outages = sort_key (\<lambda>e. - instant other (ie_at e))
      (snd (foldl walk_row ([], []) (js_sort (log_order other) rows)) @ map (outageEvent other) outages)"
proof -
  let ?all = "snd (foldl walk_row ([], []) (js_sort (log_order other) rows)) @ map (outageEvent other) outages"
  have "readable other (ie_at e)" if "e \<in> set ?all" for e
    using that walk_from [of "[]" "[]" "js_sort (log_order other) rows"] assms
    by (force simp: outageEvent_def Let_def)
  then show ?thesis unfolding toIncomeEvents_def Let_def
    by (intro js_sort_key) (simp add: byTime_def readable_parse)
qed

text \<open>The standings rebuilt from the listed events are those the events of the rows before the moment replay to.\<close>

lemma rebuilt_states:
  assumes "\<And>r. r \<in> set rows \<Longrightarrow> readable other (ev_at r)" "\<And>i. i \<in> set outages \<Longrightarrow> readable other (pi_opened_at i)"
  shows "statesBefore other (toIncomeEvents other rows outages) (Some b) =
    foldl replay [] (snd (foldl walk_row ([], []) (rows_before other rows b)))"
proof -
  let ?rows = "js_sort (log_order other) rows"
  let ?all = "snd (foldl walk_row ([], []) ?rows) @ map (outageEvent other) outages"
  let ?out = "snd (foldl walk_row ([], []) (rows_before other rows b))"
  have readable: "readable other (ie_at e)" if "e \<in> set ?all" for e
    using that walk_from [of "[]" "[]" ?rows] assms by (force simp: outageEvent_def Let_def)
  have same: "filter (\<lambda>e. ie_email e \<noteq> None \<and> is_before (Date_parse other (ie_at e)) (Some b)) ?all =
      filter (\<lambda>e. ie_email e \<noteq> None \<and> instant other (ie_at e) < b) ?all"
    by (rule filter_cong) (use readable in \<open>auto simp: is_before_def readable_parse\<close>)
  have kept: "filter (\<lambda>e. ie_email e \<noteq> None \<and> is_before (Date_parse other (ie_at e)) (Some b)) (toIncomeEvents other rows outages) =
      sort_key (\<lambda>e. - instant other (ie_at e)) ?out"
    using assms by (simp only: events_sorted [of rows other outages] filter_sort same listed_before)
  have "sorted (map (\<lambda>r. instant other (ev_at r)) (rows_before other rows b))"
    unfolding rows_before_def by (intro sorted_filter log_sorted_by_time) (use assms in blast)
  then have sorted: "sorted (map (\<lambda>e. instant other (ie_at e)) ?out)" by (rule walk_sorted)
  have out_readable: "readable other (ie_at e)" if "e \<in> set ?out" for e
    using that walk_from [of "[]" "[]" "rows_before other rows b"] assms by (force simp: rows_before_def)
  have "js_sort (\<lambda>a b. byTime other (ie_at a) (ie_at b)) (sort_key (\<lambda>e. - instant other (ie_at e)) ?out) =
      sort_key (\<lambda>e. instant other (ie_at e)) (sort_key (\<lambda>e. - instant other (ie_at e)) ?out)"
    by (rule js_sort_key) (use out_readable in \<open>simp add: byTime_def readable_parse\<close>)
  also have "\<dots> = ?out" by (rule sort_again [OF sorted])
  finally show ?thesis by (simp only: statesBefore_def kept)
qed

lemma complete_log_before:
  assumes "complete_log (js_sort (log_order other) rows)" "\<And>r. r \<in> set rows \<Longrightarrow> readable other (ev_at r)"
  shows "complete_log (rows_before other rows b)"
proof -
  have "complete_log xs" if "complete_log (xs @ ys)" for xs ys
    using that by (induction ys rule: rev_induct) (auto simp: append_assoc [symmetric] simp del: append_assoc dest: complete_log_snoc(1))
  moreover have "js_sort (log_order other) rows = rows_before other rows b @
      filter (\<lambda>r. \<not> instant other (ev_at r) < b) (js_sort (log_order other) rows)"
    unfolding rows_before_def by (rule sorted_split [OF log_sorted_by_time]) (use assms(2) in blast)
  ultimately show ?thesis using assms(1) by metis
qed

text \<open>Where the log itself leaves a member before a moment.\<close>

definition standing_before :: "(string \<Rightarrow> int option) \<Rightarrow> event_row list \<Rightarrow> int \<Rightarrow> string \<Rightarrow> paying_state" where
  "standing_before other rows b key = state_at key (fst (foldl walk_row ([], []) (rows_before other rows b)))"

lemma sum_sorted: "sum_list (map g (sort_key f xs)) = (sum_list (map g xs) :: rat)"
  by (metis mset_map mset_sort sum_mset_sum_list)

text \<open>C26: The standings the income chart rebuilds are the log's. For a complete log, one where a signup knows its tier
  and a payment comes from somebody who joined, and any moment: a member is rebuilt as paying exactly when the
  log's walk left them paying, which is when their last joining or leaving before the moment was a joining, at
  the tier the walk left them on, which is known; and the amounts the page lists for them before it add up to
  the price of that tier while they pay and to nothing while they do not.\<close>

theorem rebuilt_standings_are_the_logs:
  assumes "complete_log (js_sort (log_order other) rows)"
    and "\<And>r. r \<in> set rows \<Longrightarrow> readable other (ev_at r)" and "\<And>i. i \<in> set outages \<Longrightarrow> readable other (pi_opened_at i)"
  shows "agrees (state_at key (statesBefore other (toIncomeEvents other rows outages) (Some b))) (standing_before other rows b key)
    \<and> pst_paying (standing_before other rows b key) = fst (foldl told (False, False) (rows_of key (rows_before other rows b)))
    \<and> (pst_paying (standing_before other rows b key) \<longrightarrow> pst_tier (standing_before other rows b key) \<noteq> None)
    \<and> worth (standing_before other rows b key) = sum_list (map ie_delta (filter (\<lambda>e. event_key e = key)
        (filter (\<lambda>e. ie_email e \<noteq> None \<and> instant other (ie_at e) < b) (toIncomeEvents other rows outages))))"
proof -
  have "walked_well (rows_before other rows b) (foldl walk_row ([], []) (rows_before other rows b))"
    by (rule walk_well [OF complete_log_before [OF assms(1,2)]])
  then show ?thesis
    using rebuilt_states [OF assms(2,3)] listed_before [OF assms(2,3)] events_sorted [OF assms(2,3)]
    by (simp add: walked_well_def standing_before_def stands_for_def filter_sort sum_sorted del: filter_filter)
qed

subsection \<open>The series\<close>

lemma sum_by_key:
  assumes "distinct ks" "\<And>x. x \<in> set xs \<Longrightarrow> f x \<in> set ks"
  shows "sum_list (map (\<lambda>k. sum_list (map g (filter (\<lambda>x. f x = k) xs))) ks) = (sum_list (map g xs) :: rat)"
  using assms(2)
proof (induction xs)
  case Nil
  then show ?case by simp
next
  case (Cons x xs)
  have one: "sum_list (map (\<lambda>k. if f x = k then g x else 0) ks) = g x"
    using Cons.prems assms(1) by (simp add: sum_list_distinct_conv_sum_set)
  have "sum_list (map (\<lambda>k. sum_list (map g (filter (\<lambda>y. f y = k) (x # xs)))) ks) =
      sum_list (map (\<lambda>k. (if f x = k then g x else 0) + sum_list (map g (filter (\<lambda>y. f y = k) xs))) ks)"
    by (rule arg_cong [of _ _ sum_list], rule map_cong) auto
  also have "\<dots> = g x + sum_list (map g xs)" using Cons by (simp add: sum_list_addf one)
  finally show ?case by simp
qed

lemma replay_keys: "distinct_keys (foldl replay [] es)" "fst ` set (foldl replay [] es) = event_key ` set es"
  by (induction es rule: rev_induct) (simp_all add: replay_eq keys_map_put)

text \<open>What the members rebuilt as paying come to is what the events replayed add up to.\<close>

lemma paying_worth:
  assumes "complete_log rows"
  defines "out \<equiv> snd (foldl walk_row ([], []) rows)"
  shows "sum_list (map (\<lambda>(key, st). priceOf (case pst_tier st of Some t \<Rightarrow> Some t | None \<Rightarrow> map_of tiers key))
      (filter (\<lambda>(_, st). pst_paying st) (foldl replay [] out))) = sum_list (map ie_delta out)"
proof -
  let ?S = "foldl replay [] out"
  let ?price = "\<lambda>(key, st). priceOf (case pst_tier st of Some t \<Rightarrow> Some t | None \<Rightarrow> map_of tiers key)"
  have well: "walked_well rows (foldl walk_row ([], []) rows)" by (rule walk_well [OF assms(1)])
  have one_worth: "(if pst_paying st then ?price (key, st) else 0) = sum_list (map ie_delta (filter (\<lambda>e. event_key e = key) out))"
    if "(key, st) \<in> set ?S" for key st
  proof -
    let ?w = "state_at key (fst (foldl walk_row ([], []) rows))"
    have "state_at key ?S = st" using that replay_keys(1) by (simp add: state_at_def map_of_iff [symmetric])
    then have "agrees st ?w" "pst_paying ?w \<longrightarrow> pst_tier ?w \<noteq> None"
      "worth ?w = sum_list (map ie_delta (filter (\<lambda>e. event_key e = key) out))"
      using well by (auto simp: walked_well_def stands_for_def out_def)
    then show ?thesis by (auto simp: agrees_def worth_def split: option.splits)
  qed
  have "sum_list (map ?price (filter (\<lambda>(_, st). pst_paying st) ?S)) =
      sum_list (map (\<lambda>x. if (case x of (_, st) \<Rightarrow> pst_paying st) then ?price x else 0) ?S)"
    by (rule sum_list_map_filter')
  also have "\<dots> = sum_list (map (\<lambda>(key, st). sum_list (map ie_delta (filter (\<lambda>e. event_key e = key) out))) ?S)"
  proof (rule arg_cong [of _ _ sum_list], rule map_cong [OF refl])
    fix x assume x: "x \<in> set ?S"
    obtain key st where "x = (key, st)" by (cases x)
    then show "(if (case x of (_, st) \<Rightarrow> pst_paying st) then ?price x else 0) =
        (case x of (key, st) \<Rightarrow> sum_list (map ie_delta (filter (\<lambda>e. event_key e = key) out)))"
      using one_worth [of key st] x by (cases "pst_paying st") simp_all
  qed
  also have "\<dots> = sum_list (map (\<lambda>key. sum_list (map ie_delta (filter (\<lambda>e. event_key e = key) out))) (map fst ?S))"
    by (simp add: o_def split_beta case_prod_unfold)
  also have "\<dots> = sum_list (map ie_delta out)"
    by (rule sum_by_key) (use replay_keys(1) [of out] in \<open>simp_all add: distinct_keys_def replay_keys(2)\<close>)
  finally show ?thesis .
qed

text \<open>Only the four kinds that move the income carry an amount.\<close>

definition moves :: "income_event \<Rightarrow> bool" where
  "moves e \<longleftrightarrow> ie_kind e \<in> {Signup, Upgrade, Downgrade, Cancel}"

lemma change_moves [simp]: "moves (tierChange r a b)"
  by (simp add: moves_def tierChange_def memberEvent_def Let_def)

lemma step_moves: "snd (stepMember st r) = Some e \<Longrightarrow> ie_delta e = 0 \<or> moves e"
proof (cases st r rule: step_cases)
  case join
  then show "snd (stepMember st r) = Some e \<Longrightarrow> ie_delta e = 0 \<or> moves e"
    by (auto simp: sign_up_def Let_def moves_def[of "memberEvent r k t f d" for k t f d] split: option.splits if_splits bool.splits)
next
  case tier
  then show "snd (stepMember st r) = Some e \<Longrightarrow> ie_delta e = 0 \<or> moves e"
    by (auto simp: change_tier_def split: option.splits if_splits)
next
  case leave
  then show "snd (stepMember st r) = Some e \<Longrightarrow> ie_delta e = 0 \<or> moves e"
    by (auto simp: stop_paying_def moves_def split: if_splits)
qed auto

lemma walked_moves: "e \<in> set (snd (foldl walk_row ([], []) rows)) \<Longrightarrow> ie_delta e = 0 \<or> moves e"
proof (induction rows rule: rev_induct)
  case Nil
  then show ?case by simp
next
  case (snoc r rows)
  obtain states out where walked: "foldl walk_row ([], []) rows = (states, out)" by (cases "foldl walk_row ([], []) rows")
  have "e \<in> set out \<or> snd (stepMember (state_at (key_of r) states) r) = Some e"
    using snoc.prems by (auto simp: walked walk_row_eq split: option.splits)
  then show ?case using snoc.IH step_moves walked by auto
qed

lemma foldl_sum: "foldl (\<lambda>total x. total + f x) c xs = c + (sum_list (map f xs) :: rat)"
  by (induction xs arbitrary: c) (simp_all add: ac_simps)

lemma foldl_plus: "foldl (+) c xs = c + (sum_list xs :: rat)"
  by (induction xs arbitrary: c) (simp_all add: ac_simps)

lemma sumWhere_eq: "sumWhere es kind pick = sum_list (map pick (filter (\<lambda>e. ie_kind e = kind) es))"
  unfolding sumWhere_def by (subst foldl_sum) simp

text \<open>A month's movements are the amounts listed in it.\<close>

lemma month_movements:
  assumes "\<And>e. e \<in> set es \<Longrightarrow> ie_delta e = 0 \<or> moves e"
  shows "sumWhere es Signup ie_delta + sumWhere es Upgrade ie_delta - sumWhere es Downgrade (\<lambda>e. - ie_delta e) -
    sumWhere es Cancel (\<lambda>e. - ie_delta e) = sum_list (map ie_delta es)"
  using assms
proof (induction es)
  case Nil
  then show ?case by (simp add: sumWhere_eq)
next
  case (Cons e es)
  then have "sumWhere es Signup ie_delta + sumWhere es Upgrade ie_delta - sumWhere es Downgrade (\<lambda>e. - ie_delta e) -
    sumWhere es Cancel (\<lambda>e. - ie_delta e) = sum_list (map ie_delta es)" "ie_delta e = 0 \<or> moves e" by auto
  then show ?case by (cases "ie_kind e") (auto simp: sumWhere_eq moves_def)
qed

text \<open>Timestamps in the form the bridge and the monitor write, of the years 100 to 9999.\<close>

definition stored_stamp :: "string \<Rightarrow> bool" where
  "stored_stamp s \<longleftrightarrow> (\<exists>t. s = isoformat t \<and> plain_month (month_index t))"

definition month_at :: "(string \<Rightarrow> int option) \<Rightarrow> string \<Rightarrow> int" where
  "month_at other s = month_index (instant other s)"

lemma stored_stamp_facts:
  assumes "stored_stamp s"
  shows "readable other s" "plain_month (month_at other s)" "monthOf s = month_name (month_at other s)"
proof -
  obtain t where t: "s = isoformat t" "plain_month (month_index t)" using assms by (auto simp: stored_stamp_def)
  have "Date_parse other s = Some t" using t by (simp add: plain_month_index)
  then show "readable other s" "plain_month (month_at other s)" "monthOf s = month_name (month_at other s)"
    using t monthOf_stored [of t] by (simp_all add: readable_def month_at_def instant_def)
qed

lemma first_of_months:
  assumes "plain_month b" "\<And>n. n \<in> set ns \<Longrightarrow> plain_month n"
  shows "\<exists>a. foldl (\<lambda>earliest month. if month < earliest then month else earliest) (month_name b) (map month_name ns) = month_name a \<and>
    plain_month a \<and> a \<le> b \<and> (\<forall>n\<in>set ns. a \<le> n)"
  using assms(2)
proof (induction ns rule: rev_induct)
  case Nil
  then show ?case using assms(1) by auto
next
  case (snoc n ns)
  then obtain a where a: "foldl (\<lambda>earliest month. if month < earliest then month else earliest) (month_name b) (map month_name ns) =
    month_name a" "plain_month a" "a \<le> b" "\<forall>n\<in>set ns. a \<le> n" by auto
  have n: "plain_month n" using snoc.prems by simp
  have "month_name n < month_name a \<longleftrightarrow> n < a"
    using n a(2) month_name_less [of n a] month_name_le_iff [of a n] by (auto simp: not_less [symmetric])
  then show ?case using a n by (intro exI [of _ "min a n"]) (auto simp: min_def)
qed

text \<open>What a rebuilt chart has to satisfy: each month before the current one ends on what the month before ended on and
  what moved in it, starting from nothing.\<close>

definition adds_up :: "string \<Rightarrow> income_month list \<Rightarrow> bool" where
  "adds_up thisMonth series = list_all (\<lambda>i. im_month (series ! i) = thisMonth \<or>
     im_income (series ! i) = (if i = 0 then 0 else im_income (series ! (i - 1))) + im_signups (series ! i) +
       im_upgrades (series ! i) - im_downgrades (series ! i) - im_churn (series ! i)) [0..<length series]"

lemma month_row_past:
  assumes "complete_log (js_sort (log_order other) rows)"
    and rows: "\<And>r. r \<in> set rows \<Longrightarrow> stored_stamp (ev_at r)" and outages: "\<And>i. i \<in> set outages \<Longrightarrow> stored_stamp (pi_opened_at i)"
    and none: "unlogged_members other members (toIncomeEvents other rows outages) now = []"
    and n: "plain_month n" "month_name n \<noteq> monthKey now"
  shows "im_income (month_row other members (toIncomeEvents other rows outages) now (month_name n)) =
    sum_list (map ie_delta (filter (\<lambda>e. month_at other (ie_at e) \<le> n) (toIncomeEvents other rows outages)))"
proof -
  let ?E = "toIncomeEvents other rows outages"
  let ?all = "snd (foldl walk_row ([], []) (js_sort (log_order other) rows)) @ map (outageEvent other) outages"
  let ?out = "snd (foldl walk_row ([], []) (rows_before other rows (month_begin (n + 1))))"
  note readable = stored_stamp_facts(1) [OF rows, of _ other] stored_stamp_facts(1) [OF outages, of _ other]
  have before: "instant other s < month_begin (n + 1) \<longleftrightarrow> month_at other s \<le> n" for s
    using before_month [of "instant other s" "n + 1"] by (auto simp: month_at_def)
  have complete: "complete_log (rows_before other rows (month_begin (n + 1)))"
    by (rule complete_log_before [OF assms(1) readable(1)])
  have "im_income (month_row other members ?E now (month_name n)) =
      sum_list (map (\<lambda>(key, st). priceOf (case pst_tier st of Some t \<Rightarrow> Some t | None \<Rightarrow> map_of (current_tiers members) key))
        (filter (\<lambda>(_, st). pst_paying st) (statesBefore other ?E (Some (month_begin (n + 1))))))"
    using none n by (simp add: month_row_def Let_def foldl_plus monthEnd_name)
  also have "\<dots> = sum_list (map ie_delta ?out)"
    by (simp only: rebuilt_states [OF readable] paying_worth [OF complete])
  also have "\<dots> = sum_list (map ie_delta (filter (\<lambda>e. ie_email e \<noteq> None \<and> instant other (ie_at e) < month_begin (n + 1)) ?all))"
    by (simp only: listed_before [OF readable])
  also have "\<dots> = sum_list (map ie_delta (filter (\<lambda>e. month_at other (ie_at e) \<le> n) ?all))"
  proof -
    have "ie_email e \<noteq> None \<or> ie_delta e = 0" if "e \<in> set ?all" for e
      using that walk_from [of "[]" "[]" "js_sort (log_order other) rows"] by (fastforce simp: outageEvent_def Let_def)
    note quiet = this
    have "(if ie_email e \<noteq> None \<and> month_at other (ie_at e) \<le> n then ie_delta e else 0) =
        (if month_at other (ie_at e) \<le> n then ie_delta e else 0)" if "e \<in> set ?all" for e
      using quiet [OF that] by auto
    then show ?thesis unfolding sum_list_map_filter' before
      by (intro arg_cong [of _ _ sum_list] map_cong refl)
  qed
  also have "\<dots> = sum_list (map ie_delta (filter (\<lambda>e. month_at other (ie_at e) \<le> n) ?E))"
    by (simp only: events_sorted [OF readable] filter_sort sum_sorted)
  finally show ?thesis .
qed

lemma listed_stored:
  assumes "\<And>r. r \<in> set rows \<Longrightarrow> stored_stamp (ev_at r)" "\<And>i. i \<in> set outages \<Longrightarrow> stored_stamp (pi_opened_at i)"
    "e \<in> set (toIncomeEvents other rows outages)"
  shows "stored_stamp (ie_at e)"
proof -
  have "e \<in> set (snd (foldl walk_row ([], []) (js_sort (log_order other) rows)) @ map (outageEvent other) outages)"
    using assms(3) by (simp add: toIncomeEvents_def Let_def)
  then show ?thesis
    using walk_from [of "[]" "[]" "js_sort (log_order other) rows"] assms(1,2) by (fastforce simp: outageEvent_def Let_def)
qed

lemma month_row_moves:
  fixes other :: "string \<Rightarrow> int option" and members :: "member list" and now n :: int
  assumes rows: "\<And>r. r \<in> set rows \<Longrightarrow> stored_stamp (ev_at r)" and outages: "\<And>i. i \<in> set outages \<Longrightarrow> stored_stamp (pi_opened_at i)"
    and n: "plain_month n"
  defines "row \<equiv> month_row other members (toIncomeEvents other rows outages) now (month_name n)"
  shows "im_signups row + im_upgrades row - im_downgrades row - im_churn row =
    sum_list (map ie_delta (filter (\<lambda>e. month_at other (ie_at e) = n) (toIncomeEvents other rows outages)))"
proof -
  let ?E = "toIncomeEvents other rows outages"
  let ?all = "snd (foldl walk_row ([], []) (js_sort (log_order other) rows)) @ map (outageEvent other) outages"
  note readable = stored_stamp_facts(1) [OF rows, of _ other] stored_stamp_facts(1) [OF outages, of _ other]
  have all: "set ?E = set ?all" using events_sorted [OF readable] by simp
  have stored: "stored_stamp (ie_at e)" if "e \<in> set ?E" for e
    by (rule listed_stored [OF _ _ that]) (use rows outages in blast)+
  have moving: "ie_delta e = 0 \<or> moves e" if "e \<in> set ?E" for e
    using that walked_moves unfolding all by (auto simp: outageEvent_def Let_def)
  have "filter (\<lambda>e. monthOf (ie_at e) = month_name n) ?E = filter (\<lambda>e. month_at other (ie_at e) = n) ?E"
  proof (rule filter_cong [OF refl])
    fix e assume "e \<in> set ?E"
    then have "stored_stamp (ie_at e)" by (rule stored)
    then show "monthOf (ie_at e) = month_name n \<longleftrightarrow> month_at other (ie_at e) = n"
      using stored_stamp_facts [of "ie_at e" other] n month_name_eq_iff by metis
  qed
  then show ?thesis using month_movements [of "filter (\<lambda>e. month_at other (ie_at e) = n) ?E"] moving
    by (simp add: row_def month_row_def Let_def)
qed

lemma month_sum_step:
  "sum_list (map ie_delta (filter (\<lambda>e. f e \<le> n) es)) =
     sum_list (map ie_delta (filter (\<lambda>e. f e \<le> n - 1) es)) + sum_list (map ie_delta (filter (\<lambda>e. f e = (n :: int)) es))"
  by (induction es) auto

text \<open>C25: The income chart adds up. For a complete log of timestamps the bridge and the monitor write, with everybody who
  pays today signed up in it, the series is always built, and in every month before the current one the income
  stands at the income of the month before plus that month's signups and upgrades less its downgrades and churn,
  the first month starting from nothing: the line of the chart and its bars tell the same story.\<close>

theorem income_chart_adds_up:
  assumes "complete_log (js_sort (log_order other) rows)"
    and "\<And>r. r \<in> set rows \<Longrightarrow> stored_stamp (ev_at r)" and "\<And>i. i \<in> set outages \<Longrightarrow> stored_stamp (pi_opened_at i)"
    and "100 \<le> utc_year now" and "utc_year now \<le> 9999"
    and "unlogged_members other members (toIncomeEvents other rows outages) now = []"
  shows "\<exists>series. monthlySeries other members (toIncomeEvents other rows outages) now = Inr series \<and>
    adds_up (monthKey now) series"
proof -
  let ?E = "toIncomeEvents other rows outages" and ?b = "month_index now"
  note readable = stored_stamp_facts(1) [OF assms(2), of _ other] stored_stamp_facts(1) [OF assms(3), of _ other]
  have b: "plain_month ?b" using assms(4,5) by (simp add: plain_month_index)
  have stored: "stored_stamp (ie_at e)" if "e \<in> set ?E" for e
    by (rule listed_stored [OF _ _ that]) (use assms(2,3) in blast)+
  have "map (\<lambda>e. monthOf (ie_at e)) ?E = map month_name (map (\<lambda>e. month_at other (ie_at e)) ?E)"
    using stored_stamp_facts(3) [OF stored] by simp
  moreover obtain a where "foldl (\<lambda>earliest month. if month < earliest then month else earliest) (month_name ?b)
      (map month_name (map (\<lambda>e. month_at other (ie_at e)) ?E)) = month_name a" "plain_month a" "a \<le> ?b"
      "\<forall>n\<in>set (map (\<lambda>e. month_at other (ie_at e)) ?E). a \<le> n"
    using first_of_months [OF b, of "map (\<lambda>e. month_at other (ie_at e)) ?E"] stored_stamp_facts(2) [OF stored]
    by (auto simp del: map_map)
  ultimately have a: "first_month (monthKey now) ?E [] = month_name a" "plain_month a" "a \<le> ?b"
    "\<forall>e\<in>set ?E. a \<le> month_at other (ie_at e)"
    by (simp_all add: first_month_def monthKey_index [OF b] del: map_map)
  define row where "row n = month_row other members ?E now (month_name n)" for n
  define months where "months = [a..min ?b (a + 240)]"
  have series: "monthlySeries other members ?E now = Inr (map row months)"
    using monthsBetween_names [OF a(3,2) b] a(1) assms(6)
    by (simp add: monthlySeries_def monthKey_index [OF b] months_def row_def o_def)
  have len: "int (length months) = min ?b (a + 240) - a + 1" using a(3) by (simp add: months_def)
  have nth: "months ! i = a + int i" if "i < length months" for i
    using that len unfolding months_def by (intro nth_upto) linarith
  have plain: "plain_month (a + int i)" if "i < length months" for i
    using that len a(2) b unfolding plain_month_def by linarith
  have income: "im_income (row n) = sum_list (map ie_delta (filter (\<lambda>e. month_at other (ie_at e) \<le> n) ?E))"
    if "plain_month n" "n \<noteq> ?b" for n
    using month_row_past [OF assms(1-3,6) that(1)] that b unfolding row_def
    by (simp add: monthKey_index month_name_eq_iff)
  have "im_month (row (a + int i)) = monthKey now \<or> im_income (row (a + int i)) =
      (if i = 0 then 0 else im_income (row (a + int (i - 1)))) + im_signups (row (a + int i)) + im_upgrades (row (a + int i)) -
      im_downgrades (row (a + int i)) - im_churn (row (a + int i))" if i: "i < length months" for i
  proof (cases "a + int i = ?b")
    case True
    then show ?thesis by (simp add: row_def month_row_def Let_def monthKey_index [OF b])
  next
    case False
    let ?n = "a + int i"
    have prior: "sum_list (map ie_delta (filter (\<lambda>e. month_at other (ie_at e) \<le> ?n - 1) ?E)) =
        (if i = 0 then 0 else im_income (row (a + int (i - 1))))"
    proof (cases i)
      case 0
      then have "filter (\<lambda>e. month_at other (ie_at e) \<le> ?n - 1) ?E = []" using a(4) by (force simp: filter_empty_conv)
      then show ?thesis by (simp only: 0 list.map sum_list.Nil if_True refl simp_thms)
    next
      case (Suc j)
      then show ?thesis using income [of "a + int j"] plain [of j] i len by simp
    qed
    have "im_signups (row ?n) + im_upgrades (row ?n) - im_downgrades (row ?n) - im_churn (row ?n) =
        sum_list (map ie_delta (filter (\<lambda>e. month_at other (ie_at e) = ?n) ?E))"
      unfolding row_def by (rule month_row_moves [OF _ _ plain [OF i]]) (use assms(2,3) in blast)+
    then show ?thesis
      using income [OF plain [OF i] False] month_sum_step [of "\<lambda>e. month_at other (ie_at e)" ?n ?E] prior
      by linarith
  qed
  note step = this
  have "adds_up (monthKey now) (map row months)" unfolding adds_up_def list_all_iff
  proof
    fix i assume "i \<in> set [0..<length (map row months)]"
    then have i: "i < length months" by simp
    then have "map row months ! i = row (a + int i)" "map row months ! (i - 1) = row (a + int (i - 1))"
      using nth [of "i - 1"] by (simp_all add: nth)
    then show "im_month (map row months ! i) = monthKey now \<or>
      im_income (map row months ! i) = (if i = 0 then 0 else im_income (map row months ! (i - 1))) +
        im_signups (map row months ! i) + im_upgrades (map row months ! i) - im_downgrades (map row months ! i) -
        im_churn (map row months ! i)"
      using step [OF i] by (simp only:)
  qed
  then show ?thesis using series by blast
qed

subsection \<open>One log\<close>

definition sample_log :: "event_row list" where
  "sample_log = [
     \<lparr>ev_id = 1, ev_at = isoformat 1767225600000, ev_email = ''ann@x.io'', ev_action = ''Signed up'', ev_detail = ''gold tier, invite emailed''\<rparr>,
     \<lparr>ev_id = 2, ev_at = isoformat 1772323200000, ev_email = ''Ann@x.io'', ev_action = ''Tier reset'', ev_detail = ''hard reset to silver''\<rparr>,
     \<lparr>ev_id = 3, ev_at = isoformat 1775001600000, ev_email = ''ann@x.io'', ev_action = ''Canceled'', ev_detail = ''subscription ended''\<rparr>]"

lemma sample_log_facts:
  "complete_log (js_sort (log_order Map.empty) sample_log)"
  "r \<in> set sample_log \<Longrightarrow> stored_stamp (ev_at r)"
proof -
  show "complete_log (js_sort (log_order Map.empty) sample_log)" by code_simp
  have "plain_month (month_index 1767225600000)" "plain_month (month_index 1772323200000)" "plain_month (month_index 1775001600000)"
    by code_simp+
  then show "r \<in> set sample_log \<Longrightarrow> stored_stamp (ev_at r)" by (auto simp: sample_log_def stored_stamp_def)
qed

theorem income_chart_adds_up_witness:
  "\<exists>series. monthlySeries Map.empty [] (toIncomeEvents Map.empty sample_log []) 1790000000000 = Inr series \<and>
    adds_up (monthKey 1790000000000) series"
proof (rule income_chart_adds_up)
  show "100 \<le> utc_year 1790000000000" "utc_year 1790000000000 \<le> 9999" by code_simp+
qed (simp_all add: sample_log_facts unlogged_members_def)

theorem rebuilt_standings_are_the_logs_witness:
  "pst_paying (standing_before Map.empty sample_log 1773000000000 ''ann@x.io'') =
    fst (foldl told (False, False) (rows_of ''ann@x.io'' (rows_before Map.empty sample_log 1773000000000)))"
  using rebuilt_standings_are_the_logs [OF sample_log_facts(1), of "[]" "''ann@x.io''" 1773000000000]
    stored_stamp_facts(1) [OF sample_log_facts(2), of _ Map.empty] by simp

text \<open>Churn counted twice. A banned member whose last invoice still goes through is logged as having paid, which the walk
  reads as a member from before the log; the end of their subscription is then listed as a second loss.\<close>

definition banned_payer_log :: "event_row list" where
  "banned_payer_log = [
     \<lparr>ev_id = 1, ev_at = ''2026-01-01T00:00:00+00:00'', ev_email = ''ann@x.io'', ev_action = ''Signed up'', ev_detail = ''gold tier, invite emailed''\<rparr>,
     \<lparr>ev_id = 2, ev_at = ''2026-01-02T00:00:00+00:00'', ev_email = ''ann@x.io'', ev_action = ''Banned'', ev_detail = ''''\<rparr>,
     \<lparr>ev_id = 3, ev_at = ''2026-01-03T00:00:00+00:00'', ev_email = ''ann@x.io'', ev_action = ''Payment received'', ev_detail = ''banned; access not extended''\<rparr>,
     \<lparr>ev_id = 4, ev_at = ''2026-01-04T00:00:00+00:00'', ev_email = ''ann@x.io'', ev_action = ''Canceled'', ev_detail = ''subscription ended''\<rparr>]"

lemma churn_counted_twice:
  "map ie_kind (snd (foldl walk_row ([], []) banned_payer_log)) = [Signup, Cancel, Cancel]"
  by code_simp

end
