(* ===== verification/Twins.thy ===== *)
theory Twins imports Portal begin

text \<open>
  Members who are probably one person under two addresses (\<open>apps/admin-portal/src/lib/duplicateMembers.ts\<close>) and
  the address helpers of \<open>apps/admin-portal/src/lib/emails.ts\<close>. Addresses are ASCII text.
\<close>

subsection \<open>Addresses\<close>

definition isEmailAddress :: "string \<Rightarrow> bool" where
  \<comment> \<open>\<open>/^[^@\s]+@[^@\s]+$/\<close>: one \<open>@\<close> with text on both sides and no white space\<close>
  "isEmailAddress value = (case split_on CHR ''@'' value of
     [a, b] \<Rightarrow> a \<noteq> [] \<and> b \<noteq> [] \<and> list_all (\<lambda>c. \<not> is_space c) (a @ b) | _ \<Rightarrow> False)"

definition index_of :: "'a \<Rightarrow> 'a list \<Rightarrow> nat" where
  \<comment> \<open>\<open>indexOf\<close> of an element of the list\<close>
  "index_of x xs = length (takeWhile (\<lambda>y. y \<noteq> x) xs)"

definition dedupeEmails :: "string list \<Rightarrow> string list" where
  "dedupeEmails emails = (let trimmed = filter (\<lambda>e. e \<noteq> []) (map trim emails); keys = map toLowerCase trimmed in
     map (nth trimmed) (filter (\<lambda>i. index_of (keys ! i) keys = i) [0..<length trimmed]))"

definition canonicalize :: "string \<Rightarrow> string" where
  "canonicalize email = (let lowered = toLowerCase (trim email); parts = split_on CHR ''@'' lowered;
       local = joined ''@'' (butlast parts); domain = last parts in
     if local = [] then lowered
     else filter (\<lambda>c. c \<noteq> CHR ''.'') (hd (split_on CHR ''+'' local)) @ ''@'' @ domain)"

subsection \<open>One edit apart\<close>

definition first_diff :: "string \<Rightarrow> string \<Rightarrow> nat" where
  \<comment> \<open>\<open>findIndex\<close> over the longer text, its length when there is none\<close>
  "first_diff shorter longer =
     length (takeWhile (\<lambda>i. i < length shorter \<and> shorter ! i = longer ! i) [0..<length longer])"

definition isOneEditApart :: "string \<Rightarrow> string \<Rightarrow> bool" where
  "isOneEditApart a b = (if a = b then False
     else let (shorter, longer) = (if length a \<le> length b then (a, b) else (b, a)) in
       if length longer - length shorter > 1 then False
       else let i = first_diff shorter longer in
         if i = length longer then length longer - length shorter = 1
         else if length shorter = length longer then drop (i + 1) shorter = drop (i + 1) longer
         else drop i shorter = drop (i + 1) longer)"

subsection \<open>The pairs\<close>

record twin_candidate =
  tc_email :: string
  tc_canonical :: string

definition twin_candidates :: "member list \<Rightarrow> twin_candidate list" where
  "twin_candidates members = map (\<lambda>m. \<lparr>tc_email = toLowerCase (mem_email m), tc_canonical = canonicalize (mem_email m)\<rparr>)
     (filter (\<lambda>m. mem_email m \<noteq> [] \<and> (mem_subscribed m \<or> mem_tag m = Some Vip)) members)"

definition look_alike :: "twin_candidate \<Rightarrow> twin_candidate \<Rightarrow> bool" where
  "look_alike c d \<longleftrightarrow> tc_canonical d = tc_canonical c \<or> isOneEditApart (tc_canonical d) (tc_canonical c)"

definition twin_matches :: "twin_candidate list \<Rightarrow> nat \<Rightarrow> string list" where
  "twin_matches cs index = map (\<lambda>i. tc_email (cs ! i))
     (filter (\<lambda>i. i \<noteq> index \<and> look_alike (cs ! index) (cs ! i)) [0..<length cs])"

definition findDuplicateTwins :: "member list \<Rightarrow> (string \<times> string list) list" where
  "findDuplicateTwins members = (let cs = twin_candidates members in
     foldl (\<lambda>twins index. let matches = twin_matches cs index in
       if matches \<noteq> [] then map_put (tc_email (cs ! index)) matches twins else twins) [] [0..<length cs])"

definition findDuplicateEmails :: "member list \<Rightarrow> string list" where
  "findDuplicateEmails members = map fst (findDuplicateTwins members)"

subsection \<open>What an edit is\<close>

text \<open>One substitution, insertion or deletion of a character.\<close>

definition substituted :: "string \<Rightarrow> string \<Rightarrow> bool" where
  "substituted a b \<longleftrightarrow> (\<exists>p s c d. c \<noteq> d \<and> a = p @ c # s \<and> b = p @ d # s)"

definition inserted :: "string \<Rightarrow> string \<Rightarrow> bool" where
  "inserted a b \<longleftrightarrow> (\<exists>p s c. a = p @ s \<and> b = p @ c # s)"

definition one_edit :: "string \<Rightarrow> string \<Rightarrow> bool" where
  "one_edit a b \<longleftrightarrow> substituted a b \<or> inserted a b \<or> inserted b a"

lemma substituted_sym: "substituted a b = substituted b a"
  unfolding substituted_def by metis

lemma edit_lengths: "substituted a b \<Longrightarrow> length a = length b" "inserted a b \<Longrightarrow> length b = length a + 1"
  by (auto simp: substituted_def inserted_def)

lemma substituted_irrefl: "\<not> substituted a a"
  by (auto simp: substituted_def)

lemma first_diff_facts:
  assumes "length s \<le> length l"
  shows "first_diff s l \<le> length l" "take (first_diff s l) s = take (first_diff s l) l" "first_diff s l \<le> length s"
    "first_diff s l < length l \<Longrightarrow> first_diff s l < length s \<Longrightarrow> s ! first_diff s l \<noteq> l ! first_diff s l"
proof -
  define P where "P i \<longleftrightarrow> i < length s \<and> s ! i = l ! i" for i
  have fd: "first_diff s l = length (takeWhile P [0..<length l])" unfolding first_diff_def P_def ..
  show le: "first_diff s l \<le> length l" unfolding fd by (metis length_takeWhile_le length_upt minus_nat.diff_0)
  have agree: "P i" if "i < first_diff s l" for i
  proof -
    have "takeWhile P [0..<length l] ! i = [0..<length l] ! i" using that unfolding fd by (rule takeWhile_nth)
    moreover have "P (takeWhile P [0..<length l] ! i)" using that unfolding fd by (metis nth_mem set_takeWhileD)
    ultimately show ?thesis using that le by simp
  qed
  show ls: "first_diff s l \<le> length s" using agree [of "length s"] by (auto simp: P_def intro: leI)
  show "take (first_diff s l) s = take (first_diff s l) l"
    by (rule nth_equalityI) (use le ls agree in \<open>auto simp: P_def\<close>)
  assume "first_diff s l < length l" "first_diff s l < length s"
  then show "s ! first_diff s l \<noteq> l ! first_diff s l"
    using nth_length_takeWhile [of P "[0..<length l]"] by (simp add: fd P_def)
qed

text \<open>The edit found at the first difference, for texts no longer than one apart.\<close>

lemma edit_at_first_diff:
  assumes "length s \<le> length l" "s \<noteq> l"
  shows "isOneEditApart s l \<longleftrightarrow> length l - length s \<le> 1 \<and>
    (if length s = length l then drop (first_diff s l + 1) s = drop (first_diff s l + 1) l
     else drop (first_diff s l) s = drop (first_diff s l + 1) l)"
proof -
  note f = first_diff_facts [OF assms(1)]
  have "first_diff s l \<noteq> length l"
  proof
    assume e: "first_diff s l = length l"
    then have "length s = length l" using f(3) assms(1) by simp
    then show False using f(2) e assms(2) by simp
  qed
  then show ?thesis using assms by (auto simp: isOneEditApart_def Let_def)
qed

lemma same_length_edit:
  assumes "length s = length l" "s \<noteq> l"
  shows "isOneEditApart s l \<longleftrightarrow> substituted s l"
proof -
  define i where "i = first_diff s l"
  note f = first_diff_facts [of s l, folded i_def]
  have i: "i < length s"
  proof (rule ccontr)
    assume "\<not> i < length s"
    then show False using f(2,3) assms by simp
  qed
  have code: "isOneEditApart s l \<longleftrightarrow> drop (i + 1) s = drop (i + 1) l"
    using edit_at_first_diff [of s l] assms unfolding i_def by simp
  show ?thesis
  proof
    assume "isOneEditApart s l"
    then have "l = take i s @ l ! i # drop (i + 1) s"
      using code f(2) i assms id_take_nth_drop [of i l] by simp
    moreover have "s = take i s @ s ! i # drop (i + 1) s" using id_take_nth_drop [OF i] by simp
    moreover have "s ! i \<noteq> l ! i" using f(4) i assms by simp
    ultimately show "substituted s l" unfolding substituted_def by metis
  next
    assume "substituted s l"
    then obtain p u c d where e: "c \<noteq> d" "s = p @ c # u" "l = p @ d # u" unfolding substituted_def by blast
    have "i \<ge> length p"
    proof (rule ccontr)
      assume "\<not> length p \<le> i"
      then show False using f(4) i assms e by (simp add: nth_append)
    qed
    then have "drop (i + 1) s = drop (i - length p) u" "drop (i + 1) l = drop (i - length p) u"
      by (simp_all add: e Suc_diff_le)
    then show "isOneEditApart s l" using code by simp
  qed
qed

lemma longer_edit:
  assumes "length l = length s + 1"
  shows "isOneEditApart s l \<longleftrightarrow> inserted s l"
proof -
  define i where "i = first_diff s l"
  note f = first_diff_facts [of s l, folded i_def]
  have i: "i < length l" using f(3) assms by simp
  have code: "isOneEditApart s l \<longleftrightarrow> drop i s = drop (i + 1) l"
    using edit_at_first_diff [of s l] assms unfolding i_def by (metis add_diff_cancel_left' le_add1 less_add_one less_irrefl order_refl)
  show ?thesis
  proof
    assume "isOneEditApart s l"
    then have "l = take i s @ l ! i # drop i s"
      using code f(2) i assms id_take_nth_drop [OF i] by simp
    then show "inserted s l" unfolding inserted_def using append_take_drop_id [of i s] by metis
  next
    assume "inserted s l"
    then obtain p u c where e: "s = p @ u" "l = p @ c # u" unfolding inserted_def by blast
    have "i \<ge> length p"
    proof (rule ccontr)
      assume "\<not> length p \<le> i"
      then show False using f(4) i e by (simp add: nth_append)
    qed
    then show "isOneEditApart s l" using code e by (simp add: Suc_diff_le)
  qed
qed

lemma isOneEditApart_sym: "isOneEditApart a b = isOneEditApart b a"
proof (cases "length a = length b")
  case True
  then show ?thesis
    using same_length_edit [of a b] same_length_edit [of b a] substituted_sym [of a b]
    by (cases "a = b") (simp_all add: isOneEditApart_def)
next
  case False
  then show ?thesis by (auto simp: isOneEditApart_def Let_def)
qed

lemma one_edit_iff: "isOneEditApart a b \<longleftrightarrow> one_edit a b"
proof -
  note lengths = edit_lengths [of a b] edit_lengths(2) [of b a]
  consider "a = b" | "a \<noteq> b" "length a = length b" | "length b = length a + 1" | "length a = length b + 1"
    | "length b - length a > 1 \<or> length a - length b > 1" by linarith
  then show ?thesis
  proof cases
    case 1
    then show ?thesis using substituted_irrefl lengths by (auto simp: one_edit_def isOneEditApart_def)
  next
    case 2
    then show ?thesis using same_length_edit [OF 2(2,1)] lengths unfolding one_edit_def by auto
  next
    case 3
    then show ?thesis using longer_edit [OF 3] lengths unfolding one_edit_def by auto
  next
    case 4
    then show ?thesis using longer_edit [OF 4] lengths isOneEditApart_sym [of a b] unfolding one_edit_def by auto
  next
    case 5
    then have "\<not> isOneEditApart a b" by (auto simp: isOneEditApart_def Let_def)
    then show ?thesis using 5 lengths unfolding one_edit_def by auto
  qed
qed


subsection \<open>Which pairs are flagged\<close>

lemma twins_table:
  assumes "distinct (map tc_email cs)" "n \<le> length cs"
  shows "map_of (foldl (\<lambda>twins i. let matches = twin_matches cs i in
      if matches \<noteq> [] then map_put (tc_email (cs ! i)) matches twins else twins) [] [0..<n]) e = Some ms \<longleftrightarrow>
    (\<exists>i<n. tc_email (cs ! i) = e \<and> twin_matches cs i = ms \<and> ms \<noteq> [])"
  using assms(2)
proof (induction n)
  case 0
  then show ?case by simp
next
  case (Suc n)
  have other: "tc_email (cs ! i) \<noteq> tc_email (cs ! n)" if "i < n" for i
    using assms(1) that Suc.prems nth_eq_iff_index_eq [of "map tc_email cs" i n] by simp
  have IH: "map_of (foldl (\<lambda>twins i. let matches = twin_matches cs i in
      if matches \<noteq> [] then map_put (tc_email (cs ! i)) matches twins else twins) [] [0..<n]) e = Some ms \<longleftrightarrow>
    (\<exists>i<n. tc_email (cs ! i) = e \<and> twin_matches cs i = ms \<and> ms \<noteq> [])"
    using Suc by simp
  show ?case
  proof (cases "tc_email (cs ! n) = e")
    case True
    then have "\<not> (\<exists>i<n. tc_email (cs ! i) = e \<and> twin_matches cs i = ms \<and> ms \<noteq> [])" using other by auto
    then show ?thesis using IH True by (auto simp: Let_def less_Suc_eq)
  next
    case False
    then show ?thesis using IH by (auto simp: Let_def less_Suc_eq)
  qed
qed

definition twins_of :: "member list \<Rightarrow> string \<Rightarrow> string list" where
  \<comment> \<open>what the page reads: the addresses listed for one, none when it is not flagged\<close>
  "twins_of members e = (case map_of (findDuplicateTwins members) e of Some ms \<Rightarrow> ms | None \<Rightarrow> [])"

lemma look_alike_sym: "look_alike c d = look_alike d c"
  using isOneEditApart_sym by (auto simp: look_alike_def)

lemma in_twins_of:
  assumes "distinct (map tc_email (twin_candidates members))"
  shows "f \<in> set (twins_of members e) \<longleftrightarrow> (\<exists>c\<in>set (twin_candidates members). \<exists>d\<in>set (twin_candidates members).
    tc_email c = e \<and> tc_email d = f \<and> c \<noteq> d \<and> look_alike c d)"
proof -
  define cs where "cs = twin_candidates members"
  have "f \<in> set (twins_of members e) \<longleftrightarrow> (\<exists>ms. map_of (findDuplicateTwins members) e = Some ms \<and> f \<in> set ms)"
    by (cases "map_of (findDuplicateTwins members) e") (auto simp: twins_of_def)
  also have "\<dots> \<longleftrightarrow> (\<exists>i<length cs. tc_email (cs ! i) = e \<and> f \<in> set (twin_matches cs i))"
    using twins_table [of cs "length cs"] assms by (fastforce simp: findDuplicateTwins_def cs_def [symmetric])
  also have "\<dots> \<longleftrightarrow> (\<exists>i<length cs. \<exists>j<length cs. tc_email (cs ! i) = e \<and> tc_email (cs ! j) = f \<and> i \<noteq> j \<and>
      look_alike (cs ! i) (cs ! j))"
    by (auto simp: twin_matches_def)
  also have "\<dots> \<longleftrightarrow> (\<exists>c\<in>set cs. \<exists>d\<in>set cs. tc_email c = e \<and> tc_email d = f \<and> c \<noteq> d \<and> look_alike c d)"
  proof -
    have "distinct cs" using assms unfolding cs_def by (simp add: distinct_map)
    then have "(i \<noteq> j) = (cs ! i \<noteq> cs ! j)" if "i < length cs" "j < length cs" for i j
      using that by (simp add: nth_eq_iff_index_eq)
    then have "(\<exists>i<length cs. \<exists>j<length cs. tc_email (cs ! i) = e \<and> tc_email (cs ! j) = f \<and> i \<noteq> j \<and>
        look_alike (cs ! i) (cs ! j)) \<longleftrightarrow> (\<exists>i<length cs. \<exists>j<length cs. tc_email (cs ! i) = e \<and> tc_email (cs ! j) = f \<and>
        cs ! i \<noteq> cs ! j \<and> look_alike (cs ! i) (cs ! j))"
      by (intro ex_cong1 conj_cong refl) blast
    then show ?thesis by (simp only: Bex_def in_set_conv_nth) blast
  qed
  finally show ?thesis unfolding cs_def .
qed

text \<open>C27: The badge for a probable duplicate shows exactly the look-alikes. When no two compared members share an
  address, an address is listed beside another one when both belong to compared members and the two mailboxes, with
  the dots and the part after a plus left out, are the same text or one substitution, insertion or deletion apart;
  and whoever is listed beside an address also has it listed beside theirs.\<close>

theorem twins_are_look_alikes:
  assumes "distinct (map tc_email (twin_candidates members))"
  shows "(f \<in> set (twins_of members e) \<longleftrightarrow> (\<exists>c\<in>set (twin_candidates members). \<exists>d\<in>set (twin_candidates members).
      tc_email c = e \<and> tc_email d = f \<and> c \<noteq> d \<and>
      (tc_canonical c = tc_canonical d \<or> one_edit (tc_canonical c) (tc_canonical d)))) \<and>
    (f \<in> set (twins_of members e) \<longleftrightarrow> e \<in> set (twins_of members f))"
proof -
  have "look_alike c d \<longleftrightarrow> tc_canonical c = tc_canonical d \<or> one_edit (tc_canonical c) (tc_canonical d)" for c d
    using isOneEditApart_sym [of "tc_canonical d" "tc_canonical c"]
    by (auto simp: look_alike_def one_edit_iff [symmetric])
  moreover have "f \<in> set (twins_of members e) \<longleftrightarrow> e \<in> set (twins_of members f)"
    unfolding in_twins_of [OF assms] using look_alike_sym by metis
  ultimately show ?thesis by (simp only: in_twins_of [OF assms])
qed

definition sample_subscriber :: "string \<Rightarrow> member" where
  "sample_subscriber email = (pendingMember email Gold '''')\<lparr>mem_subscribed := True\<rparr>"

definition sample_twins :: "member list" where
  "sample_twins = [sample_subscriber ''samplemember767@x.io'', sample_subscriber ''samplemember768@x.io'']"

theorem twins_are_look_alikes_witness:
  "''samplemember768@x.io'' \<in> set (twins_of sample_twins ''samplemember767@x.io'')"
proof -
  have cs: "twin_candidates sample_twins = [\<lparr>tc_email = ''samplemember767@x.io'', tc_canonical = ''samplemember767@x.io''\<rparr>,
      \<lparr>tc_email = ''samplemember768@x.io'', tc_canonical = ''samplemember768@x.io''\<rparr>]"
    by code_simp
  have "substituted ''samplemember767@x.io'' ''samplemember768@x.io''"
    unfolding substituted_def by (rule exI [of _ "''samplemember76''"]) simp
  then have "one_edit ''samplemember767@x.io'' ''samplemember768@x.io''" by (simp add: one_edit_def)
  moreover have "distinct (map tc_email (twin_candidates sample_twins))" unfolding cs by simp
  ultimately show ?thesis using twins_are_look_alikes [of sample_twins "''samplemember768@x.io''" "''samplemember767@x.io''"]
    by (simp add: cs)
qed

end
