(* ===== verification/LibraryAccess.thy ===== *)
theory LibraryAccess imports JsText PlexClient begin

text \<open>
  How each library of a member stands between what the tier grants and what plex.tv shares
  (\<open>apps/admin-portal/src/lib/libraryAccess.ts\<close>). Objects keyed by server are association lists; how
  \<open>localeCompare\<close> orders two names is the engine's, the parameter \<open>collate\<close>.
\<close>

datatype library_access_state = Shared | NotShared | NotEntitled | Unknown

record library_access =
  la_library :: string
  la_state :: library_access_state

record server_access =
  sa_server :: string
  sa_entitled :: bool
  sa_libraries :: "library_access list"
  sa_entitledCount :: nat
  sa_sharedCount :: nat

definition stateLabel :: "library_access_state \<Rightarrow> string" where
  "stateLabel s = (case s of Shared \<Rightarrow> ''shared'' | NotShared \<Rightarrow> ''not shared'' | NotEntitled \<Rightarrow> ''not entitled''
     | Unknown \<Rightarrow> ''unknown'')"

definition resolveState :: "bool \<Rightarrow> bool option \<Rightarrow> library_access_state" where
  "resolveState isEntitled isShared = (case isShared of None \<Rightarrow> Unknown
     | Some shared \<Rightarrow> if isEntitled then (if shared then Shared else NotShared) else NotEntitled)"

definition is_shared :: "plex_shares option \<Rightarrow> string \<Rightarrow> string \<Rightarrow> bool option" where
  \<comment> \<open>\<open>isShared\<close> of a library on a server: \<open>null\<close> when sharing could not be read\<close>
  "is_shared sharing server library = map_option (\<lambda>shares. case map_of shares server of
     None \<Rightarrow> False | Some share \<Rightarrow> ps_all_libraries share \<or> library \<in> set (ps_libraries share)) sharing"

definition server_row :: "(string \<Rightarrow> string \<Rightarrow> int) \<Rightarrow> (string \<times> string list) list \<Rightarrow> plex_shares option \<Rightarrow> string \<Rightarrow> server_access" where
  "server_row collate entitled sharing server =
     (let entitledNames = (case map_of entitled server of Some names \<Rightarrow> names | None \<Rightarrow> []);
          serverShare = Option.bind sharing (\<lambda>shares. map_of shares server);
          sharedNames = (case serverShare of Some share \<Rightarrow> ps_libraries share | None \<Rightarrow> []);
          resolved = js_sort collate (js_set (entitledNames @ sharedNames))
      in \<lparr>sa_server = server, sa_entitled = (entitledNames \<noteq> []),
          sa_libraries = map (\<lambda>library. \<lparr>la_library = library,
            la_state = resolveState (library \<in> set entitledNames) (is_shared sharing server library)\<rparr>) resolved,
          sa_entitledCount = length entitledNames,
          sa_sharedCount = length (filter (\<lambda>library. is_shared sharing server library = Some True) resolved)\<rparr>)"

definition buildServerAccess ::
  "(string \<Rightarrow> string \<Rightarrow> int) \<Rightarrow> (string \<times> string list) list \<Rightarrow> plex_shares option \<Rightarrow> server_access list" where
  "buildServerAccess collate entitled sharing = map (server_row collate entitled sharing)
     (js_sort collate (js_set (map fst entitled @ map fst (case sharing of Some shares \<Rightarrow> shares | None \<Rightarrow> []))))"

subsection \<open>What the page shows\<close>

text \<open>What is granted and what is shared, as sets of pairs.\<close>

definition granted :: "(string \<times> string list) list \<Rightarrow> string \<Rightarrow> string set" where
  "granted entitled server = (case map_of entitled server of Some names \<Rightarrow> set names | None \<Rightarrow> {})"

definition listed :: "plex_shares \<Rightarrow> string \<Rightarrow> string set" where
  "listed shares server = (case map_of shares server of Some share \<Rightarrow> set (ps_libraries share) | None \<Rightarrow> {})"

definition shares_all :: "plex_shares \<Rightarrow> string \<Rightarrow> bool" where
  "shares_all shares server = (case map_of shares server of Some share \<Rightarrow> ps_all_libraries share | None \<Rightarrow> False)"

lemma distinct_js_sort [simp]: "distinct (js_sort cmp xs) = distinct xs"
  by (metis mset_eq_imp_distinct_iff mset_js_sort)

lemma server_rows: "map sa_server (buildServerAccess collate entitled sharing) =
    js_sort collate (js_set (map fst entitled @ map fst (case sharing of Some shares \<Rightarrow> shares | None \<Rightarrow> [])))"
  by (simp add: buildServerAccess_def server_row_def Let_def o_def)

lemma row_states:
  assumes "row \<in> set (buildServerAccess collate entitled sharing)" "lib \<in> set (sa_libraries row)"
  shows "la_state lib = resolveState (la_library lib \<in> granted entitled (sa_server row))
      (is_shared sharing (sa_server row) (la_library lib))"
  using assms by (auto simp: buildServerAccess_def server_row_def Let_def granted_def split: option.splits)

lemma row_libraries:
  assumes "row \<in> set (buildServerAccess collate entitled sharing)"
  shows "distinct (map la_library (sa_libraries row))"
    "la_library ` set (sa_libraries row) = granted entitled (sa_server row) \<union>
       (case sharing of None \<Rightarrow> {} | Some shares \<Rightarrow> listed shares (sa_server row))"
    "sa_sharedCount row = card {l. l \<in> la_library ` set (sa_libraries row) \<and> is_shared sharing (sa_server row) l = Some True}"
proof -
  obtain server where row: "row = server_row collate entitled sharing server"
    using assms by (auto simp: buildServerAccess_def)
  show "distinct (map la_library (sa_libraries row))" by (simp add: row server_row_def Let_def o_def)
  show "la_library ` set (sa_libraries row) = granted entitled (sa_server row) \<union>
       (case sharing of None \<Rightarrow> {} | Some shares \<Rightarrow> listed shares (sa_server row))"
    by (auto simp: row server_row_def Let_def granted_def listed_def image_image split: option.splits)
  define ls where "ls = map la_library (sa_libraries row)"
  have "sa_sharedCount row = length (filter (\<lambda>l. is_shared sharing server l = Some True) ls)" "distinct ls"
    "sa_server row = server"
    by (simp_all add: ls_def row server_row_def Let_def o_def)
  then show "sa_sharedCount row = card {l. l \<in> la_library ` set (sa_libraries row) \<and> is_shared sharing (sa_server row) l = Some True}"
    using distinct_length_filter [of ls "\<lambda>l. is_shared sharing server l = Some True"]
    by (simp add: Int_def conj_commute ls_def)
qed

text \<open>What a row has to say of its server.\<close>

definition row_is_exact :: "(string \<times> string list) list \<Rightarrow> plex_shares option \<Rightarrow> server_access \<Rightarrow> bool" where
  "row_is_exact entitled sharing row =
     (let server = sa_server row; libraries = la_library ` set (sa_libraries row) in
      distinct (map la_library (sa_libraries row)) \<and>
      libraries = granted entitled server \<union> (case sharing of None \<Rightarrow> {} | Some shares \<Rightarrow> listed shares server) \<and>
      (case sharing of
         None \<Rightarrow> la_state ` set (sa_libraries row) \<subseteq> {Unknown} \<and> sa_sharedCount row = 0
       | Some shares \<Rightarrow>
           (\<forall>lib\<in>set (sa_libraries row). la_state lib =
             (if la_library lib \<notin> granted entitled server then NotEntitled
              else if shares_all shares server \<or> la_library lib \<in> listed shares server then Shared else NotShared)) \<and>
           sa_sharedCount row = card (libraries \<inter> {l. shares_all shares server \<or> l \<in> listed shares server})))"

lemma rows_are_exact:
  assumes row: "row \<in> set (buildServerAccess collate entitled sharing)"
  shows "row_is_exact entitled sharing row"
proof -
  have states: "is_shared (Some shares) server l = Some (shares_all shares server \<or> l \<in> listed shares server)"
    for shares server l
    by (auto simp: is_shared_def shares_all_def listed_def split: option.splits)
  note facts = row_libraries [OF row]
  show ?thesis
  proof (cases sharing)
    case None
    then show ?thesis using row_states [OF row] facts by (auto simp: row_is_exact_def resolveState_def is_shared_def Let_def)
  next
    case (Some shares)
    define server where "server = sa_server row"
    have "\<forall>lib\<in>set (sa_libraries row). la_state lib =
        (if la_library lib \<notin> granted entitled server then NotEntitled
         else if shares_all shares server \<or> la_library lib \<in> listed shares server then Shared else NotShared)"
      using row_states [OF row] by (simp add: Some states resolveState_def server_def)
    moreover have "sa_sharedCount row = card (la_library ` set (sa_libraries row) \<inter>
        {l. shares_all shares server \<or> l \<in> listed shares server})"
      using facts(3) by (simp add: Some states server_def Int_def)
    ultimately show ?thesis using facts(1,2) by (simp add: row_is_exact_def Some server_def Let_def)
  qed
qed

text \<open>C28: The member page tells granted from shared exactly. Every server that grants or shares anything has one row and
  each of its libraries, granted or listed by plex.tv, is in it once. When plex.tv could not be read every library
  reads unknown and nothing counts as shared; when it was read, a library reads shared just when it is granted and
  shared, not shared when it is granted only, not entitled when no tier grants it, and never unknown, and the
  count of shared libraries is the number of listed ones plex.tv shares, the whole server counting as all of them.\<close>

theorem shown_access_is_exact:
  "distinct (map sa_server (buildServerAccess collate entitled sharing)) \<and>
   sa_server ` set (buildServerAccess collate entitled sharing) =
     fst ` set entitled \<union> (case sharing of None \<Rightarrow> {} | Some shares \<Rightarrow> fst ` set shares) \<and>
   list_all (row_is_exact entitled sharing) (buildServerAccess collate entitled sharing)"
proof -
  have "sa_server ` set (buildServerAccess collate entitled sharing) =
     fst ` set entitled \<union> (case sharing of None \<Rightarrow> {} | Some shares \<Rightarrow> fst ` set shares)"
    using arg_cong [OF server_rows [of collate entitled sharing], of set] by (auto split: option.splits)
  then show ?thesis by (simp add: server_rows list_all_iff rows_are_exact)
qed

end
