(* ===== verification/Samples.thy ===== *)
theory Samples imports Incidents JsText "HOL-Library.Product_Lexorder" begin

text \<open>
  The readings the monitor stores (\<open>apps/fleet-monitor/src/store.ts\<close>): one row per metric, target and moment, and the
  heartbeat. The store of the monitor is both its own tables and those of \<open>Incidents\<close>. Values are exact rationals;
  rows without an \<open>ORDER BY\<close> are read in the order they were written; the placeholder column of files made before
  this version is left out. SQLite compares text by bytes.
\<close>

subsection \<open>Tables\<close>

record sample =
  smp_metric :: string
  smp_value :: rat

record reading_row =
  sm_target :: string
  sm_metric :: string
  sm_at :: string
  sm_value :: rat

record fleet_db =
  fd_checks :: checks_db
  fd_samples :: "reading_row list"
  fd_heartbeat :: "string option"

type_synonym series = "(int \<times> rat) list"

definition SAMPLE_RETENTION_SECONDS :: int where
  "SAMPLE_RETENTION_SECONDS = 7 * 86400"

text \<open>A map over rows that stops at the first failure.\<close>

fun each_ok :: "('a \<Rightarrow> exn + 'b) \<Rightarrow> 'a list \<Rightarrow> exn + 'b list" where
  "each_ok f [] = Inr []"
| "each_ok f (x # xs) = (case f x of Inl e \<Rightarrow> Inl e
     | Inr y \<Rightarrow> (case each_ok f xs of Inl e \<Rightarrow> Inl e | Inr ys \<Rightarrow> Inr (y # ys)))"

subsection \<open>Writing\<close>

definition writeSamples :: "string \<Rightarrow> int \<Rightarrow> sample list \<Rightarrow> fleet_db \<Rightarrow> fleet_db \<times> nat" where
  "writeSamples target moment samples d =
     (d\<lparr>fd_samples := fd_samples d @ map (\<lambda>s. \<lparr>sm_target = target, sm_metric = smp_metric s, sm_at = isoformat moment,
        sm_value = smp_value s\<rparr>) samples\<rparr>, length samples)"

definition writeHeartbeat :: "int \<Rightarrow> fleet_db \<Rightarrow> fleet_db" where
  "writeHeartbeat moment d = d\<lparr>fd_heartbeat := Some (isoformat moment)\<rparr>"

definition prune :: "int \<Rightarrow> fleet_db \<Rightarrow> fleet_db \<times> nat" where
  "prune now d = (let floor_text = isoformat (now - SAMPLE_RETENTION_SECONDS * 1000);
       gone = filter (\<lambda>r. sm_at r < floor_text) (fd_samples d)
     in (d\<lparr>fd_samples := filter (\<lambda>r. \<not> sm_at r < floor_text) (fd_samples d)\<rparr>, length gone))"

subsection \<open>Reading\<close>

definition lastHeartbeat :: "fleet_db \<Rightarrow> exn + int option" where
  "lastHeartbeat d = (case fd_heartbeat d of None \<Rightarrow> Inr None
     | Some s \<Rightarrow> (case parseIso s of Inl e \<Rightarrow> Inl e | Inr t \<Rightarrow> Inr (Some t)))"

definition newest_of_metric :: "fleet_db \<Rightarrow> reading_row \<Rightarrow> bool" where
  \<comment> \<open>\<open>at = (SELECT MAX(at) ... )\<close> over the rows of the same target and metric\<close>
  "newest_of_metric d r = list_all (\<lambda>q. sm_target q = sm_target r \<and> sm_metric q = sm_metric r \<longrightarrow> sm_at q \<le> sm_at r) (fd_samples d)"

definition latest :: "string \<Rightarrow> int \<Rightarrow> fleet_db \<Rightarrow> (string \<times> rat) list" where
  "latest target since d = js_map (map (\<lambda>r. (sm_metric r, sm_value r))
     (filter (\<lambda>r. sm_target r = target \<and> isoformat since \<le> sm_at r \<and> newest_of_metric d r) (fd_samples d)))"

definition seen_since :: "string \<Rightarrow> int \<Rightarrow> fleet_db \<Rightarrow> reading_row list" where
  "seen_since target since d = filter (\<lambda>r. sm_target r = target \<and> isoformat since \<le> sm_at r) (fd_samples d)"

definition max_text :: "string list \<Rightarrow> string" where
  "max_text ts = foldl max [] ts"

definition metricAges :: "string \<Rightarrow> int \<Rightarrow> fleet_db \<Rightarrow> exn + (string \<times> int) list" where
  "metricAges target since d = (let rows = seen_since target since d in
     each_ok (\<lambda>metric. case parseIso (max_text (map sm_at (filter (\<lambda>r. sm_metric r = metric) rows))) of
         Inl e \<Rightarrow> Inl e | Inr t \<Rightarrow> Inr (metric, t))
       (sort (js_set (map sm_metric rows))))"

definition point_of :: "reading_row \<Rightarrow> exn + int \<times> rat" where
  "point_of r = (case parseIso (sm_at r) of Inl e \<Rightarrow> Inl e | Inr t \<Rightarrow> Inr (t, sm_value r))"

definition metric_points :: "string \<Rightarrow> string \<Rightarrow> int \<Rightarrow> fleet_db \<Rightarrow> exn + series" where
  \<comment> \<open>\<open>series\<close>\<close>
  "metric_points target metric since d = each_ok point_of
     (sort_key sm_at (filter (\<lambda>r. sm_metric r = metric) (seen_since target since d)))"

definition grouped :: "reading_row list \<Rightarrow> exn + (string \<times> series) list" where
  "grouped rows = (case each_ok (\<lambda>r. case point_of r of Inl e \<Rightarrow> Inl e | Inr p \<Rightarrow> Inr (sm_metric r, p)) rows of
     Inl e \<Rightarrow> Inl e
   | Inr points \<Rightarrow> Inr (foldl (\<lambda>table (metric, p).
         map_put metric ((case map_of table metric of Some ps \<Rightarrow> ps | None \<Rightarrow> []) @ [p]) table) [] points))"

definition metricSeries :: "string \<Rightarrow> string list \<Rightarrow> int \<Rightarrow> fleet_db \<Rightarrow> exn + (string \<times> series) list" where
  "metricSeries target metrics since d = (if metrics = [] then Inr []
     else grouped (sort_key (\<lambda>r. (sm_metric r, sm_at r)) (filter (\<lambda>r. sm_metric r \<in> set metrics) (seen_since target since d))))"

definition above :: "string \<Rightarrow> string" where
  \<comment> \<open>of an ASCII prefix\<close>
  "above prefix = butlast prefix @ [char_of (if prefix = [] then 1 else code_of (last prefix) + 1)]"

definition metricSeriesPrefix :: "string \<Rightarrow> string \<Rightarrow> int \<Rightarrow> fleet_db \<Rightarrow> exn + (string \<times> series) list" where
  "metricSeriesPrefix target prefix since d = (if prefix = [] then Inr []
     else grouped (sort_key (\<lambda>r. (sm_metric r, sm_at r))
       (filter (\<lambda>r. prefix \<le> sm_metric r \<and> sm_metric r < above prefix) (seen_since target since d))))"

subsection \<open>Rates\<close>

definition rate :: "int \<times> rat \<Rightarrow> int \<times> rat \<Rightarrow> rat option" where
  "rate previous current = (let elapsed = of_int (fst current - fst previous) / 1000 in
     if elapsed \<le> 0 \<or> snd current < snd previous then None else Some ((snd current - snd previous) / elapsed))"

definition rateSeries :: "series \<Rightarrow> series" where
  "rateSeries points = somes (map (\<lambda>(previous, current). map_option (\<lambda>v. (fst current, v)) (rate previous current))
     (zip points (tl points)))"

subsection \<open>What the reads answer\<close>

lemma each_ok_all: "(\<And>x. x \<in> set xs \<Longrightarrow> \<exists>y. f x = Inr y) \<Longrightarrow> \<exists>ys. each_ok f xs = Inr ys"
  by (induction xs) (force split: sum.splits)+

lemma each_ok_rel: "each_ok f xs = Inr ys \<Longrightarrow> list_all2 (\<lambda>x y. f x = Inr y) xs ys"
  by (induction xs arbitrary: ys) (auto split: sum.splits)

lemma foldl_max: "foldl max a ts \<in> insert a (set ts) \<and> a \<le> foldl max a ts \<and> (\<forall>t\<in>set ts. t \<le> foldl max (a :: 'a :: linorder) ts)"
proof (induction ts arbitrary: a)
  case Nil
  then show ?case by simp
next
  case (Cons t ts)
  have "max a t = a \<or> max a t = t" by (simp add: max_def)
  then show ?case using Cons.IH [of "max a t"] by auto
qed

lemma max_text_in: "ts \<noteq> [] \<Longrightarrow> max_text ts \<in> set ts"
proof -
  assume "ts \<noteq> []"
  then obtain t where t: "t \<in> set ts" by (cases ts) auto
  then have "t \<le> max_text ts" using foldl_max [of "[]" ts] by (simp add: max_text_def)
  then show ?thesis using foldl_max [of "[]" ts] t by (cases "max_text ts = []") (auto simp: max_text_def)
qed

lemma max_text_ge: "t \<in> set ts \<Longrightarrow> t \<le> max_text ts"
  using foldl_max [of "[]" ts] by (simp add: max_text_def)

text \<open>Every reading carries a timestamp that reads back.\<close>

definition stamped :: "fleet_db \<Rightarrow> bool" where
  "stamped d \<longleftrightarrow> (\<forall>r\<in>set (fd_samples d). \<exists>t. sm_at r = isoformat t \<and> 100 \<le> utc_year t \<and> utc_year t \<le> 9999)"

lemma stamped_parse: "stamped d \<Longrightarrow> r \<in> set (fd_samples d) \<Longrightarrow> \<exists>t. parseIso (sm_at r) = Inr t"
  by (auto simp: stamped_def parseIso_def iso_instant_isoformat dest!: bspec)

lemma each_ok_map: "(\<And>x. x \<in> set xs \<Longrightarrow> f x = Inr (g x)) \<Longrightarrow> each_ok f xs = Inr (map g xs)"
  by (induction xs) auto

lemma newest_seen:
  assumes "r \<in> set (seen_since target since d)"
  defines "newest \<equiv> max_text (map sm_at (filter (\<lambda>q. sm_metric q = sm_metric r) (seen_since target since d)))"
  shows "\<exists>q\<in>set (seen_since target since d). sm_metric q = sm_metric r \<and> sm_at q = newest \<and> newest_of_metric d q"
    "newest_of_metric d r \<longleftrightarrow> sm_at r = newest"
proof -
  let ?ats = "map sm_at (filter (\<lambda>q. sm_metric q = sm_metric r) (seen_since target since d))"
  have r: "sm_at r \<in> set ?ats" using assms(1) by auto
  then have "?ats \<noteq> []" by (cases ?ats) simp_all
  then have "newest \<in> set ?ats" unfolding newest_def by (rule max_text_in)
  then obtain q where q: "q \<in> set (seen_since target since d)" "sm_metric q = sm_metric r" "sm_at q = newest" by auto
  have all: "sm_at p \<le> newest" if "p \<in> set (fd_samples d)" "sm_target p = target" "sm_metric p = sm_metric r" for p
  proof (cases "isoformat since \<le> sm_at p")
    case True
    then have "sm_at p \<in> set ?ats" using that by (auto simp: seen_since_def)
    then show ?thesis unfolding newest_def by (rule max_text_ge)
  next
    case False
    then have "sm_at p \<le> isoformat since" by simp
    also have "isoformat since \<le> sm_at q" using q(1) by (simp add: seen_since_def)
    finally show ?thesis using q(3) by simp
  qed
  have target: "sm_target r = target" "r \<in> set (fd_samples d)" "sm_target q = target" "q \<in> set (fd_samples d)"
    using assms(1) q(1) by (simp_all add: seen_since_def)
  then have "newest_of_metric d q" using all q by (auto simp: newest_of_metric_def list_all_iff)
  then show "\<exists>q\<in>set (seen_since target since d). sm_metric q = sm_metric r \<and> sm_at q = newest \<and> newest_of_metric d q"
    using q by blast
  show "newest_of_metric d r \<longleftrightarrow> sm_at r = newest"
  proof
    assume "newest_of_metric d r"
    then have "sm_at q \<le> sm_at r" using q target by (auto simp: newest_of_metric_def list_all_iff)
    moreover have "sm_at r \<le> newest" using all target by blast
    ultimately show "sm_at r = newest" using q(3) by simp
  next
    assume "sm_at r = newest"
    then show "newest_of_metric d r" using all target by (auto simp: newest_of_metric_def list_all_iff)
  qed
qed

definition age_text :: "string \<Rightarrow> int \<Rightarrow> fleet_db \<Rightarrow> string \<Rightarrow> string" where
  "age_text target since d metric = max_text (map sm_at (filter (\<lambda>r. sm_metric r = metric) (seen_since target since d)))"

lemma metricAges_stamped:
  assumes "stamped d"
  shows "metricAges target since d = Inr (map (\<lambda>m. (m, case parseIso (age_text target since d m) of Inr t \<Rightarrow> t | Inl _ \<Rightarrow> 0))
    (sort (js_set (map sm_metric (seen_since target since d)))))"
    "r \<in> set (seen_since target since d) \<Longrightarrow> \<exists>t. age_text target since d (sm_metric r) = isoformat t \<and>
       100 \<le> utc_year t \<and> utc_year t \<le> 9999 \<and> parseIso (age_text target since d (sm_metric r)) = Inr t"
proof -
  show read: "\<exists>t. age_text target since d (sm_metric r) = isoformat t \<and> 100 \<le> utc_year t \<and> utc_year t \<le> 9999 \<and>
      parseIso (age_text target since d (sm_metric r)) = Inr t"
    if seen: "r \<in> set (seen_since target since d)" for r
  proof -
    obtain q where q: "q \<in> set (seen_since target since d)" "sm_at q = age_text target since d (sm_metric r)"
      using newest_seen(1) [OF seen] unfolding age_text_def by blast
    then have "q \<in> set (fd_samples d)" by (simp add: seen_since_def)
    then obtain t where "sm_at q = isoformat t" "100 \<le> utc_year t" "utc_year t \<le> 9999"
      using assms by (auto simp: stamped_def)
    then show ?thesis using q(2) by (auto simp: parseIso_def iso_instant_isoformat intro!: exI [of _ t])
  qed
  have "\<exists>t. parseIso (age_text target since d m) = Inr t" if "m \<in> set (sort (js_set (map sm_metric (seen_since target since d))))" for m
    using that read by auto
  then show "metricAges target since d = Inr (map (\<lambda>m. (m, case parseIso (age_text target since d m) of Inr t \<Rightarrow> t | Inl _ \<Rightarrow> 0))
    (sort (js_set (map sm_metric (seen_since target since d)))))"
    unfolding metricAges_def Let_def age_text_def [symmetric] by (intro each_ok_map) (fastforce split: sum.splits)
qed

lemma map_of_pairs: "map_of (map (\<lambda>m. (m, f m)) ms) m = (if m \<in> set ms then Some (f m) else None)"
  by (induction ms) auto

text \<open>C22: A value shown is a value dated. For stamped readings and a floor of the years 0 to 9999, asking for the ages of a
  target's metrics never fails and names exactly the metrics whose values are shown; the value shown for a
  metric is one of its newest reading, none newer being stored, and its age is the moment of that reading, which
  is not before the floor.\<close>

theorem every_value_shown_is_dated:
  assumes "stamped d" "0 \<le> utc_year since" "utc_year since \<le> 9999"
  shows "\<exists>ages. metricAges target since d = Inr ages \<and>
    (map_of ages metric = None \<longleftrightarrow> map_of (latest target since d) metric = None) \<and>
    (\<forall>value. map_of (latest target since d) metric = Some value \<longrightarrow> (\<exists>moment r. map_of ages metric = Some moment \<and> since \<le> moment \<and>
       r \<in> set (fd_samples d) \<and> sm_target r = target \<and> sm_metric r = metric \<and> sm_value r = value \<and>
       sm_at r = isoformat moment \<and> newest_of_metric d r))"
proof -
  let ?seen = "seen_since target since d"
  define ages where "ages = map (\<lambda>m. (m, case parseIso (age_text target since d m) of Inr t \<Rightarrow> t | Inl _ \<Rightarrow> 0))
    (sort (js_set (map sm_metric ?seen)))"
  let ?shown = "map (\<lambda>r. (sm_metric r, sm_value r)) (filter (newest_of_metric d) ?seen)"
  have shown: "latest target since d = js_map ?shown"
    by (simp add: latest_def seen_since_def conj_assoc filter_filter)
  have listed: "metric \<in> fst ` set ?shown \<longleftrightarrow> metric \<in> sm_metric ` set ?seen"
    using newest_seen(1) by (fastforce simp: image_iff)
  have none: "map_of ages metric = None \<longleftrightarrow> map_of (latest target since d) metric = None"
  proof -
    have "map_of (js_map ?shown) metric = None \<longleftrightarrow> metric \<notin> sm_metric ` set ?seen"
      unfolding map_of_js_map map_of_eq_None_iff set_rev using listed by blast
    moreover have "map_of ages metric = None \<longleftrightarrow> metric \<notin> sm_metric ` set ?seen"
      by (simp add: ages_def map_of_pairs)
    ultimately show ?thesis by (simp add: shown)
  qed
  have some: "\<exists>moment r. map_of ages metric = Some moment \<and> since \<le> moment \<and> r \<in> set (fd_samples d) \<and> sm_target r = target \<and>
      sm_metric r = metric \<and> sm_value r = value \<and> sm_at r = isoformat moment \<and> newest_of_metric d r"
    if "map_of (latest target since d) metric = Some value" for "value"
  proof -
    have "(metric, value) \<in> set ?shown" using map_of_SomeD [OF that] set_js_map [of ?shown] unfolding shown by blast
    then obtain r where r: "r \<in> set ?seen" "newest_of_metric d r" "sm_metric r = metric" "sm_value r = value" by auto
    obtain t where t: "age_text target since d metric = isoformat t" "100 \<le> utc_year t" "utc_year t \<le> 9999"
      "parseIso (age_text target since d metric) = Inr t"
      using metricAges_stamped(2) [OF assms(1) r(1)] r(3) by blast
    have at_r: "sm_at r = isoformat t" using newest_seen(2) [OF r(1)] r(2,3) t(1) by (simp add: age_text_def)
    have "isoformat since \<le> isoformat t" using r(1) at_r by (simp add: seen_since_def)
    then have "since \<le> t" using isoformat_less [of t since] assms(3) t(2) by (cases "t < since") auto
    moreover have "map_of ages metric = Some t" using r(1,3) t(4) by (auto simp: ages_def map_of_pairs)
    ultimately show ?thesis using r at_r by (intro exI [of _ t] exI [of _ r]) (simp add: seen_since_def)
  qed
  have "metricAges target since d = Inr ages" unfolding ages_def by (rule metricAges_stamped(1) [OF assms(1)])
  then show ?thesis
  proof (intro exI [of _ ages] conjI none allI impI)
    fix "value" assume "map_of (latest target since d) metric = Some value"
    then show "\<exists>moment r. map_of ages metric = Some moment \<and> since \<le> moment \<and> r \<in> set (fd_samples d) \<and> sm_target r = target \<and>
      sm_metric r = metric \<and> sm_value r = value \<and> sm_at r = isoformat moment \<and> newest_of_metric d r" by (rule some)
  qed assumption
qed


lemma every_value_shown_is_dated_witness:
  "\<exists>ages moment. metricAges ''host'' 0 (fst (writeSamples ''host'' 60000 [\<lparr>smp_metric = ''load'', smp_value = 3\<rparr>] \<lparr>fd_checks = empty_checks, fd_samples = [], fd_heartbeat = None\<rparr>)) = Inr ages \<and>
     map_of ages ''load'' = Some moment \<and> 0 \<le> moment \<and> isoformat moment = isoformat 60000"
proof -
  let ?d = "fst (writeSamples ''host'' 60000 [\<lparr>smp_metric = ''load'', smp_value = 3\<rparr>] \<lparr>fd_checks = empty_checks, fd_samples = [], fd_heartbeat = None\<rparr>)"
  have years: "utc_year 0 = 1970" "utc_year 60000 = 1970" by code_simp+
  have "stamped ?d" using years by (auto simp: stamped_def writeSamples_def intro!: exI [of _ 60000])
  moreover have "isoformat 0 \<le> isoformat 60000" by code_simp
  then have "map_of (latest ''host'' 0 ?d) ''load'' = Some 3"
    by (simp add: latest_def writeSamples_def newest_of_metric_def map_of_js_map)
  ultimately show ?thesis using every_value_shown_is_dated [of ?d 0 "''host''" "''load''"] years
    by (auto simp: writeSamples_def)
qed

end
