(* ===== verification/Probes.thy ===== *)
theory Probes imports Samples Json begin

text \<open>
  What the monitor reads out of a host's answers (\<open>apps/fleet-monitor/src/probes\<close>: \<open>parse.ts\<close>, \<open>script.ts\<close>,
  \<open>proc.ts\<close>, \<open>system.ts\<close>, \<open>docker.ts\<close>). Every parser is a total function: text it cannot read yields no sample.
  Text is ASCII; a number is an exact rational, finite when it would round to a finite double.
\<close>

subsection \<open>Numbers and words\<close>

definition read_exponent :: "string \<Rightarrow> int option" where
  "read_exponent s = (case s of [] \<Rightarrow> Some 0
     | c # r \<Rightarrow> if c \<noteq> CHR ''e'' \<and> c \<noteq> CHR ''E'' then None
         else let (negative, ds) = (case r of [] \<Rightarrow> (False, r)
                | d # r' \<Rightarrow> if d = CHR ''-'' then (True, r') else if d = CHR ''+'' then (False, r') else (False, r))
           in if ds = [] \<or> \<not> list_all is_digit ds then None
              else Some (if negative then - int (read_nat ds) else int (read_nat ds)))"

definition float_token :: "string \<Rightarrow> rat option" where
  \<comment> \<open>the grammar of \<open>FLOAT_TOKEN\<close> and the value \<open>Number\<close> gives it\<close>
  "float_token token = (let s = trim token;
       (negative, body) = (case s of [] \<Rightarrow> (False, s)
         | c # r \<Rightarrow> if c = CHR ''-'' then (True, r) else if c = CHR ''+'' then (False, r) else (False, s));
       whole = takeWhile is_digit body; rest = dropWhile is_digit body;
       (fraction, tail) = (case rest of [] \<Rightarrow> ([], rest)
         | c # r \<Rightarrow> if c = CHR ''.'' then (takeWhile is_digit r, dropWhile is_digit r) else ([], rest))
     in if whole = [] \<and> fraction = [] then None
        else case read_exponent tail of None \<Rightarrow> None
          | Some e \<Rightarrow> let n = of_nat (read_nat (whole @ fraction)); k = e - int (length fraction);
                v = (if 0 \<le> k then n * 10 ^ nat k else n / 10 ^ nat (- k))
              in Some (if negative then - v else v))"

definition number :: "string \<Rightarrow> rat option" where
  "number token = (case float_token token of None \<Rightarrow> None
     | Some v \<Rightarrow> if \<bar>v\<bar> < 2 ^ 1024 - 2 ^ 970 then Some v else None)"

definition ratio_sample :: "string \<Rightarrow> rat option \<Rightarrow> rat \<Rightarrow> sample list" where
  \<comment> \<open>\<open>ratio\<close>\<close>
  "ratio_sample metric v limit = (case v of None \<Rightarrow> []
     | Some x \<Rightarrow> if limit \<le> 0 then [] else [\<lparr>smp_metric = metric, smp_value = x / limit\<rparr>])"

fun line_parts :: "string \<Rightarrow> string list" where
  "line_parts [] = [[]]"
| "line_parts (c # s) =
     (if code_of c = 13 then (case s of [] \<Rightarrow> [] # line_parts s
        | d # r \<Rightarrow> if code_of d = 10 then [] # line_parts r else [] # line_parts s)
      else if code_of c = 10 then [] # line_parts s
      else case line_parts s of [] \<Rightarrow> [[c]] | t # ts \<Rightarrow> (c # t) # ts)"

definition lines_of :: "string \<Rightarrow> string list" where
  \<comment> \<open>\<open>lines\<close>\<close>
  "lines_of s = (let parts = line_parts s in if last parts = [] then butlast parts else parts)"

fun words :: "string \<Rightarrow> string list" where
  "words [] = []"
| "words (c # s) = (if is_space c then words s
     else case s of [] \<Rightarrow> [[c]]
       | d # _ \<Rightarrow> if is_space d then [c] # words s
           else (case words s of [] \<Rightarrow> [[c]] | w # ws \<Rightarrow> (c # w) # ws))"

definition splitOnce :: "char \<Rightarrow> string \<Rightarrow> string \<times> string option" where
  "splitOnce separator s = (takeWhile (\<lambda>c. c \<noteq> separator) s,
     case dropWhile (\<lambda>c. c \<noteq> separator) s of [] \<Rightarrow> None | _ # r \<Rightarrow> Some r)"

definition after_split :: "char \<Rightarrow> string \<Rightarrow> string" where
  \<comment> \<open>the second half, which defaults to no text\<close>
  "after_split separator s = text_or_empty (snd (splitOnce separator s))"

definition ends_with :: "string \<Rightarrow> string \<Rightarrow> bool" where
  "ends_with p s \<longleftrightarrow> p = drop (length s - length p) s"

fun text_includes :: "string \<Rightarrow> string \<Rightarrow> bool" where
  \<comment> \<open>\<open>text.includes(part)\<close>\<close>
  "text_includes part [] = (part = [])"
| "text_includes part (c # s) = (starts_with part (c # s) \<or> text_includes part s)"

subsection \<open>\<open>script.ts\<close>: the sections of one answer\<close>

fun split_sentinel :: "bool \<Rightarrow> string \<Rightarrow> string list" where
  \<comment> \<open>\<open>text.split(SENTINEL)\<close>; the flag is whether a line starts here\<close>
  "split_sentinel at_start [] = [[]]"
| "split_sentinel at_start (c # s) = (if at_start \<and> starts_with ''###'' (c # s) then [] # split_sentinel False (drop 2 s)
     else case split_sentinel (code_of c = 10) s of [] \<Rightarrow> [[c]] | t # ts \<Rightarrow> (c # t) # ts)"

definition section_of :: "string \<Rightarrow> string \<times> string" where
  "section_of chunk = (trim (takeWhile (\<lambda>c. code_of c \<noteq> 10) chunk), drop 1 (dropWhile (\<lambda>c. code_of c \<noteq> 10) chunk))"

definition splitSections :: "string \<Rightarrow> (string \<times> string) list" where
  "splitSections s = js_map (filter (\<lambda>(head, _). head \<noteq> []) (map section_of (drop 1 (split_sentinel True s))))"

subsection \<open>\<open>proc.ts\<close>\<close>

definition CPU_FIELDS :: "string list" where
  "CPU_FIELDS = [''user'', ''nice'', ''system'', ''idle'', ''iowait'', ''irq'', ''softirq'', ''steal'']"

definition MEM_KEYS :: "(string \<times> string) list" where
  "MEM_KEYS = [(''MemTotal'', ''mem.total_bytes''), (''MemFree'', ''mem.free_bytes''), (''MemAvailable'', ''mem.available_bytes''),
     (''Buffers'', ''mem.buffers_bytes''), (''Cached'', ''mem.cached_bytes''), (''SwapTotal'', ''mem.swap_total_bytes''),
     (''SwapFree'', ''mem.swap_free_bytes'')]"

definition SKIP_IFACES :: "string list" where
  "SKIP_IFACES = [''lo'', ''sit0'']"

definition SKIP_PREFIXES :: "string list" where
  "SKIP_PREFIXES = [''docker'', ''veth'', ''br-'', ''tun'', ''tap'', ''wg'']"

definition TX_BYTES :: nat where
  "TX_BYTES = 8"

definition cpu_row :: "string list \<Rightarrow> sample list" where
  "cpu_row row = (let label = (if hd row = ''cpu'' then ''cpu.total'' else hd row) in
     somes (map (\<lambda>(index, name). if index + 1 < length row
         then map_option (\<lambda>v. \<lparr>smp_metric = label @ ''.'' @ name, smp_value = v\<rparr>) (number (row ! (index + 1))) else None)
       (enumerate 0 CPU_FIELDS)))"

definition parseStat :: "string \<Rightarrow> sample list" where
  "parseStat s = concat (map cpu_row (map words (filter (starts_with ''cpu'') (lines_of s))))"

definition parseMeminfo :: "string \<Rightarrow> sample list" where
  "parseMeminfo s = concat (map (\<lambda>line. case map_of MEM_KEYS (fst (splitOnce (CHR '':'') line)) of
       None \<Rightarrow> []
     | Some metric \<Rightarrow> (case words (after_split (CHR '':'') line) of
         [] \<Rightarrow> []
       | first # _ \<Rightarrow> (case number first of None \<Rightarrow> []
           | Some kilobytes \<Rightarrow> [\<lparr>smp_metric = metric, smp_value = kilobytes * 1024\<rparr>])))
     (filter (\<lambda>line. CHR '':'' \<in> set line) (lines_of s)))"

definition skipped_interface :: "string \<Rightarrow> bool" where
  "skipped_interface name \<longleftrightarrow> List.member SKIP_IFACES name \<or> list_ex (\<lambda>prefix. starts_with prefix name) SKIP_PREFIXES"

definition parseNetDev :: "string \<Rightarrow> sample list" where
  "parseNetDev s = concat (map (\<lambda>line. let name = trim (fst (splitOnce (CHR '':'') line));
         columns = words (after_split (CHR '':'') line)
       in if skipped_interface name \<or> length columns \<le> TX_BYTES then []
          else case number (columns ! 0) of None \<Rightarrow> []
            | Some received \<Rightarrow> (case number (columns ! TX_BYTES) of None \<Rightarrow> []
              | Some sent \<Rightarrow> [\<lparr>smp_metric = ''net.'' @ name @ ''.rx_bytes'', smp_value = received\<rparr>,
                   \<lparr>smp_metric = ''net.'' @ name @ ''.tx_bytes'', smp_value = sent\<rparr>]))
     (filter (\<lambda>line. CHR '':'' \<in> set line) (drop 2 (lines_of s))))"

definition LOAD_METRICS :: "string list" where
  "LOAD_METRICS = [''load.1m'', ''load.5m'', ''load.15m'', ''procs.running'', ''procs.total'']"

definition parseLoadavg :: "string \<Rightarrow> sample list" where
  "parseLoadavg s = (let columns = words s in
     if length columns < 4 \<or> CHR ''/'' \<notin> set (columns ! 3) then []
     else let readings = map number (take 3 columns @ [fst (splitOnce (CHR ''/'') (columns ! 3)), after_split (CHR ''/'') (columns ! 3)])
       in if list_all (\<lambda>v. v \<noteq> None) readings
          then map (\<lambda>(metric, v). \<lparr>smp_metric = metric, smp_value = v\<rparr>) (zip LOAD_METRICS (somes readings)) else [])"

definition parseUptime :: "string \<Rightarrow> sample list" where
  "parseUptime s = (case words s of [] \<Rightarrow> []
     | first # _ \<Rightarrow> (case number first of None \<Rightarrow> [] | Some v \<Rightarrow> [\<lparr>smp_metric = ''uptime.seconds'', smp_value = v\<rparr>]))"


subsection \<open>\<open>system.ts\<close>\<close>

definition strip_percent :: "string \<Rightarrow> string" where
  \<comment> \<open>\<open>replace(/%+$/, '')\<close>\<close>
  "strip_percent s = rev (dropWhile (\<lambda>c. c = CHR ''%'') (rev s))"

definition strip_slashes :: "string \<Rightarrow> string" where
  \<comment> \<open>\<open>replace(/^\/+/, '')\<close>\<close>
  "strip_slashes s = dropWhile (\<lambda>c. c = CHR ''/'') s"

definition volume_name :: "string \<Rightarrow> string" where
  "volume_name mount = (let name = map (\<lambda>c. if c = CHR ''/'' then CHR ''_'' else c) (strip_slashes mount)
     in if name = [] then ''root'' else name)"

definition df_row :: "string list \<Rightarrow> sample list" where
  "df_row columns = (if length columns \<le> 5 then []
     else case (number (columns ! 1), number (columns ! 2), number (columns ! 3), number (strip_percent (columns ! 4))) of
       (Some total_kb, Some used_kb, Some available_kb, Some capacity) \<Rightarrow> (let name = volume_name (columns ! 5) in
         [\<lparr>smp_metric = ''disk.'' @ name @ ''.total_bytes'', smp_value = total_kb * 1024\<rparr>,
          \<lparr>smp_metric = ''disk.'' @ name @ ''.used_bytes'', smp_value = used_kb * 1024\<rparr>,
          \<lparr>smp_metric = ''disk.'' @ name @ ''.available_bytes'', smp_value = available_kb * 1024\<rparr>,
          \<lparr>smp_metric = ''disk.'' @ name @ ''.used_percent'', smp_value = capacity\<rparr>])
     | _ \<Rightarrow> [])"

definition parseDf :: "string \<Rightarrow> sample list" where
  "parseDf s = concat (map df_row (map words (filter (\<lambda>line. trim line \<noteq> []) (drop 1 (lines_of s)))))"

definition without_suffix :: "string \<Rightarrow> string \<Rightarrow> string" where
  "without_suffix suffix s = (if ends_with suffix s then take (length s - length suffix) s else s)"

definition parseHwmon :: "string \<Rightarrow> sample list" where
  "parseHwmon s = concat (map (\<lambda>columns. if length columns < 2 then []
       else case number (after_split (CHR ''='') (columns ! 1)) of None \<Rightarrow> []
         | Some millidegrees \<Rightarrow> [\<lparr>smp_metric = ''temp.'' @ columns ! 0 @ ''.'' @ without_suffix ''_input'' (fst (splitOnce (CHR ''='') (columns ! 1))),
             smp_value = millidegrees / 1000\<rparr>])
     (map words (filter (\<lambda>line. CHR ''='' \<in> set line) (lines_of s))))"

definition parseInotify :: "string \<Rightarrow> sample list" where
  "parseInotify s = (let readings = js_map (concat (map (\<lambda>line. case number (trim (after_split (CHR ''='') line)) of None \<Rightarrow> []
         | Some v \<Rightarrow> [(fst (splitOnce (CHR ''='') line), v)]) (filter (\<lambda>line. CHR ''='' \<in> set line) (lines_of s))))
     in map (\<lambda>(key, v). \<lparr>smp_metric = ''inotify.'' @ key, smp_value = v\<rparr>) readings @
        ratio_sample ''inotify.instances_used_ratio'' (map_of readings ''instances_in_use'')
          (case map_of readings ''max_user_instances'' of Some v \<Rightarrow> v | None \<Rightarrow> 0))"

definition parseGpuFreq :: "string \<Rightarrow> sample list" where
  "parseGpuFreq s = (case words s of
       current_word # ceiling_word # _ \<Rightarrow> (case (number current_word, number ceiling_word) of
         (Some current, Some most) \<Rightarrow> [\<lparr>smp_metric = ''gpu.freq_mhz'', smp_value = current\<rparr>,
             \<lparr>smp_metric = ''gpu.freq_max_mhz'', smp_value = most\<rparr>] @ ratio_sample ''gpu.freq_ratio'' (Some current) most
       | _ \<Rightarrow> [])
     | _ \<Rightarrow> [])"

subsection \<open>\<open>docker.ts\<close>\<close>

datatype container_health = Healthy | Unhealthy | No_check

record container_state =
  cst_name :: string
  cst_running :: bool
  cst_health :: container_health

record container_view =
  cvw_name :: string
  cvw_up :: bool
  cvw_healthy :: bool
  cvw_has_healthcheck :: bool

definition health_of :: "string \<Rightarrow> container_health" where
  \<comment> \<open>\<open>health\<close>\<close>
  "health_of status = (if text_includes ''(healthy)'' status then Healthy else if text_includes ''(unhealthy)'' status then Unhealthy else No_check)"

definition container_entry :: "json \<Rightarrow> container_state list" where
  "container_entry j = (case fields_of j of None \<Rightarrow> []
     | Some entry \<Rightarrow> (let name = (case field entry ''Names'' of Some (JArr (JStr first # _)) \<Rightarrow> strip_slashes first | _ \<Rightarrow> [])
         in if name = [] then []
            else [\<lparr>cst_name = name, cst_running = (field entry ''State'' = Some (JStr ''running'')),
                   cst_health = health_of (text_or_empty (str_field entry ''Status''))\<rparr>]))"

definition parseContainers :: "json list \<Rightarrow> container_state list" where
  "parseContainers payload = concat (map container_entry payload)"

definition gauge_name :: "string \<Rightarrow> string \<Rightarrow> string" where
  \<comment> \<open>the template of the three names\<close>
  "gauge_name name field_name = ''container.'' @ name @ ''.'' @ field_name"

definition as_gauge :: "bool \<Rightarrow> rat" where
  "as_gauge b = (if b then 1 else 0)"

definition gauges_of :: "container_state \<Rightarrow> sample list" where
  "gauges_of s =
     [\<lparr>smp_metric = gauge_name (cst_name s) ''up'', smp_value = as_gauge (cst_running s)\<rparr>,
      \<lparr>smp_metric = gauge_name (cst_name s) ''healthy'', smp_value = as_gauge (cst_health s = Healthy \<and> cst_running s)\<rparr>,
      \<lparr>smp_metric = gauge_name (cst_name s) ''has_healthcheck'', smp_value = as_gauge (cst_health s \<noteq> No_check)\<rparr>]"

definition toSamples :: "container_state list \<Rightarrow> sample list" where
  "toSamples states = concat (map gauges_of states)"

definition FIELDS :: "string list" where
  "FIELDS = [''up'', ''healthy'', ''has_healthcheck'']"

definition names_in :: "string \<Rightarrow> string list" where
  \<comment> \<open>the container names one metric name speaks of\<close>
  "names_in metric = map (\<lambda>f. without_suffix (''.'' @ f) (drop 10 metric))
     (filter (\<lambda>f. starts_with ''container.'' metric \<and> ends_with (''.'' @ f) metric) FIELDS)"

definition fromSamples :: "(string \<times> rat) list \<Rightarrow> container_view list" where
  "fromSamples metrics = map (\<lambda>name. \<lparr>cvw_name = name,
       cvw_up = (map_of metrics (gauge_name name ''up'') = Some 1),
       cvw_healthy = (map_of metrics (gauge_name name ''healthy'') = Some 1),
       cvw_has_healthcheck = (map_of metrics (gauge_name name ''has_healthcheck'') = Some 1)\<rparr>)
     (sort (js_set (concat (map names_in (map fst metrics)))))"


subsection \<open>Text\<close>

lemma ends_with_append [simp]: "ends_with p (s @ p)"
  by (simp add: ends_with_def)

lemma ends_with_last: "ends_with p s \<Longrightarrow> p \<noteq> [] \<Longrightarrow> last p = last s"
  by (metis ends_with_def last_drop drop_all leI)

lemma without_suffix_append [simp]: "without_suffix p (s @ p) = s"
  by (simp add: without_suffix_def)

lemma sort_js_set: "sort (js_set xs) = sorted_list_of_set (set xs)"
  by (metis distinct_js_set distinct_sorted_list_of_set set_js_set sorted_list_of_set_sort_remdups distinct_remdups_id)

subsection \<open>Containers come back as they were seen\<close>

lemma names_in_other [simp]: "\<not> starts_with ''container.'' metric \<Longrightarrow> names_in metric = []"
  by (simp add: names_in_def)

lemma gauge_ends: "ends_with (''.'' @ f) (''container.'' @ name @ ''.'' @ g) \<Longrightarrow> f \<noteq> [] \<Longrightarrow> g \<noteq> [] \<Longrightarrow> last f = last g"
  using ends_with_last [of "''.'' @ f" "''container.'' @ name @ ''.'' @ g"] by simp

lemma names_in_gauge [simp]:
  assumes "f \<in> set FIELDS"
  shows "names_in (gauge_name name f) = [name]"
proof -
  have own: "ends_with (''.'' @ f) (gauge_name name f)"
    using ends_with_append [of "''.'' @ f" "''container.'' @ name"] by (simp add: gauge_name_def)
  have others: "\<not> ends_with (''.'' @ g) (gauge_name name f)" if "g \<in> set FIELDS" "g \<noteq> f" for g
    using gauge_ends [of g name f] that assms by (auto simp: FIELDS_def gauge_name_def)
  have here: "starts_with ''container.'' (gauge_name name f)" by (simp add: gauge_name_def starts_with_def)
  have "filter (\<lambda>g. starts_with ''container.'' (gauge_name name f) \<and> ends_with (''.'' @ g) (gauge_name name f)) FIELDS
      = filter (\<lambda>g. g = f) FIELDS"
    by (rule filter_cong [OF refl]) (use own others here in blast)
  also have "\<dots> = [f]" using assms by (auto simp: FIELDS_def)
  finally have listed: "filter (\<lambda>g. starts_with ''container.'' (gauge_name name f) \<and> ends_with (''.'' @ g) (gauge_name name f)) FIELDS = [f]" .
  have "without_suffix (''.'' @ f) (drop 10 (gauge_name name f)) = name"
    using without_suffix_append [of "''.'' @ f" name] by (simp add: gauge_name_def)
  then show ?thesis unfolding names_in_def listed by simp
qed

lemma gauge_name_eq [simp]: "gauge_name a f = gauge_name b f \<longleftrightarrow> a = b"
  by (simp add: gauge_name_def)

lemma gauge_name_field: "gauge_name a f = gauge_name b g \<Longrightarrow> f \<in> set FIELDS \<Longrightarrow> g \<in> set FIELDS \<Longrightarrow> f = g \<and> a = b"
  by (metis names_in_gauge gauge_name_def append_same_eq gauge_ends ends_with_append list.inject append.assoc same_append_eq)

text \<open>What a reader is told of one container.\<close>

definition view_of :: "container_state \<Rightarrow> container_view" where
  "view_of s = \<lparr>cvw_name = cst_name s, cvw_up = cst_running s, cvw_healthy = (cst_health s = Healthy \<and> cst_running s),
     cvw_has_healthcheck = (cst_health s \<noteq> No_check)\<rparr>"

lemma as_gauge_1 [simp]: "as_gauge b = 1 \<longleftrightarrow> b"
  by (simp add: as_gauge_def)

lemma fromSamples_exact:
  assumes "distinct (map cst_name states)"
    "\<And>s g. s \<in> set states \<Longrightarrow> g \<in> set (gauges_of s) \<Longrightarrow> map_of metrics (smp_metric g) = Some (smp_value g)"
    "\<And>m. m \<in> fst ` set metrics \<Longrightarrow> starts_with ''container.'' m \<Longrightarrow> \<exists>s\<in>set states. m \<in> smp_metric ` set (gauges_of s)"
  shows "fromSamples metrics = map view_of (sort_key cst_name states)"
proof -
  have named: "names_in (smp_metric g) = [cst_name s]" if "g \<in> set (gauges_of s)" for g s
    using that by (auto simp: gauges_of_def intro!: names_in_gauge simp: FIELDS_def)
  have "set (concat (map names_in (map fst metrics))) = cst_name ` set states"
  proof
    show "set (concat (map names_in (map fst metrics))) \<subseteq> cst_name ` set states"
    proof
      fix n assume "n \<in> set (concat (map names_in (map fst metrics)))"
      then obtain m where m: "m \<in> fst ` set metrics" "n \<in> set (names_in m)" by auto
      then have "starts_with ''container.'' m" by (cases "starts_with ''container.'' m") auto
      then obtain s g where "s \<in> set states" "g \<in> set (gauges_of s)" "m = smp_metric g" 
        using assms(3) [OF m(1)] by (auto simp only: image_iff)
      then show "n \<in> cst_name ` set states" using m(2) named by auto
    qed
    show "cst_name ` set states \<subseteq> set (concat (map names_in (map fst metrics)))"
    proof
      fix n assume "n \<in> cst_name ` set states"
      then obtain s where s: "s \<in> set states" "n = cst_name s" by auto
      then have g: "hd (gauges_of s) \<in> set (gauges_of s)" by (simp add: gauges_of_def)
      then have "(smp_metric (hd (gauges_of s)), smp_value (hd (gauges_of s))) \<in> set metrics"
        using assms(2) [OF s(1)] by (blast dest: map_of_SomeD)
      then show "n \<in> set (concat (map names_in (map fst metrics)))" using named [OF g] s(2) by force
    qed
  qed
  then have names: "sort (js_set (concat (map names_in (map fst metrics)))) = map cst_name (sort_key cst_name states)"
    unfolding sort_js_set using assms(1)
    by (metis set_map set_sort sorted_sort_key distinct_map distinct_sort sorted_list_of_set_unique sorted_list_of_set.idem_if_sorted_distinct inj_on_def)
  have shown: "\<lparr>cvw_name = cst_name s, cvw_up = (map_of metrics (gauge_name (cst_name s) ''up'') = Some 1),
       cvw_healthy = (map_of metrics (gauge_name (cst_name s) ''healthy'') = Some 1),
       cvw_has_healthcheck = (map_of metrics (gauge_name (cst_name s) ''has_healthcheck'') = Some 1)\<rparr> = view_of s"
    if "s \<in> set states" for s
  proof -
    have "list_all (\<lambda>g. map_of metrics (smp_metric g) = Some (smp_value g)) (gauges_of s)"
      using assms(2) [OF that] by (simp add: list_all_iff)
    then show ?thesis by (simp add: gauges_of_def view_of_def)
  qed
  show ?thesis unfolding fromSamples_def names by (simp add: shown)
qed


definition gauge_pairs :: "container_state list \<Rightarrow> (string \<times> rat) list" where
  "gauge_pairs states = map (\<lambda>s. (smp_metric s, smp_value s)) (toSamples states)"

lemma gauge_pairs_unique:
  assumes "distinct (map cst_name states)" "s \<in> set states" "g \<in> set (gauges_of s)" "(smp_metric g, v) \<in> set (gauge_pairs states)"
  shows "v = smp_value g"
proof -
  obtain t h where t: "t \<in> set states" "h \<in> set (gauges_of t)" "smp_metric h = smp_metric g" "v = smp_value h"
    using assms(4) by (auto simp: gauge_pairs_def toSamples_def)
  have "cst_name t = cst_name s"
    using t(2,3) assms(3) gauge_name_field [of "cst_name t" _ "cst_name s"] by (auto simp: gauges_of_def FIELDS_def)
  then have "t = s" using assms(1,2) t(1) by (auto simp: distinct_map inj_on_def)
  then show ?thesis using t assms(3) by (auto simp: gauges_of_def gauge_name_def)
qed

text \<open>C23: The gauges a round of Docker checks stores give back what it saw. Whatever else a host reports beside
  them, the reader lists exactly the containers the endpoint answered, sorted by name, each up, healthy and with a
  health check precisely as it was answered.\<close>

theorem containers_round_trip:
  assumes "distinct (map cst_name states)" "list_all (\<lambda>(metric, _). \<not> starts_with ''container.'' metric) others"
  shows "fromSamples (js_map (others @ map (\<lambda>s. (smp_metric s, smp_value s)) (toSamples states))) = map view_of (sort_key cst_name states)"
  unfolding gauge_pairs_def [symmetric]
proof (rule fromSamples_exact [OF assms(1)])
  fix s g assume sg: "s \<in> set states" "g \<in> set (gauges_of s)"
  have "starts_with ''container.'' (smp_metric g)" using sg(2) by (auto simp: gauges_of_def gauge_name_def starts_with_def)
  then have own: "v = smp_value g" if "(smp_metric g, v) \<in> set (others @ gauge_pairs states)" for v
    using that gauge_pairs_unique [OF assms(1) sg] assms(2) by (auto simp: list_all_iff)
  have "(smp_metric g, smp_value g) \<in> set (gauge_pairs states)" using sg by (auto simp: gauge_pairs_def toSamples_def)
  then obtain v where v: "map_of (rev (others @ gauge_pairs states)) (smp_metric g) = Some v"
    by (metis weak_map_of_SomeI set_rev Un_iff set_append)
  then have "v = smp_value g" using own map_of_SomeD [OF v] by (metis set_rev)
  then show "map_of (js_map (others @ gauge_pairs states)) (smp_metric g) = Some (smp_value g)" using v by (simp add: map_of_js_map)
next
  fix m assume "m \<in> fst ` set (js_map (others @ gauge_pairs states))" "starts_with ''container.'' m"
  then show "\<exists>s\<in>set states. m \<in> smp_metric ` set (gauges_of s)"
    unfolding keys_js_map using assms(2) by (fastforce simp: list_all_iff gauge_pairs_def toSamples_def)
qed

lemma containers_round_trip_witness:
  "fromSamples (js_map ([(''load.1m'', 2)] @ map (\<lambda>s. (smp_metric s, smp_value s)) (toSamples
     [\<lparr>cst_name = ''sonarr'', cst_running = True, cst_health = No_check\<rparr>, \<lparr>cst_name = ''plex.up'', cst_running = False, cst_health = Healthy\<rparr>])))
   = [\<lparr>cvw_name = ''plex.up'', cvw_up = False, cvw_healthy = False, cvw_has_healthcheck = True\<rparr>,
      \<lparr>cvw_name = ''sonarr'', cvw_up = True, cvw_healthy = False, cvw_has_healthcheck = False\<rparr>]"
proof -
  let ?states = "[\<lparr>cst_name = ''sonarr'', cst_running = True, cst_health = No_check\<rparr>, \<lparr>cst_name = ''plex.up'', cst_running = False, cst_health = Healthy\<rparr>]"
  have "\<not> starts_with ''container.'' ''load.1m''" by code_simp
  then have "fromSamples (js_map ([(''load.1m'', 2)] @ map (\<lambda>s. (smp_metric s, smp_value s)) (toSamples ?states))) = map view_of (sort_key cst_name ?states)"
    by (intro containers_round_trip) simp_all
  also have "sort_key cst_name ?states = rev ?states" by code_simp
  finally show ?thesis by (simp add: view_of_def)
qed



subsection \<open>Sections come back as they were printed\<close>

fun quiet :: "bool \<Rightarrow> string \<Rightarrow> bool" where
  \<comment> \<open>no line of the text starts with the mark of a section\<close>
  "quiet at_start [] = True"
| "quiet at_start (c # s) = (\<not> (at_start \<and> starts_with ''###'' (c # s)) \<and> quiet (code_of c = 10) s)"

definition whole_lines :: "string \<Rightarrow> bool" where
  "whole_lines s \<longleftrightarrow> s = [] \<or> last s = CHR 0x0A"

definition section_text :: "string \<times> string \<Rightarrow> string" where
  "section_text = (\<lambda>(name, body). ''###'' @ name @ [CHR 0x0A] @ body)"

definition section_ok :: "string \<times> string \<Rightarrow> bool" where
  "section_ok = (\<lambda>(name, body). name \<noteq> [] \<and> trim name = name \<and> CHR 0x0A \<notin> set name \<and> quiet True body \<and> whole_lines body)"

lemma code_newline [simp]: "code_of c = 10 \<longleftrightarrow> c = CHR 0x0A"
proof
  assume "code_of c = 10"
  then have "c = char_of (10 :: nat)" by (rule code_of_eq)
  also have "char_of (10 :: nat) = CHR 0x0A" by code_simp
  finally show "c = CHR 0x0A" .
qed (simp add: code_of_def)

lemma split_sentinel_nonempty [simp]: "split_sentinel at_start s \<noteq> []"
  by (induction at_start s rule: split_sentinel.induct) (auto split: list.splits)

lemma marks_fit: "starts_with ''###'' (b @ t) \<Longrightarrow> b \<noteq> [] \<Longrightarrow> last b = CHR 0x0A \<Longrightarrow> starts_with ''###'' b"
  by (cases b rule: remdups_adj.cases) (auto simp: starts_with_def take_Cons' neq_Nil_conv split: if_splits list.splits)

lemma split_quiet: "quiet at_start b \<Longrightarrow> whole_lines b \<Longrightarrow> b \<noteq> [] \<Longrightarrow>
   split_sentinel at_start (b @ t) = (b @ hd (split_sentinel True t)) # tl (split_sentinel True t)"
proof (induction b arbitrary: at_start)
  case Nil
  then show ?case by simp
next
  case (Cons c s)
  have no_mark: "\<not> (at_start \<and> starts_with ''###'' (c # s @ t))"
    using Cons.prems marks_fit [of "c # s" t] by (auto simp: whole_lines_def)
  show ?case
  proof (cases "s = []")
    case True
    then have "c = CHR 0x0A" using Cons.prems by (simp add: whole_lines_def)
    then show ?thesis using True no_mark by (cases "split_sentinel True t") simp_all
  next
    case False
    then have "split_sentinel (code_of c = 10) (s @ t) = (s @ hd (split_sentinel True t)) # tl (split_sentinel True t)"
      by (intro Cons.IH) (use Cons.prems in \<open>auto simp: whole_lines_def\<close>)
    then show ?thesis using no_mark by simp
  qed
qed

lemma split_name: "CHR 0x0A \<notin> set name \<Longrightarrow> split_sentinel False (name @ CHR 0x0A # t)
   = (name @ CHR 0x0A # hd (split_sentinel True t)) # tl (split_sentinel True t)"
proof (induction name)
  case Nil
  then show ?case by (cases "split_sentinel True t") simp_all
next
  case (Cons c s)
  then show ?case by auto
qed

lemma split_section:
  assumes "section_ok s"
  shows "split_sentinel True (section_text s @ t)
    = [] # (fst s @ CHR 0x0A # snd s @ hd (split_sentinel True t)) # tl (split_sentinel True t)"
proof -
  obtain name body where s: "s = (name, body)" by (cases s)
  have "split_sentinel True (section_text s @ t) = [] # split_sentinel False (name @ CHR 0x0A # (body @ t))"
    by (simp add: s section_text_def starts_with_def)
  also have "split_sentinel False (name @ CHR 0x0A # (body @ t))
      = (name @ CHR 0x0A # hd (split_sentinel True (body @ t))) # tl (split_sentinel True (body @ t))"
    by (rule split_name) (use assms in \<open>simp add: s section_ok_def\<close>)
  finally show ?thesis
    using assms split_quiet [of True body t] by (cases "body = []") (simp_all add: s section_ok_def)
qed

lemma split_sections: "list_all section_ok secs \<Longrightarrow>
   split_sentinel True (concat (map section_text secs)) = [] # map (\<lambda>s. fst s @ CHR 0x0A # snd s) secs"
  by (induction secs) (simp_all add: split_section)

lemma section_of_chunk: "section_ok s \<Longrightarrow> section_of (fst s @ CHR 0x0A # snd s) = s"
proof -
  assume ok: "section_ok s"
  then have "\<forall>c\<in>set (fst s). c \<noteq> CHR 0x0A" by (auto simp: section_ok_def split: prod.splits)
  then show ?thesis using ok by (simp add: section_of_def section_ok_def takeWhile_append dropWhile_append split: prod.splits)
qed

text \<open>C24: One answer carries every section apart. When each section is printed as its mark, its name on that line
  and its body in whole lines none of which starts with a mark, cutting the answer up gives back exactly the
  sections printed, names and bodies unchanged and in order, an empty body included, whatever lines of
  chatter came before the first.\<close>

theorem sections_round_trip:
  assumes "list_all section_ok secs" "distinct_keys secs" "quiet True banner" "whole_lines banner"
  shows "splitSections (banner @ concat (map section_text secs)) = secs"
proof -
  have "drop 1 (split_sentinel True (banner @ concat (map section_text secs))) = map (\<lambda>s. fst s @ CHR 0x0A # snd s) secs"
    using assms(1,3,4) split_quiet [of True banner "concat (map section_text secs)"]
    by (cases "banner = []") (simp_all add: split_sections)
  moreover have "map section_of (map (\<lambda>s. fst s @ CHR 0x0A # snd s) secs) = secs"
    using assms(1) by (simp add: list_all_iff section_of_chunk map_idI)
  moreover have "filter (\<lambda>(name, _). name \<noteq> []) secs = secs"
    using assms(1) by (auto simp: list_all_iff section_ok_def filter_id_conv)
  ultimately show ?thesis using assms(2) by (simp add: splitSections_def js_map_distinct)
qed

lemma sections_round_trip_witness:
  "splitSections (''Welcome'' @ [CHR 0x0A] @ ''###uptime'' @ [CHR 0x0A] @ ''12.5 ###'' @ [CHR 0x0A] @ ''###gpu'' @ [CHR 0x0A])
   = [(''uptime'', ''12.5 ###'' @ [CHR 0x0A]), (''gpu'', [])]"
proof -
  let ?secs = "[(''uptime'', ''12.5 ###'' @ [CHR 0x0A]), (''gpu'', [])]"
  have "list_all section_ok ?secs" "distinct_keys ?secs" "quiet True (''Welcome'' @ [CHR 0x0A])" "whole_lines (''Welcome'' @ [CHR 0x0A])"
    by code_simp+
  from sections_round_trip [OF this] show ?thesis by (simp add: section_text_def)
qed



subsection \<open>Numbers\<close>

lemma digit_not_space: "is_digit c \<Longrightarrow> \<not> is_space c"
  by (auto simp: is_digit_def is_space_def)

lemma trim_digits: "list_all is_digit s \<Longrightarrow> trim s = s"
proof -
  assume d: "list_all is_digit s"
  then have "dropWhile is_space s = s" by (cases s) (auto simp: digit_not_space)
  moreover have "dropWhile is_space (rev s) = rev s"
    using d by (cases "rev s") (auto simp: digit_not_space list_all_iff dest: arg_cong [of _ _ set])
  ultimately show ?thesis by (simp add: trim_def)
qed

text \<open>A whole number printed in digits is read as itself.\<close>

lemma number_of_digits:
  assumes "list_all is_digit s" "s \<noteq> []" "(of_nat (read_nat s) :: rat) < 2 ^ 1024 - 2 ^ 970"
  shows "number s = Some (of_nat (read_nat s))"
proof -
  obtain c r where s: "s = c # r" using assms(2) by (cases s) auto
  then have c: "is_digit c" "c \<noteq> CHR ''-''" "c \<noteq> CHR ''+''" using assms(1) by (auto simp: is_digit_def code_of_def)
  have digits_only: "takeWhile is_digit r = r" "dropWhile is_digit r = []" using assms(1) by (auto simp: s list_all_iff takeWhile_eq_all_conv)
  moreover have "trim (c # r) = c # r" using trim_digits [OF assms(1)] by (simp add: s)
  ultimately have "float_token s = Some (of_nat (read_nat s))"
    using c by (simp add: float_token_def s read_exponent_def digits_only Let_def)
  then show ?thesis using assms(3) by (simp add: number_def)
qed

end
