(* ===== verification/Transport.thy ===== *)
theory Transport imports Probes begin

text \<open>
  How the monitor judges what reached it (\<open>apps/fleet-monitor/src/transport/ssh.ts\<close>, \<open>http.ts\<close>): the outcome of
  one ssh run or one GET, and the reason there is none. Starting a process, the wire and \<open>JSON.parse\<close> are
  parameters; an error is the tree of causes Node reports, with the fields the code reads.
\<close>

datatype ssh_result = Ssh_ok string | Ssh_failed string

datatype http_result = Http_ok json | Http_failed string

subsection \<open>\<open>ssh.ts\<close>\<close>

definition REASONS :: "(string \<times> string) list" where
  "REASONS = [(''timed out'', ''timeout''), (''Permission denied'', ''auth''), (''Host key verification failed'', ''auth''),
     (''Connection refused'', ''refused''), (''No route to host'', ''unreachable''), (''Network is unreachable'', ''unreachable'')]"

definition ssh_classify :: "int \<Rightarrow> string \<Rightarrow> string" where
  \<comment> \<open>\<open>classify\<close>\<close>
  "ssh_classify returncode stderr = (if returncode = 0 then []
     else if returncode \<noteq> 255 then ''command_failed''
     else case List.find (\<lambda>(needle, _). text_includes needle stderr) REASONS of
         Some (_, reason) \<Rightarrow> reason | None \<Rightarrow> ''ssh_error'')"

definition buildArgv :: "string \<Rightarrow> string \<Rightarrow> string \<Rightarrow> nat \<Rightarrow> string list" where
  "buildArgv host_address user controlDir timeout = [''ssh'', ''-oLogLevel=ERROR'', ''-oBatchMode=yes'',
     ''-oStrictHostKeyChecking=accept-new'', ''-oControlMaster=auto'', ''-oControlPath='' @ controlDir @ ''/%r@%h:%p'',
     ''-oControlPersist=300'', ''-oConnectTimeout='' @ show_nat timeout, user @ ''@'' @ host_address, ''bash -s'']"

definition returncode_of :: "int option \<Rightarrow> nat option \<Rightarrow> int" where
  \<comment> \<open>the exit status, or the number of the signal that ended the process, negated\<close>
  "returncode_of code signal = (case code of Some c \<Rightarrow> c | None \<Rightarrow> (case signal of None \<Rightarrow> 0 | Some n \<Rightarrow> - int n))"

datatype ssh_outcome =
    Not_started                                  \<comment> \<open>\<open>start\<close> answered null\<close>
  | Deadline_passed                              \<comment> \<open>\<open>within\<close> answered null\<close>
  | Closed_with (out_text: string) (err_text: string) (exit_code: "int option") (exit_signal: "nat option")

definition capture :: "ssh_outcome \<Rightarrow> ssh_result" where
  "capture ended = (case ended of
     Not_started \<Rightarrow> Ssh_failed ''spawn_error''
   | Deadline_passed \<Rightarrow> Ssh_failed ''timeout''
   | Closed_with stdout stderr code signal \<Rightarrow> (let reason = ssh_classify (returncode_of code signal) stderr
       in if reason \<noteq> [] then Ssh_failed reason else Ssh_ok stdout))"

subsection \<open>\<open>http.ts\<close>\<close>

datatype net_error = Net_error
  (err_name: string)
  (err_code: "string option")
  (err_syscall: "string option")
  (err_noname: bool)               \<comment> \<open>\<open>getSystemErrorName(errno) === 'EAI_NONAME'\<close>\<close>
  (err_parts: "net_error list")    \<comment> \<open>the errors of an \<open>AggregateError\<close>\<close>
  (err_cause: "net_error option")

fun failures :: "net_error \<Rightarrow> net_error list" where
  "failures (Net_error n c s e parts cause) = Net_error n c s e parts cause # concat (map failures parts) @
     (case cause of None \<Rightarrow> [] | Some beneath \<Rightarrow> failures beneath)"

definition TIMEOUT_CODES :: "string list" where
  "TIMEOUT_CODES = [''ETIMEDOUT'', ''UND_ERR_CONNECT_TIMEOUT'', ''UND_ERR_HEADERS_TIMEOUT'', ''UND_ERR_BODY_TIMEOUT'']"

definition TLS_FAILURE :: "string \<Rightarrow> bool" where
  "TLS_FAILURE code \<longleftrightarrow> list_ex (\<lambda>p. starts_with p code)
     [''ERR_TLS_'', ''ERR_SSL_'', ''CERT_'', ''UNABLE_TO_'', ''DEPTH_ZERO_'', ''SELF_SIGNED_'']"

definition isTimeout :: "net_error \<Rightarrow> bool" where
  "isTimeout e \<longleftrightarrow> err_name e = ''TimeoutError'' \<or> (case err_code e of None \<Rightarrow> False | Some code \<Rightarrow> List.member TIMEOUT_CODES code)"

definition isConnectFailure :: "net_error \<Rightarrow> bool" where
  "isConnectFailure e \<longleftrightarrow> err_syscall e = Some ''connect'' \<or> err_syscall e = Some ''getaddrinfo'' \<or>
     (case err_code e of None \<Rightarrow> False | Some code \<Rightarrow> TLS_FAILURE code)"

definition isUnknownName :: "net_error \<Rightarrow> bool" where
  "isUnknownName e \<longleftrightarrow> err_syscall e = Some ''getaddrinfo'' \<and> err_noname e"

definition http_classify :: "net_error \<Rightarrow> string" where
  \<comment> \<open>\<open>classify\<close>\<close>
  "http_classify e = (let causes = failures e; connect = filter isConnectFailure causes in
     if list_ex isTimeout causes then ''timeout''
     else if connect = [] then ''transport_error''
     else if list_ex isUnknownName connect then ''dns'' else ''refused'')"

definition judge :: "(string \<Rightarrow> json option) \<Rightarrow> int \<times> string \<Rightarrow> http_result" where
  "judge JSON_parse answer = (let (status, body) = answer in
     if status < 200 \<or> status \<ge> 300 then Http_failed (''http_'' @ show_int status)
     else case JSON_parse body of Some payload \<Rightarrow> Http_ok payload | None \<Rightarrow> Http_failed ''bad_json'')"

definition getJson :: "(string \<Rightarrow> json option) \<Rightarrow> bool \<Rightarrow> bool \<Rightarrow> net_error + (int \<times> string) \<Rightarrow> exn + http_result" where
  \<comment> \<open>the flags are whether the deadline has passed and whether the caller's signal has aborted when the request settles\<close>
  "getJson JSON_parse deadline_aborted signal_aborted settled =
     (let result = (case settled of
          Inr answer \<Rightarrow> judge JSON_parse answer
        | Inl e \<Rightarrow> Http_failed (if deadline_aborted then ''timeout'' else http_classify e))
      in if signal_aborted then Inl (Failure ''AbortError'') else Inr result)"

subsection \<open>Names of failures\<close>

lemma capture_ok: "capture ended = Ssh_ok stdout \<longleftrightarrow> (\<exists>stderr code signal. ended = Closed_with stdout stderr code signal \<and> returncode_of code signal = 0)"
  by (auto simp: capture_def ssh_classify_def REASONS_def Let_def split: ssh_outcome.splits option.splits if_splits)

text \<open>Only a process that never started is not the host's failure.\<close>

lemma capture_spawn: "capture ended = Ssh_failed ''spawn_error'' \<longleftrightarrow> ended = Not_started"
  by (auto simp: capture_def ssh_classify_def REASONS_def Let_def split: ssh_outcome.splits option.splits if_splits)

lemma failures_self: "e \<in> set (failures e)"
  by (cases e) simp

lemma http_classify_names: "http_classify e \<in> {''timeout'', ''transport_error'', ''dns'', ''refused''}"
  by (simp add: http_classify_def Let_def)

text \<open>What \<open>fetch\<close> wraps keeps its name.\<close>

lemma http_classify_cause:
  "name \<noteq> ''TimeoutError'' \<Longrightarrow> http_classify (Net_error name None None False [] (Some e)) = http_classify e"
  by (simp add: http_classify_def isTimeout_def isConnectFailure_def Let_def)

end
