(* ===== verification/Collector.thy ===== *)
theory Collector imports Transport begin

text \<open>
  The monitor's collector (\<open>apps/fleet-monitor/src/collector.ts\<close>, with \<open>tasks.ts\<close> and \<open>retention.ts\<close>): what one
  answer of a host or of its Docker endpoint writes, a round over the fleet, and the rounds one after another.
  What a host or an endpoint answers is a parameter. A unit of work is one transaction: when it throws, nothing
  of it is kept. Log lines, the worker thread and the abort of a wait are left out.
\<close>

subsection \<open>Operations\<close>

record fleet_host =
  hst_name :: string
  hst_ip :: string
  hst_has_gpu :: bool
  hst_docker_url :: string
  hst_plex_url :: string

type_synonym parser = "string \<Rightarrow> exn + sample list"

definition SLOW_INTERVAL :: int where
  "SLOW_INTERVAL = 900"

definition PARSERS :: "(string \<times> parser) list" where
  "PARSERS = [(''stat'', Inr \<circ> parseStat), (''meminfo'', Inr \<circ> parseMeminfo), (''netdev'', Inr \<circ> parseNetDev),
     (''loadavg'', Inr \<circ> parseLoadavg), (''uptime'', Inr \<circ> parseUptime), (''gpu'', Inr \<circ> parseGpuFreq), (''df'', Inr \<circ> parseDf),
     (''hwmon'', Inr \<circ> parseHwmon), (''inotify'', Inr \<circ> parseInotify)]"

definition SLOW_EVERY :: int where
  "SLOW_EVERY = SLOW_INTERVAL div VITALS_INTERVAL"

definition NOT_OBSERVED :: "string list" where
  "NOT_OBSERVED = [''spawn_error'']"

definition sectionSamples :: "parser \<Rightarrow> string \<Rightarrow> sample list" where
  "sectionSamples parse body = (case parse body of Inr samples \<Rightarrow> samples | Inl _ \<Rightarrow> [])"

definition samplesFromSections :: "(string \<times> string) list \<Rightarrow> (string \<times> parser) list \<Rightarrow> sample list" where
  "samplesFromSections sections parsers = concat (map (\<lambda>(name, parse).
     case map_of sections name of Some body \<Rightarrow> sectionSamples parse body | None \<Rightarrow> []) parsers)"

definition session :: "(fleet_db \<Rightarrow> exn + (fleet_db \<times> 'a)) \<Rightarrow> fleet_db \<Rightarrow> fleet_db \<times> (exn + 'a)" where
  "session work d = (case work d of Inl e \<Rightarrow> (d, Inl e) | Inr (d', a) \<Rightarrow> (d', Inr a))"

definition writeSections :: "string \<Rightarrow> int \<Rightarrow> string \<Rightarrow> fleet_db \<Rightarrow> fleet_db \<times> nat" where
  "writeSections host_name moment stdout d =
     writeSamples (''host:'' @ host_name) moment (samplesFromSections (splitSections stdout) PARSERS) d"

definition check_threshold :: int where
  \<comment> \<open>the default of \<open>record\<close>\<close>
  "check_threshold = 2"

definition record_in :: "check_result \<Rightarrow> int \<Rightarrow> fleet_db \<Rightarrow> exn + (fleet_db \<times> verdict option)" where
  \<comment> \<open>\<open>incidents.record\<close> on the file both tables live in\<close>
  "record_in result moment d = (case record_check check_threshold COVERAGE_GAP_SECONDS result moment (fd_checks d) of
     Inl e \<Rightarrow> Inl e | Inr (checks, v) \<Rightarrow> Inr (d\<lparr>fd_checks := checks\<rparr>, v))"

definition host_check :: "string \<Rightarrow> ssh_result \<Rightarrow> nat \<Rightarrow> check_result" where
  "host_check host_name result written = \<lparr>chk_target = ''host:'' @ host_name,
     chk_ok = (case result of Ssh_ok _ \<Rightarrow> 0 < written | Ssh_failed _ \<Rightarrow> False),
     chk_reason = (case result of Ssh_failed reason \<Rightarrow> reason | Ssh_ok _ \<Rightarrow> if 0 < written then [] else ''empty_payload'')\<rparr>"

definition collectHost :: "string \<Rightarrow> int \<Rightarrow> ssh_result \<Rightarrow> fleet_db \<Rightarrow> fleet_db \<times> (exn + check_result list)" where
  "collectHost host_name moment result d = (case result of
     Ssh_failed reason \<Rightarrow> if List.member NOT_OBSERVED reason then (d, Inr [])
       else session (\<lambda>d. case record_in (host_check host_name result 0) moment d of
           Inl e \<Rightarrow> Inl e | Inr (d', _) \<Rightarrow> Inr (d', [host_check host_name result 0])) d
   | Ssh_ok stdout \<Rightarrow> session (\<lambda>d. let (d1, written) = writeSections host_name moment stdout d in
         case record_in (host_check host_name result written) moment d1 of
           Inl e \<Rightarrow> Inl e | Inr (d', _) \<Rightarrow> Inr (d', [host_check host_name result written])) d)"

definition collectSlow :: "string \<Rightarrow> int \<Rightarrow> ssh_result \<Rightarrow> fleet_db \<Rightarrow> fleet_db" where
  "collectSlow host_name moment result d = (case result of
     Ssh_failed _ \<Rightarrow> d | Ssh_ok stdout \<Rightarrow> fst (writeSections host_name moment stdout d))"

definition containerCheck :: "string \<Rightarrow> container_state \<Rightarrow> check_result" where
  "containerCheck host_name state = (let reason = (if \<not> cst_running state then ''not_running''
       else if cst_health state = Unhealthy then ''unhealthy'' else [])
     in \<lparr>chk_target = ''container:'' @ host_name @ ''/'' @ cst_name state, chk_ok = (reason = []), chk_reason = reason\<rparr>)"

definition endpointOnly :: "string \<Rightarrow> int \<Rightarrow> string \<Rightarrow> fleet_db \<Rightarrow> fleet_db \<times> (exn + check_result list)" where
  "endpointOnly host_name moment reason d = (let check = \<lparr>chk_target = ''docker:'' @ host_name, chk_ok = False, chk_reason = reason\<rparr> in
     session (\<lambda>d. case record_in check moment d of Inl e \<Rightarrow> Inl e | Inr (d', _) \<Rightarrow> Inr (d', [check])) d)"

fun record_each :: "check_result list \<Rightarrow> int \<Rightarrow> fleet_db \<Rightarrow> exn + fleet_db" where
  "record_each [] moment d = Inr d"
| "record_each (check # checks) moment d = (case record_in check moment d of
     Inl e \<Rightarrow> Inl e | Inr (d', _) \<Rightarrow> record_each checks moment d')"

definition collectContainers :: "fleet_host \<Rightarrow> int \<Rightarrow> http_result \<Rightarrow> fleet_db \<Rightarrow> fleet_db \<times> (exn + check_result list)" where
  "collectContainers h moment response d = (if hst_docker_url h = [] then (d, Inr [])
     else case response of
       Http_failed reason \<Rightarrow> endpointOnly (hst_name h) moment reason d
     | Http_ok (JArr payload) \<Rightarrow>
         (let states = parseContainers payload;
              checks = \<lparr>chk_target = ''docker:'' @ hst_name h, chk_ok = True, chk_reason = []\<rparr> # map (containerCheck (hst_name h)) states
          in session (\<lambda>d. case record_each checks moment (fst (writeSamples (''host:'' @ hst_name h) moment (toSamples states) d)) of
               Inl e \<Rightarrow> Inl e
             | Inr d' \<Rightarrow> Inr (d'\<lparr>fd_checks := fst (retireAbsent (''container:'' @ hst_name h @ ''/'') (js_set (map cst_name states)) moment
                 (fd_checks d'))\<rparr>, checks)) d)
     | Http_ok _ \<Rightarrow> endpointOnly (hst_name h) moment ''bad_json'' d)"

subsection \<open>A round\<close>

datatype activity =
    Vitals (act_host: fleet_host) (act_ssh: ssh_result)
  | Docker (act_host: fleet_host) (act_http: http_result)
  | Slow (act_host: fleet_host) (act_ssh: ssh_result)
  | Heartbeat
  | Prune

definition perform :: "int \<Rightarrow> activity \<Rightarrow> fleet_db \<Rightarrow> fleet_db \<times> (exn + check_result list)" where
  "perform moment act d = (case act of
     Vitals h result \<Rightarrow> collectHost (hst_name h) moment result d
   | Docker h response \<Rightarrow> collectContainers h moment response d
   | Slow h result \<Rightarrow> (collectSlow (hst_name h) moment result d, Inr [])
   | Heartbeat \<Rightarrow> (writeHeartbeat moment d, Inr [])
   | Prune \<Rightarrow> (fst (prune moment d), Inr []))"

fun perform_all :: "(int \<times> activity) list \<Rightarrow> fleet_db \<Rightarrow> fleet_db \<times> (exn + check_result list) list" where
  "perform_all [] d = (d, [])"
| "perform_all ((moment, act) # acts) d = (let (d', r) = perform moment act d; (d'', rs) = perform_all acts d' in (d'', r # rs))"

definition logRaised :: "(exn + 'a) list \<Rightarrow> exn + 'a list" where
  \<comment> \<open>an abort is rethrown, any other failure is dropped\<close>
  "logRaised outcomes = (case List.find (\<lambda>r. r = Inl (Failure ''AbortError'')) outcomes of
     Some (Inl e) \<Rightarrow> Inl e
   | _ \<Rightarrow> Inr (concat (map (\<lambda>r. case r of Inr a \<Rightarrow> [a] | Inl _ \<Rightarrow> []) outcomes)))"

definition round_jobs :: "fleet_host list \<Rightarrow> (fleet_host \<Rightarrow> ssh_result) \<Rightarrow> (fleet_host \<Rightarrow> http_result) \<Rightarrow> activity list" where
  "round_jobs hosts ssh http = map (\<lambda>h. Vitals h (ssh h)) hosts @
     map (\<lambda>h. Docker h (http h)) (filter (\<lambda>h. hst_docker_url h \<noteq> []) hosts)"

definition tick :: "int \<Rightarrow> activity list \<Rightarrow> nat list \<Rightarrow> fleet_db \<Rightarrow> fleet_db \<times> (exn + check_result list)" where
  \<comment> \<open>the second list is the order in which the jobs' answers arrive; outcomes are listed in the order of the jobs\<close>
  "tick moment jobs arrivals d =
     (let (d', rs) = perform_all (map (\<lambda>i. (moment, jobs ! i)) arrivals) d;
          outcomes = somes (map (map_of (zip arrivals rs)) [0..<length jobs])
      in case logRaised outcomes of
           Inl e \<Rightarrow> (d', Inl e)
         | Inr completed \<Rightarrow> (writeHeartbeat moment d', Inr (concat completed)))"

definition isSlowRound :: "int \<Rightarrow> bool" where
  "isSlowRound index \<longleftrightarrow> index mod SLOW_EVERY = 0"

definition round_of :: "int \<Rightarrow> int \<Rightarrow> activity list \<Rightarrow> nat list \<Rightarrow> activity list \<Rightarrow> fleet_db \<Rightarrow> fleet_db \<times> (exn + unit)" where
  \<comment> \<open>\<open>round\<close>; the slow jobs come in the order their answers arrive\<close>
  "round_of index moment jobs arrivals slow d = (case tick moment jobs arrivals d of
     (d1, Inl e) \<Rightarrow> (d1, Inl e)
   | (d1, Inr _) \<Rightarrow> if \<not> isSlowRound index then (d1, Inr ())
       else let (d2, rs) = perform_all (map (Pair moment) slow) d1
         in case logRaised rs of Inl e \<Rightarrow> (d2, Inl e) | Inr _ \<Rightarrow> (fst (prune moment d2), Inr ()))"

subsection \<open>What a round judges\<close>

text \<open>The checks one activity stands for, and what they make of one target's results so far: its own are
  appended; a container a good answer no longer names, while its outage is open, starts over.\<close>

definition measured :: "string \<Rightarrow> bool" where
  "measured stdout \<longleftrightarrow> samplesFromSections (splitSections stdout) PARSERS \<noteq> []"

definition seen_checks :: "activity \<Rightarrow> check_result list" where
  "seen_checks act = (case act of
     Vitals h (Ssh_failed reason) \<Rightarrow> if reason = ''spawn_error'' then [] else [host_check (hst_name h) (Ssh_failed reason) 0]
   | Vitals h (Ssh_ok stdout) \<Rightarrow> [host_check (hst_name h) (Ssh_ok stdout) (length (samplesFromSections (splitSections stdout) PARSERS))]
   | Docker h (Http_ok (JArr payload)) \<Rightarrow> if hst_docker_url h = [] then []
       else \<lparr>chk_target = ''docker:'' @ hst_name h, chk_ok = True, chk_reason = []\<rparr> # map (containerCheck (hst_name h)) (parseContainers payload)
   | Docker h (Http_ok _) \<Rightarrow> if hst_docker_url h = [] then []
       else [\<lparr>chk_target = ''docker:'' @ hst_name h, chk_ok = False, chk_reason = ''bad_json''\<rparr>]
   | Docker h (Http_failed reason) \<Rightarrow> if hst_docker_url h = [] then []
       else [\<lparr>chk_target = ''docker:'' @ hst_name h, chk_ok = False, chk_reason = reason\<rparr>]
   | _ \<Rightarrow> [])"

definition retires :: "activity \<Rightarrow> string \<Rightarrow> bool" where
  "retires act t \<longleftrightarrow> (case act of
     Docker h (Http_ok (JArr payload)) \<Rightarrow> hst_docker_url h \<noteq> [] \<and> sql_like (''container:'' @ hst_name h @ ''/'' @ ''%'') t \<and>
       removePrefix t (''container:'' @ hst_name h @ ''/'') \<notin> cst_name ` set (parseContainers payload)
   | _ \<Rightarrow> False)"

definition appended :: "bool list \<Rightarrow> string \<Rightarrow> check_result list \<Rightarrow> bool list" where
  "appended h t checks = h @ map chk_ok (filter (\<lambda>c. chk_target c = t) checks)"

definition results_after :: "string \<Rightarrow> bool list \<Rightarrow> activity \<Rightarrow> bool list" where
  "results_after t h act = (let h' = appended h t (seen_checks act)
     in if retires act t \<and> is_down 2 h' then [] else h')"

definition tables_ok :: "fleet_db \<Rightarrow> bool" where
  "tables_ok d \<longleftrightarrow> incidents_inv (fd_checks d) \<and> streaks_inv (fd_checks d)"

lemma appended_Nil [simp]: "appended h t [] = h"
  by (simp add: appended_def)

lemma appended_Cons: "appended (appended h t [c]) t cs = appended h t (c # cs)"
  by (simp add: appended_def)

lemma record_in_step:
  assumes "tables_ok d" "stored_instant moment"
  shows "\<exists>d' v. record_in check moment d = Inr (d', v) \<and> tables_ok d' \<and> fd_samples d' = fd_samples d \<and> fd_heartbeat d' = fd_heartbeat d \<and>
    (\<forall>t h. tracks 2 h t (fd_checks d) \<longrightarrow> tracks 2 (appended h t [check]) t (fd_checks d'))"
proof -
  obtain c v where c: "record_check (int 2) COVERAGE_GAP_SECONDS check moment (fd_checks d) = Inr (c, v)" "incidents_inv c" "streaks_inv c"
    "\<forall>t h. tracks 2 h t (fd_checks d) \<longrightarrow> tracks 2 (if chk_target check = t then h @ [chk_ok check] else h) t c"
    using record_check_tracks [of "fd_checks d" 2 moment COVERAGE_GAP_SECONDS check] assms unfolding tables_ok_def by auto
  have "tracks 2 (appended h t [check]) t c" if "tracks 2 h t (fd_checks d)" for t h
    using c(4) [rule_format, OF that] by (simp add: appended_def split: if_splits)
  then show ?thesis
    by (intro exI [of _ "d\<lparr>fd_checks := c\<rparr>"] exI [of _ v]) (use c(1-3) in \<open>simp add: record_in_def check_threshold_def tables_ok_def\<close>)
qed

lemma record_each_step:
  assumes "tables_ok d" "stored_instant moment"
  shows "\<exists>d'. record_each checks moment d = Inr d' \<and> tables_ok d' \<and> fd_samples d' = fd_samples d \<and> fd_heartbeat d' = fd_heartbeat d \<and>
    (\<forall>t h. tracks 2 h t (fd_checks d) \<longrightarrow> tracks 2 (appended h t checks) t (fd_checks d'))"
  using assms(1)
proof (induction checks arbitrary: d)
  case Nil
  then show ?case by simp
next
  case (Cons check checks)
  obtain d1 v where d1: "record_in check moment d = Inr (d1, v)" "tables_ok d1" "fd_samples d1 = fd_samples d" "fd_heartbeat d1 = fd_heartbeat d"
    "\<forall>t h. tracks 2 h t (fd_checks d) \<longrightarrow> tracks 2 (appended h t [check]) t (fd_checks d1)"
    using record_in_step [OF Cons.prems assms(2)] by blast
  obtain d2 where d2: "record_each checks moment d1 = Inr d2" "tables_ok d2" "fd_samples d2 = fd_samples d1" "fd_heartbeat d2 = fd_heartbeat d1"
    "\<forall>t h. tracks 2 h t (fd_checks d1) \<longrightarrow> tracks 2 (appended h t checks) t (fd_checks d2)"
    using Cons.IH [OF d1(2)] by blast
  have "tracks 2 (appended h t (check # checks)) t (fd_checks d2)" if "tracks 2 h t (fd_checks d)" for t h
    using d2(5) [rule_format, OF d1(5) [rule_format, OF that]] by (simp add: appended_Cons)
  then show ?case using d1 d2 by auto
qed

text \<open>The readings one activity stores.\<close>

definition read_samples :: "int \<times> activity \<Rightarrow> reading_row list" where
  "read_samples = (\<lambda>(moment, act). case act of
     Vitals h (Ssh_ok stdout) \<Rightarrow> map (\<lambda>s. \<lparr>sm_target = ''host:'' @ hst_name h, sm_metric = smp_metric s, sm_at = isoformat moment, sm_value = smp_value s\<rparr>)
       (samplesFromSections (splitSections stdout) PARSERS)
   | Slow h (Ssh_ok stdout) \<Rightarrow> map (\<lambda>s. \<lparr>sm_target = ''host:'' @ hst_name h, sm_metric = smp_metric s, sm_at = isoformat moment, sm_value = smp_value s\<rparr>)
       (samplesFromSections (splitSections stdout) PARSERS)
   | Docker h (Http_ok (JArr payload)) \<Rightarrow> if hst_docker_url h = [] then []
       else map (\<lambda>s. \<lparr>sm_target = ''host:'' @ hst_name h, sm_metric = smp_metric s, sm_at = isoformat moment, sm_value = smp_value s\<rparr>)
         (toSamples (parseContainers payload))
   | _ \<Rightarrow> [])"

definition kept_at :: "int \<times> activity \<Rightarrow> reading_row list \<Rightarrow> reading_row list" where
  "kept_at = (\<lambda>(moment, act) rows. case act of Prune \<Rightarrow> filter (\<lambda>r. isoformat (moment - SAMPLE_RETENTION_SECONDS * 1000) \<le> sm_at r) rows | _ \<Rightarrow> rows)"


lemma spawn_error: "List.member NOT_OBSERVED reason \<longleftrightarrow> reason = ''spawn_error''" "reason \<in> set NOT_OBSERVED \<longleftrightarrow> reason = ''spawn_error''"
  by (simp_all add: NOT_OBSERVED_def)

definition step_ok :: "int \<times> activity \<Rightarrow> fleet_db \<Rightarrow> fleet_db \<times> (exn + check_result list) \<Rightarrow> bool" where
  "step_ok = (\<lambda>(moment, act) d (d', r). r = Inr (seen_checks act) \<and> tables_ok d' \<and>
     fd_samples d' = kept_at (moment, act) (fd_samples d) @ read_samples (moment, act) \<and>
     (\<forall>t h. tracks 2 h t (fd_checks d) \<longrightarrow> tracks 2 (results_after t h act) t (fd_checks d')))"

lemma recorded_one:
  assumes "tables_ok d" "stored_instant moment"
  shows "\<exists>d' v. record_in check moment d = Inr (d', v) \<and> tables_ok d' \<and> fd_samples d' = fd_samples d \<and>
    (\<forall>t h. tracks 2 h t (fd_checks d) \<longrightarrow> tracks 2 (appended h t [check]) t (fd_checks d'))"
  using record_in_step [OF assms, of check] by blast

lemma vitals_step:
  assumes "tables_ok d" "stored_instant moment"
  shows "step_ok (moment, Vitals g result) d (perform moment (Vitals g result) d)"
proof (cases result)
  case (Ssh_failed reason)
  show ?thesis
  proof (cases "reason = ''spawn_error''")
    case True
    then show ?thesis using assms Ssh_failed
      by (simp add: step_ok_def perform_def collectHost_def spawn_error seen_checks_def kept_at_def read_samples_def results_after_def retires_def)
  next
    case False
    obtain d' v where "record_in (host_check (hst_name g) result 0) moment d = Inr (d', v)" "tables_ok d'" "fd_samples d' = fd_samples d"
      "\<forall>t h. tracks 2 h t (fd_checks d) \<longrightarrow> tracks 2 (appended h t [host_check (hst_name g) result 0]) t (fd_checks d')"
      using recorded_one [OF assms] by blast
    then show ?thesis using Ssh_failed False
      by (simp add: step_ok_def perform_def collectHost_def spawn_error seen_checks_def kept_at_def read_samples_def results_after_def retires_def session_def)
  qed
next
  case (Ssh_ok stdout)
  let ?samples = "samplesFromSections (splitSections stdout) PARSERS"
  let ?d = "fst (writeSections (hst_name g) moment stdout d)" and ?check = "host_check (hst_name g) result (length ?samples)"
  have "tables_ok ?d" "fd_checks ?d = fd_checks d" using assms by (simp_all add: writeSections_def writeSamples_def tables_ok_def)
  moreover obtain d' v where "record_in ?check moment ?d = Inr (d', v)" "tables_ok d'" "fd_samples d' = fd_samples ?d"
    "\<forall>t h. tracks 2 h t (fd_checks ?d) \<longrightarrow> tracks 2 (appended h t [?check]) t (fd_checks d')"
    using recorded_one [OF calculation(1) assms(2), of ?check] by blast
  ultimately show ?thesis using Ssh_ok
    by (simp add: step_ok_def perform_def collectHost_def seen_checks_def kept_at_def read_samples_def results_after_def retires_def session_def
        writeSections_def writeSamples_def)
qed

lemma endpoint_step:
  assumes "tables_ok d" "stored_instant moment"
  shows "\<exists>d'. endpointOnly host_name moment reason d = (d', Inr [\<lparr>chk_target = ''docker:'' @ host_name, chk_ok = False, chk_reason = reason\<rparr>]) \<and>
    tables_ok d' \<and> fd_samples d' = fd_samples d \<and>
    (\<forall>t h. tracks 2 h t (fd_checks d) \<longrightarrow> tracks 2 (appended h t [\<lparr>chk_target = ''docker:'' @ host_name, chk_ok = False, chk_reason = reason\<rparr>]) t (fd_checks d'))"
  using recorded_one [OF assms, of "\<lparr>chk_target = ''docker:'' @ host_name, chk_ok = False, chk_reason = reason\<rparr>"]
  by (auto simp: endpointOnly_def session_def Let_def)

lemma docker_listing_step:
  assumes "tables_ok d" "stored_instant moment" "hst_docker_url g \<noteq> []"
  shows "step_ok (moment, Docker g (Http_ok (JArr payload))) d (perform moment (Docker g (Http_ok (JArr payload))) d)"
proof -
  let ?states = "parseContainers payload" and ?prefix = "''container:'' @ hst_name g @ ''/''"
  let ?checks = "seen_checks (Docker g (Http_ok (JArr payload)))"
  let ?d = "fst (writeSamples (''host:'' @ hst_name g) moment (toSamples ?states) d)"
  have checks: "?checks = \<lparr>chk_target = ''docker:'' @ hst_name g, chk_ok = True, chk_reason = []\<rparr> # map (containerCheck (hst_name g)) ?states"
    using assms(3) by (simp add: seen_checks_def)
  have written: "tables_ok ?d" "fd_checks ?d = fd_checks d" using assms by (simp_all add: writeSamples_def tables_ok_def)
  obtain e where e: "record_each ?checks moment ?d = Inr e" "tables_ok e" "fd_samples e = fd_samples ?d"
    "\<forall>t h. tracks 2 h t (fd_checks ?d) \<longrightarrow> tracks 2 (appended h t ?checks) t (fd_checks e)"
    using record_each_step [OF written(1) assms(2), of ?checks] by blast
  let ?e = "fst (retireAbsent ?prefix (js_set (map cst_name ?states)) moment (fd_checks e))"
  have inv: "incidents_inv (fd_checks e)" "streaks_inv (fd_checks e)" using e(2) by (simp_all add: tables_ok_def)
  have retired: "tracks 2 (results_after t h (Docker g (Http_ok (JArr payload)))) t ?e" if "tracks 2 h t (fd_checks d)" for t h
  proof -
    have "tracks 2 (appended h t ?checks) t (fd_checks e)" using e(4) that written(2) by simp
    from retire_tracks(1) [OF inv _ this refl, of ?prefix "js_set (map cst_name ?states)" moment]
    show ?thesis using assms(3) by (simp add: results_after_def retires_def Let_def)
  qed
  have "incidents_inv ?e" by (rule incidents_inv_retire [OF inv(1)])
  moreover have "streaks_inv ?e" using inv by (rule streaks_inv_retire)
  moreover have "perform moment (Docker g (Http_ok (JArr payload))) d = (e\<lparr>fd_checks := ?e\<rparr>, Inr ?checks)"
    using assms(3) e(1) by (simp add: perform_def collectContainers_def session_def Let_def checks)
  ultimately show ?thesis using assms(3) e(3) retired
    by (simp add: step_ok_def tables_ok_def kept_at_def read_samples_def writeSamples_def)
qed

lemma perform_step:
  assumes "tables_ok d" "stored_instant moment"
  shows "step_ok (moment, act) d (perform moment act d)"
proof (cases act)
  case (Vitals g result)
  then show ?thesis using vitals_step [OF assms] by simp
next
  case (Docker g response)
  show ?thesis
  proof (cases "hst_docker_url g = []")
    case True
    then show ?thesis using Docker assms
      by (auto simp: step_ok_def perform_def collectContainers_def seen_checks_def kept_at_def read_samples_def results_after_def retires_def
          split: http_result.splits json.splits)
  next
    case False
    show ?thesis
    proof (cases "\<exists>payload. response = Http_ok (JArr payload)")
      case True
      then show ?thesis using docker_listing_step [OF assms False] Docker by blast
    next
      case other: False
      define reason where "reason = (case response of Http_failed reason \<Rightarrow> reason | Http_ok _ \<Rightarrow> ''bad_json'')"
      have failed: "perform moment act d = endpointOnly (hst_name g) moment reason d"
        "seen_checks act = [\<lparr>chk_target = ''docker:'' @ hst_name g, chk_ok = False, chk_reason = reason\<rparr>]"
        "\<not> retires act t" "read_samples (moment, act) = []" for t
        using Docker False other by (auto simp: perform_def collectContainers_def seen_checks_def retires_def read_samples_def reason_def
            split: http_result.splits json.splits)
      obtain d' where d': "endpointOnly (hst_name g) moment reason d = (d', Inr (seen_checks act))"
        "tables_ok d'" "fd_samples d' = fd_samples d"
        "\<forall>t h. tracks 2 h t (fd_checks d) \<longrightarrow> tracks 2 (appended h t (seen_checks act)) t (fd_checks d')"
        using endpoint_step [OF assms, of "hst_name g" reason] unfolding failed(2) by blast
      then show ?thesis using failed(1,3,4) Docker by (simp add: step_ok_def kept_at_def results_after_def)
    qed
  qed
next
  case (Slow g result)
  then show ?thesis using assms
    by (auto simp: step_ok_def perform_def collectSlow_def seen_checks_def kept_at_def read_samples_def results_after_def retires_def
        writeSections_def writeSamples_def tables_ok_def split: ssh_result.splits)
next
  case Heartbeat
  then show ?thesis using assms
    by (simp add: step_ok_def perform_def writeHeartbeat_def seen_checks_def kept_at_def read_samples_def results_after_def retires_def tables_ok_def)
next
  case Prune
  then show ?thesis using assms
    by (simp add: step_ok_def perform_def prune_def Let_def seen_checks_def kept_at_def read_samples_def results_after_def retires_def tables_ok_def not_less)
qed


definition empty_fleet :: fleet_db where
  "empty_fleet = \<lparr>fd_checks = empty_checks, fd_samples = [], fd_heartbeat = None\<rparr>"

lemma tables_ok_empty: "tables_ok empty_fleet"
  by (simp add: tables_ok_def empty_fleet_def empty_checks_def incidents_inv_def streaks_inv_def)

lemma tracks_empty: "tracks 2 [] t (fd_checks empty_fleet)"
  by (simp add: tracks_def empty_fleet_def empty_checks_def ok_count_def fail_count_def streak_of_def down_now_def counts_Nil)

lemma perform_all_steps:
  assumes "list_all (\<lambda>(moment, _). stored_instant moment) acts" "tables_ok d"
  shows "\<exists>d'. perform_all acts d = (d', map (\<lambda>a. Inr (seen_checks (snd a))) acts) \<and> tables_ok d' \<and>
    fd_samples d' = foldl (\<lambda>rows a. kept_at a rows @ read_samples a) (fd_samples d) acts \<and>
    (\<forall>t h. tracks 2 h t (fd_checks d) \<longrightarrow> tracks 2 (foldl (results_after t) h (map snd acts)) t (fd_checks d'))"
  using assms
proof (induction acts arbitrary: d)
  case Nil
  then show ?case by simp
next
  case (Cons a acts)
  obtain moment act where a: "a = (moment, act)" by (cases a)
  obtain d1 where d1: "perform moment act d = (d1, Inr (seen_checks act))" "tables_ok d1"
    "fd_samples d1 = kept_at a (fd_samples d) @ read_samples a"
    "\<forall>t h. tracks 2 h t (fd_checks d) \<longrightarrow> tracks 2 (results_after t h act) t (fd_checks d1)"
    using perform_step [of d moment act] Cons.prems by (auto simp: a step_ok_def)
  obtain d2 where d2: "perform_all acts d1 = (d2, map (\<lambda>a. Inr (seen_checks (snd a))) acts)" "tables_ok d2"
    "fd_samples d2 = foldl (\<lambda>rows a. kept_at a rows @ read_samples a) (fd_samples d1) acts"
    "\<forall>t h. tracks 2 h t (fd_checks d1) \<longrightarrow> tracks 2 (foldl (results_after t) h (map snd acts)) t (fd_checks d2)"
    using Cons.IH [OF _ d1(2)] Cons.prems(1) by auto
  show ?case using d1 d2 by (simp add: a)
qed

subsection \<open>The results of one host, endpoint and container\<close>

definition host_results :: "string \<Rightarrow> activity \<Rightarrow> bool list" where
  "host_results h act = (case act of
     Vitals g (Ssh_ok stdout) \<Rightarrow> if hst_name g = h then [measured stdout] else []
   | Vitals g (Ssh_failed reason) \<Rightarrow> if hst_name g = h \<and> reason \<noteq> ''spawn_error'' then [False] else []
   | _ \<Rightarrow> [])"

definition endpoint_results :: "string \<Rightarrow> activity \<Rightarrow> bool list" where
  "endpoint_results h act = (case act of
     Docker g response \<Rightarrow> if hst_name g = h \<and> hst_docker_url g \<noteq> []
       then [case response of Http_ok (JArr _) \<Rightarrow> True | _ \<Rightarrow> False] else []
   | _ \<Rightarrow> [])"

definition container_after :: "string \<Rightarrow> string \<Rightarrow> bool list \<Rightarrow> activity \<Rightarrow> bool list" where
  "container_after h c results act = (case act of
     Docker g (Http_ok (JArr payload)) \<Rightarrow>
       if hst_name g = h \<and> hst_docker_url g \<noteq> [] then
         (let answered = filter (\<lambda>s. cst_name s = c) (parseContainers payload) in
          if answered = [] \<and> is_down 2 results then []
          else results @ map (\<lambda>s. cst_running s \<and> cst_health s \<noteq> Unhealthy) answered)
       else results
   | _ \<Rightarrow> results)"

lemma like_first: "lower_char c \<noteq> lower_char x \<Longrightarrow> c \<noteq> CHR ''%'' \<Longrightarrow> c \<noteq> CHR ''_'' \<Longrightarrow> \<not> sql_like (c # p) (x # s)"
  by simp

lemma retires_others: "\<not> retires act (''host:'' @ h)" "\<not> retires act (''docker:'' @ h)"
proof -
  have "lower_char (CHR ''c'') \<noteq> lower_char (CHR ''h'')" "lower_char (CHR ''c'') \<noteq> lower_char (CHR ''d'')" by code_simp+
  then show "\<not> retires act (''host:'' @ h)" "\<not> retires act (''docker:'' @ h)"
    by (auto simp: retires_def split: activity.splits http_result.splits json.splits)
qed

lemma results_host: "results_after (''host:'' @ h) hs act = hs @ host_results h act"
  by (auto simp: results_after_def retires_others [simplified] appended_def seen_checks_def host_results_def host_check_def measured_def containerCheck_def Let_def
      split: activity.splits ssh_result.splits http_result.splits json.splits intro!: filter_False)

lemma results_endpoint: "results_after (''docker:'' @ h) hs act = hs @ endpoint_results h act"
  by (auto simp: results_after_def retires_others [simplified] appended_def seen_checks_def endpoint_results_def host_check_def containerCheck_def Let_def
      split: activity.splits ssh_result.splits http_result.splits json.splits intro!: filter_False)

definition plain_name :: "string \<Rightarrow> bool" where
  "plain_name name \<longleftrightarrow> CHR ''/'' \<notin> set name \<and> CHR ''%'' \<notin> set name \<and> CHR ''_'' \<notin> set name"

lemma slash_split: "CHR ''/'' \<notin> set a \<Longrightarrow> CHR ''/'' \<notin> set b \<Longrightarrow> a @ CHR ''/'' # s = b @ CHR ''/'' # t \<longleftrightarrow> a = b \<and> s = t"
proof (induction a arbitrary: b)
  case Nil
  then show ?case by (cases b) auto
next
  case (Cons c a)
  then show ?case by (cases b) auto
qed

lemma starts_with_iff: "starts_with p s \<longleftrightarrow> (\<exists>r. s = p @ r)"
  by (metis append_take_drop_id starts_with_append starts_with_def)

lemma lower_char_slash: "lower_char c = CHR ''/'' \<longleftrightarrow> c = CHR ''/''"
proof
  assume "lower_char c = CHR ''/''"
  then have "code_of (lower_char c) = 47" by (simp add: code_of_def)
  then have "code_of c = 47" by (simp add: code_of_lower split: if_splits)
  then have "c = char_of (47 :: nat)" by (rule code_of_eq)
  also have "char_of (47 :: nat) = CHR ''/''" by code_simp
  finally show "c = CHR ''/''" .
qed (simp add: lower_char_def code_of_def)

lemma lower_slash: "CHR ''/'' \<in> set (toLowerCase s) \<longleftrightarrow> CHR ''/'' \<in> set s"
  by (induction s) (simp_all add: toLowerCase_def lower_char_slash eq_commute [of "CHR ''/''"])

lemma toLowerCase_Cons: "toLowerCase (c # s) = lower_char c # toLowerCase s"
  by (simp add: toLowerCase_def)

lemma container_prefix:
  assumes "plain_name g" "plain_name h" "toLowerCase g = toLowerCase h \<Longrightarrow> g = h"
  shows "sql_like (''container:'' @ g @ ''/'' @ ''%'') (''container:'' @ h @ ''/'' @ c) \<longleftrightarrow> g = h"
proof -
  have no_wild: "CHR ''%'' \<notin> set (''container:'' @ g @ ''/'')" "CHR ''_'' \<notin> set (''container:'' @ g @ ''/'')"
    using assms(1) by (auto simp: plain_name_def)
  have "sql_like ((''container:'' @ g @ ''/'') @ ''%'') (''container:'' @ h @ ''/'' @ c) \<longleftrightarrow>
      (\<exists>r. toLowerCase h @ ''/'' @ toLowerCase c = toLowerCase g @ ''/'' @ r)"
    unfolding like_prefix [OF no_wild] starts_with_iff
    by (simp add: toLowerCase_append toLowerCase_Cons lower_char_def code_of_def)
  also have "\<dots> \<longleftrightarrow> toLowerCase h = toLowerCase g"
    using assms(1,2) by (auto simp: plain_name_def lower_slash slash_split)
  also have "\<dots> \<longleftrightarrow> g = h" using assms(3) by auto
  finally show ?thesis by simp
qed

lemma own_container: "removePrefix (''container:'' @ h @ ''/'' @ c) (''container:'' @ h @ ''/'') = c"
proof -
  have "starts_with (''container:'' @ h @ ''/'') ((''container:'' @ h @ ''/'') @ c)" by (rule starts_with_append)
  then show ?thesis by (simp add: removePrefix_def)
qed

definition in_fleet :: "string list \<Rightarrow> activity \<Rightarrow> bool" where
  "in_fleet names act \<longleftrightarrow> (case act of Vitals h _ \<Rightarrow> hst_name h \<in> set names | Docker h _ \<Rightarrow> hst_name h \<in> set names
     | Slow h _ \<Rightarrow> hst_name h \<in> set names | _ \<Rightarrow> True)"

definition fleet_names :: "string list \<Rightarrow> bool" where
  "fleet_names names \<longleftrightarrow> list_all plain_name names \<and> distinct (map toLowerCase names)"

lemma fleet_names_same: "fleet_names names \<Longrightarrow> g \<in> set names \<Longrightarrow> h \<in> set names \<Longrightarrow> toLowerCase g = toLowerCase h \<Longrightarrow> g = h"
  by (auto simp: fleet_names_def distinct_map inj_on_def)

lemma results_container:
  assumes "fleet_names names" "in_fleet names act" "h \<in> set names"
  shows "results_after (''container:'' @ h @ ''/'' @ c) hs act = container_after h c hs act"
proof (cases "\<exists>g payload. act = Docker g (Http_ok (JArr payload)) \<and> hst_docker_url g \<noteq> []")
  case True
  then obtain g payload where act: "act = Docker g (Http_ok (JArr payload))" "hst_docker_url g \<noteq> []" by blast
  have g: "hst_name g \<in> set names" using assms(2) act by (simp add: in_fleet_def)
  have plain: "plain_name (hst_name g)" "plain_name h" using assms(1,3) g by (simp_all add: fleet_names_def list_all_iff)
  have like: "sql_like (''container:'' @ hst_name g @ ''/'' @ ''%'') (''container:'' @ h @ ''/'' @ c) \<longleftrightarrow> hst_name g = h"
    using container_prefix [OF plain] fleet_names_same [OF assms(1) g assms(3)] by blast
  have target: "''container:'' @ hst_name g @ ''/'' @ n = ''container:'' @ h @ ''/'' @ c \<longleftrightarrow> hst_name g = h \<and> n = c" for n
    using plain by (simp add: plain_name_def slash_split)
  have others: "''docker:'' @ hst_name g \<noteq> ''container:'' @ h @ ''/'' @ c" by simp
  have checks: "appended hs (''container:'' @ h @ ''/'' @ c) (seen_checks act) =
      hs @ (if hst_name g = h then map (\<lambda>s. cst_running s \<and> cst_health s \<noteq> Unhealthy) (filter (\<lambda>s. cst_name s = c) (parseContainers payload)) else [])"
    using act target others
    by (auto simp: appended_def seen_checks_def filter_map o_def containerCheck_def Let_def intro!: map_cong filter_cong)
  have retires: "retires act (''container:'' @ h @ ''/'' @ c) \<longleftrightarrow> hst_name g = h \<and> c \<notin> cst_name ` set (parseContainers payload)"
    using act like own_container [of h c] by (auto simp: retires_def)
  show ?thesis
  proof (cases "c \<in> cst_name ` set (parseContainers payload)")
    case True
    then have "filter (\<lambda>s. cst_name s = c) (parseContainers payload) \<noteq> []" by (auto simp: filter_empty_conv)
    then show ?thesis unfolding results_after_def checks retires using act True by (simp add: container_after_def Let_def)
  next
    case False
    then have "filter (\<lambda>s. cst_name s = c) (parseContainers payload) = []" by (auto simp: filter_empty_conv)
    then show ?thesis unfolding results_after_def checks retires using act False by (simp add: container_after_def Let_def)
  qed
next
  case False
  then show ?thesis
    by (auto simp: results_after_def retires_def container_after_def appended_def seen_checks_def host_check_def Let_def
        split: activity.splits ssh_result.splits http_result.splits json.splits)
qed

lemma folded_results:
  assumes "\<And>h act. act \<in> set acts \<Longrightarrow> f h act = h @ g act"
  shows "foldl f h acts = h @ concat (map g acts)"
  using assms by (induction acts arbitrary: h) simp_all

text \<open>C15: Outages follow exactly what was seen, and what was not seen is not judged. Whatever hosts and Docker
  endpoints answer, in whatever order and however often, every unit of work succeeds and answers its own
  checks. A host is down exactly by the two-in-a-row rule over the runs that reached it, a run that returned no
  reading counting as failed and a run that could not be started counting not at all. A Docker endpoint is
  down by the same rule over its answers, anything but an array counting as failed. A container is judged only by the
  arrays its own host's endpoint answered; a failed answer leaves it as it was, and an array that no longer
  names it closes its outage and starts it over.\<close>

theorem outages_follow_what_was_seen:
  assumes "list_all (\<lambda>(moment, _). stored_instant moment) acts" "fleet_names names" "list_all (\<lambda>(_, act). in_fleet names act) acts"
  shows "\<exists>d. perform_all acts empty_fleet = (d, map (\<lambda>(_, act). Inr (seen_checks act)) acts) \<and>
    (\<forall>h. down_now (''host:'' @ h) (fd_checks d) \<longleftrightarrow> is_down 2 (concat (map (host_results h \<circ> snd) acts))) \<and>
    (\<forall>h. down_now (''docker:'' @ h) (fd_checks d) \<longleftrightarrow> is_down 2 (concat (map (endpoint_results h \<circ> snd) acts))) \<and>
    (\<forall>h c. h \<in> set names \<longrightarrow>
       down_now (''container:'' @ h @ ''/'' @ c) (fd_checks d) = is_down 2 (foldl (container_after h c) [] (map snd acts)))"
proof -
  obtain d where d: "perform_all acts empty_fleet = (d, map (\<lambda>a. Inr (seen_checks (snd a))) acts)"
    "\<forall>t h. tracks 2 h t (fd_checks empty_fleet) \<longrightarrow> tracks 2 (foldl (results_after t) h (map snd acts)) t (fd_checks d)"
    using perform_all_steps [OF assms(1) tables_ok_empty] by blast
  have down: "down_now t (fd_checks d) \<longleftrightarrow> is_down 2 (foldl (results_after t) [] (map snd acts))" for t
    using d(2) [rule_format, OF tracks_empty] by (simp add: tracks_def)
  have hosts: "foldl (results_after (''host:'' @ h)) [] (map snd acts) = concat (map (host_results h \<circ> snd) acts)" for h
    using folded_results [of "map snd acts" "results_after (''host:'' @ h)" "host_results h" "[]"] results_host [of h] by simp
  have endpoints: "foldl (results_after (''docker:'' @ h)) [] (map snd acts) = concat (map (endpoint_results h \<circ> snd) acts)" for h
    using folded_results [of "map snd acts" "results_after (''docker:'' @ h)" "endpoint_results h" "[]"] results_endpoint [of h] by simp
  have containers: "foldl (results_after (''container:'' @ h @ ''/'' @ c)) [] (map snd acts) = foldl (container_after h c) [] (map snd acts)"
    if "h \<in> set names" for h c
    by (rule foldl_cong [OF refl refl]) (use assms(3) results_container [OF assms(2) _ that] in \<open>auto simp: list_all_iff\<close>)
  have "map (\<lambda>a. Inr (seen_checks (snd a))) acts = map (\<lambda>(_, act). Inr (seen_checks act)) acts"
    by (simp add: case_prod_unfold)
  then show ?thesis using d(1) down hosts endpoints containers by (intro exI [of _ d]) simp
qed

lemma outages_follow_what_was_seen_witness:
  "\<exists>d r. perform_all [(1790000000000, Vitals \<lparr>hst_name = ''syrax'', hst_ip = [], hst_has_gpu = False, hst_docker_url = [], hst_plex_url = []\<rparr> (Ssh_failed ''timeout'')),
       (1790000030000, Vitals \<lparr>hst_name = ''syrax'', hst_ip = [], hst_has_gpu = False, hst_docker_url = [], hst_plex_url = []\<rparr> (Ssh_failed ''spawn_error'')),
       (1790000060000, Vitals \<lparr>hst_name = ''syrax'', hst_ip = [], hst_has_gpu = False, hst_docker_url = [], hst_plex_url = []\<rparr> (Ssh_failed ''auth''))] empty_fleet = (d, r) \<and>
     down_now ''host:syrax'' (fd_checks d)"
proof -
  define h where "h = \<lparr>hst_name = ''syrax'', hst_ip = [], hst_has_gpu = False, hst_docker_url = [], hst_plex_url = []\<rparr>"
  let ?acts = "[(1790000000000 :: int, Vitals h (Ssh_failed ''timeout'')), (1790000030000, Vitals h (Ssh_failed ''spawn_error'')), (1790000060000, Vitals h (Ssh_failed ''auth''))]"
  have moments: "stored_instant 1790000000000" "stored_instant 1790000030000" "stored_instant 1790000060000" by code_simp+
  have names: "fleet_names [''syrax'']" by code_simp
  have "list_all (\<lambda>(moment, _). stored_instant moment) ?acts" "list_all (\<lambda>(_, act). in_fleet [''syrax''] act) ?acts"
    using moments by (simp_all add: in_fleet_def h_def)
  from outages_follow_what_was_seen [OF this(1) names this(2)]
  obtain d where d: "perform_all ?acts empty_fleet = (d, map (\<lambda>(_, act). Inr (seen_checks act)) ?acts)"
    "down_now (''host:'' @ ''syrax'') (fd_checks d) \<longleftrightarrow> is_down 2 (concat (map (host_results ''syrax'' \<circ> snd) ?acts))" by blast
  have "concat (map (host_results ''syrax'' \<circ> snd) ?acts) = [False, False]" by (simp add: host_results_def h_def)
  moreover have "is_down 2 [False, False]"
    using is_down_snoc [of 2 "[]" False] is_down_snoc [of 2 "[False]" False] by (simp add: run_at_end_def)
  ultimately show ?thesis using d unfolding h_def by simp
qed

subsection \<open>What is stored\<close>

lemma stored_readings:
  "r \<in> set (foldl (\<lambda>rows a. kept_at a rows @ read_samples a) rows acts) \<longleftrightarrow>
     r \<in> set rows \<and> list_all (\<lambda>a. r \<in> set (kept_at a [r])) acts \<or>
     (\<exists>i<length acts. r \<in> set (read_samples (acts ! i)) \<and> list_all (\<lambda>a. r \<in> set (kept_at a [r])) (drop (Suc i) acts))"
proof (induction acts arbitrary: rows)
  case Nil
  then show ?case by simp
next
  case (Cons a acts)
  have kept: "r \<in> set (kept_at a rows) \<longleftrightarrow> r \<in> set rows \<and> r \<in> set (kept_at a [r])"
    by (auto simp: kept_at_def split: prod.splits activity.splits)
  then show ?case by (auto simp: Cons.IH Ex_less_Suc2)
qed

text \<open>The reading outlives a step: it is not a prune that finds it more than seven days old.\<close>

definition outlives :: "reading_row \<Rightarrow> int \<times> activity \<Rightarrow> bool" where
  "outlives r = (\<lambda>(moment, act). case act of Prune \<Rightarrow> isoformat (moment - SAMPLE_RETENTION_SECONDS * 1000) \<le> sm_at r | _ \<Rightarrow> True)"

text \<open>C16: Every reading stored is one an answer carried, and none is lost before its time. After any sequence of
  rounds a reading is in the store exactly when some answer carried it, for the host that gave it and at the
  moment of that answer, and no prune since found it more than seven days old; and a check of a host counts as
  passed exactly when the answer it came from stored a reading.\<close>

theorem readings_are_what_was_answered:
  assumes "list_all (\<lambda>(moment, _). stored_instant moment) acts"
  shows "(r \<in> set (fd_samples (fst (perform_all acts empty_fleet))) \<longleftrightarrow>
      (\<exists>i<length acts. r \<in> set (read_samples (acts ! i)) \<and> list_all (outlives r) (drop (Suc i) acts))) \<and>
    ((\<exists>check\<in>set (seen_checks (Vitals g answer)). chk_ok check) \<longleftrightarrow> read_samples (moment, Vitals g answer) \<noteq> [])"
proof
  obtain d where d: "perform_all acts empty_fleet = (d, map (\<lambda>a. Inr (seen_checks (snd a))) acts)"
    "fd_samples d = foldl (\<lambda>rows a. kept_at a rows @ read_samples a) (fd_samples empty_fleet) acts"
    using perform_all_steps [OF assms tables_ok_empty] by blast
  have kept: "r \<in> set (kept_at a [r]) \<longleftrightarrow> outlives r a" for a
    by (auto simp: kept_at_def outlives_def split: prod.splits activity.splits)
  have stored: "fd_samples (fst (perform_all acts empty_fleet)) = foldl (\<lambda>rows a. kept_at a rows @ read_samples a) [] acts"
    using d by (simp add: empty_fleet_def [THEN arg_cong [of _ _ fd_samples]])
  show "r \<in> set (fd_samples (fst (perform_all acts empty_fleet))) \<longleftrightarrow>
      (\<exists>i<length acts. r \<in> set (read_samples (acts ! i)) \<and> list_all (outlives r) (drop (Suc i) acts))"
    unfolding stored stored_readings kept by simp
  show "(\<exists>check\<in>set (seen_checks (Vitals g answer)). chk_ok check) \<longleftrightarrow> read_samples (moment, Vitals g answer) \<noteq> []"
    by (cases answer) (simp_all add: seen_checks_def read_samples_def host_check_def)
qed

lemma readings_are_what_was_answered_witness:
  "\<lparr>sm_target = ''host:meleys'', sm_metric = ''container.sonarr.up'', sm_at = isoformat 1790000000000, sm_value = 1\<rparr> \<in> set (fd_samples (fst (perform_all
     [(1790000000000, Docker \<lparr>hst_name = ''meleys'', hst_ip = [], hst_has_gpu = False, hst_docker_url = ''http://10.0.0.1:2375'', hst_plex_url = []\<rparr>
        (Http_ok (JArr [JNull, JObj [(''Names'', JArr [JStr ''/sonarr'']), (''State'', JStr ''running'')]]))),
      (1790000900000, Prune)] empty_fleet)))"
proof -
  define h where "h = \<lparr>hst_name = ''meleys'', hst_ip = [], hst_has_gpu = False, hst_docker_url = ''http://10.0.0.1:2375'', hst_plex_url = []\<rparr>"
  let ?seen = "(1790000000000 :: int, Docker h (Http_ok (JArr [JNull, JObj [(''Names'', JArr [JStr ''/sonarr'']), (''State'', JStr ''running'')]])))"
  let ?acts = "[?seen, (1790000900000, Prune)]"
  let ?r = "\<lparr>sm_target = ''host:meleys'', sm_metric = ''container.sonarr.up'', sm_at = isoformat 1790000000000, sm_value = 1 :: rat\<rparr>"
  have moments: "stored_instant 1790000000000" "stored_instant 1790000900000" by code_simp+
  have "parseContainers [JNull, JObj [(''Names'', JArr [JStr ''/sonarr'']), (''State'', JStr ''running'')]] =
      [\<lparr>cst_name = ''sonarr'', cst_running = True, cst_health = No_check\<rparr>]" by code_simp
  then have "?r \<in> set (read_samples ?seen)"
    by (simp add: read_samples_def h_def toSamples_def gauges_of_def gauge_name_def as_gauge_def)
  moreover have "isoformat (1790000900000 - SAMPLE_RETENTION_SECONDS * 1000) \<le> isoformat 1790000000000" by code_simp
  then have "list_all (outlives ?r) (drop (Suc 0) ?acts)" by (simp add: outlives_def)
  ultimately have "\<exists>i<length ?acts. ?r \<in> set (read_samples (?acts ! i)) \<and> list_all (outlives ?r) (drop (Suc i) ?acts)"
    by (intro exI [of _ 0]) simp
  then show ?thesis
    using readings_are_what_was_answered [of ?acts ?r] moments unfolding h_def [symmetric] by simp
qed

subsection \<open>Answers of one round arrive in any order\<close>

lemma fold_relevant:
  assumes "\<And>h act. act \<in> set acts \<Longrightarrow> \<not> P act \<Longrightarrow> f h act = h"
  shows "foldl f h acts = foldl f h (filter P acts)"
  using assms by (induction acts arbitrary: h) auto

lemma one_of_permutation:
  assumes "mset xs = mset ys" "length (filter P xs) \<le> 1"
  shows "filter P xs = filter P ys"
proof -
  have same: "mset (filter P xs) = mset (filter P ys)" using assms(1) by simp
  then have "length (filter P ys) = length (filter P xs)" by (metis size_mset)
  then show ?thesis using same assms(2) by (cases "filter P xs"; cases "filter P ys") auto
qed

definition concerns :: "string \<Rightarrow> bool \<Rightarrow> activity \<Rightarrow> bool" where
  "concerns h vitals act \<longleftrightarrow> (case act of Vitals g _ \<Rightarrow> vitals \<and> hst_name g = h | Docker g _ \<Rightarrow> \<not> vitals \<and> hst_name g = h | _ \<Rightarrow> False)"

lemma one_job_concerns:
  assumes "distinct (map hst_name hosts)"
  shows "length (filter (concerns h vitals) (round_jobs hosts ssh http)) \<le> 1"
proof -
  have "length (filter (\<lambda>x. x = h) xs) \<le> 1" if "distinct xs" for xs
    using that by (induction xs) (auto simp: filter_empty_conv)
  note at_most = this
  have one: "length (filter (\<lambda>g. hst_name g = h) gs) \<le> 1" if "distinct (map hst_name gs)" for gs
  proof -
    have "length (filter (\<lambda>g. hst_name g = h) gs) = length (filter (\<lambda>x. x = h) (map hst_name gs))"
      by (simp add: filter_map o_def)
    then show ?thesis using at_most [OF that] by simp
  qed
  have sub: "distinct (map hst_name (filter Q hosts))" for Q
    using assms by (simp add: distinct_map inj_on_def)
  have "filter (concerns h vitals) (round_jobs hosts ssh http) =
      (if vitals then map (\<lambda>g. Vitals g (ssh g)) (filter (\<lambda>g. hst_name g = h) hosts)
       else map (\<lambda>g. Docker g (http g)) (filter (\<lambda>g. hst_name g = h) (filter (\<lambda>g. hst_docker_url g \<noteq> []) hosts)))"
    by (simp add: round_jobs_def filter_map o_def concerns_def)
  then show ?thesis using one [OF assms] one [OF sub] by simp
qed

lemma somes_map_Some: "somes (map (\<lambda>i. Some (f i)) xs) = map f xs"
  by (induction xs) simp_all

lemma outcomes_in_order:
  assumes "distinct arrivals" "set arrivals = {..<length jobs}"
  shows "somes (map (map_of (zip arrivals (map (\<lambda>i. g (jobs ! i)) arrivals))) [0..<length jobs]) = map g jobs"
proof -
  have "map_of (zip arrivals (map (\<lambda>i. g (jobs ! i)) arrivals)) i = Some (g (jobs ! i))" if "i < length jobs" for i
    using that assms by (simp add: map_of_zip_map)
  then have "map (map_of (zip arrivals (map (\<lambda>i. g (jobs ! i)) arrivals))) [0..<length jobs] = map (\<lambda>i. Some (g (jobs ! i))) [0..<length jobs]"
    by (intro map_cong) auto
  also have "somes \<dots> = map (\<lambda>i. g (jobs ! i)) [0..<length jobs]"
    by (rule somes_map_Some)
  also have "\<dots> = map g jobs" by (rule nth_equalityI) simp_all
  finally show ?thesis .
qed

lemma arrivals_permute: "distinct arrivals \<Longrightarrow> set arrivals = {..<length jobs} \<Longrightarrow> mset (map ((!) jobs) arrivals) = mset jobs"
proof -
  assume "distinct arrivals" "set arrivals = {..<length jobs}"
  then have "mset arrivals = mset [0..<length jobs]" 
    by (metis atLeast0LessThan distinct_upt set_eq_iff_mset_eq_distinct set_upt)
  then have "mset (map ((!) jobs) arrivals) = mset (map ((!) jobs) [0..<length jobs])" by simp
  then show ?thesis by (simp only: map_nth)
qed

definition fleet_target :: "string list \<Rightarrow> string \<Rightarrow> bool" where
  "fleet_target names t \<longleftrightarrow> (\<exists>h\<in>set names. t = ''host:'' @ h \<or> t = ''docker:'' @ h \<or> (\<exists>c. t = ''container:'' @ h @ ''/'' @ c))"

lemma results_same_order:
  assumes "fleet_names names" "list_all (in_fleet names) jobs" "fleet_target names t" "mset acts = mset jobs" "mset acts' = mset jobs"
    "\<And>h vitals. length (filter (concerns h vitals) jobs) \<le> 1"
  shows "foldl (results_after t) r acts = foldl (results_after t) r acts'"
proof -
  obtain h where h: "h \<in> set names" "t = ''host:'' @ h \<or> t = ''docker:'' @ h \<or> (\<exists>c. t = ''container:'' @ h @ ''/'' @ c)"
    using assms(3) by (auto simp: fleet_target_def)
  have "\<exists>vitals. \<forall>act\<in>set jobs. \<not> concerns h vitals act \<longrightarrow> (\<forall>r. results_after t r act = r)"
  proof (cases "t = ''host:'' @ h")
    case True
    then show ?thesis
      by (intro exI [of _ True]) (auto simp: results_host [simplified] host_results_def concerns_def split: activity.splits ssh_result.splits)
  next
    case False
    then consider "t = ''docker:'' @ h" | c where "t = ''container:'' @ h @ ''/'' @ c" using h(2) by blast
    then show ?thesis
    proof cases
      case 1
      then show ?thesis
        by (intro exI [of _ False]) (auto simp: results_endpoint [simplified] endpoint_results_def concerns_def split: activity.splits)
    next
      case 2
      have "results_after t r act = r" if "act \<in> set jobs" "\<not> concerns h False act" for act r
        using that results_container [OF assms(1) _ h(1), of act c r] assms(2) unfolding 2
        by (auto simp: list_all_iff container_after_def concerns_def split: activity.splits http_result.splits json.splits)
      then show ?thesis by blast
    qed
  qed
  then obtain vitals where noop: "\<And>act r. act \<in> set jobs \<Longrightarrow> \<not> concerns h vitals act \<Longrightarrow> results_after t r act = r" by blast
  have sets: "set acts = set jobs" "set acts' = set jobs" using assms(4,5) by (metis set_mset_mset)+
  have "filter (concerns h vitals) jobs = filter (concerns h vitals) acts" "filter (concerns h vitals) jobs = filter (concerns h vitals) acts'"
    using one_of_permutation [OF _ assms(6)] assms(4,5) by metis+
  then show ?thesis
    using fold_relevant [of acts "concerns h vitals" "results_after t" r] fold_relevant [of acts' "concerns h vitals" "results_after t" r] noop sets by simp
qed

lemma tick_outcome:
  assumes "stored_instant moment" "tables_ok d" "distinct arrivals" "set arrivals = {..<length jobs}"
  shows "\<exists>d'. tick moment jobs arrivals d = (d', Inr (concat (map seen_checks jobs))) \<and> tables_ok d' \<and>
    (\<forall>t h. tracks 2 h t (fd_checks d) \<longrightarrow> tracks 2 (foldl (results_after t) h (map ((!) jobs) arrivals)) t (fd_checks d'))"
proof -
  have "list_all (\<lambda>(moment, _). stored_instant moment) (map (\<lambda>i. (moment, jobs ! i)) arrivals)"
    using assms(1) by (simp add: list_all_iff)
  from perform_all_steps [OF this assms(2)]
  obtain d' where d': "perform_all (map (\<lambda>i. (moment, jobs ! i)) arrivals) d = (d', map (\<lambda>i. Inr (seen_checks (jobs ! i))) arrivals)" "tables_ok d'"
    "\<forall>t h. tracks 2 h t (fd_checks d) \<longrightarrow> tracks 2 (foldl (results_after t) h (map ((!) jobs) arrivals)) t (fd_checks d')"
    by (auto simp: o_def)
  have listed: "somes (map (map_of (zip arrivals (map (\<lambda>i. Inr (seen_checks (jobs ! i))) arrivals))) [0..<length jobs])
      = map (\<lambda>j. Inr (seen_checks j) :: exn + check_result list) jobs"
    by (rule outcomes_in_order [OF assms(3,4)])
  have "logRaised (map (\<lambda>j. Inr (seen_checks j)) jobs) = Inr (map seen_checks jobs)"
  proof -
    have "List.find (\<lambda>r. r = Inl (Failure ''AbortError'')) (map (\<lambda>j. Inr (seen_checks j) :: exn + check_result list) jobs) = None"
      by (auto simp: find_None)
    moreover have "concat (map (\<lambda>r. case r of Inr a \<Rightarrow> [a] | Inl _ \<Rightarrow> []) (map (\<lambda>j. Inr (seen_checks j) :: exn + check_result list) jobs)) = map seen_checks jobs"
      by (induction jobs) simp_all
    ultimately show ?thesis by (simp add: logRaised_def)
  qed
  then show ?thesis using d' by (simp add: tick_def listed writeHeartbeat_def tables_ok_def)
qed

text \<open>C17: The order in which a round's answers arrive does not matter. Whatever happened before, two rounds whose
  hosts and endpoints give the same answers return the same checks in the same order, whichever answer came
  first, and leave the same hosts, endpoints and containers of the fleet down.\<close>

theorem arrival_order_does_not_matter:
  assumes "list_all (\<lambda>(moment, _). stored_instant moment) acts" "stored_instant moment" "fleet_names (map hst_name hosts)"
    and "distinct arrivals" "set arrivals = {..<length (round_jobs hosts ssh http)}"
    and "distinct arrivals'" "set arrivals' = {..<length (round_jobs hosts ssh http)}"
    and "fleet_target (map hst_name hosts) t"
  shows "let d = fst (perform_all acts empty_fleet); jobs = round_jobs hosts ssh http in
    snd (tick moment jobs arrivals d) = Inr (concat (map seen_checks jobs)) \<and>
    snd (tick moment jobs arrivals d) = snd (tick moment jobs arrivals' d) \<and>
    down_now t (fd_checks (fst (tick moment jobs arrivals d))) = down_now t (fd_checks (fst (tick moment jobs arrivals' d)))"
proof -
  let ?jobs = "round_jobs hosts ssh http" and ?names = "map hst_name hosts"
  obtain d where d: "fst (perform_all acts empty_fleet) = d" "tables_ok d" "\<exists>h. tracks 2 h t (fd_checks d)"
    using perform_all_steps [OF assms(1) tables_ok_empty] tracks_empty by fastforce
  then obtain h where h: "tracks 2 h t (fd_checks d)" by blast
  obtain e where e: "tick moment ?jobs arrivals d = (e, Inr (concat (map seen_checks ?jobs)))"
    "tracks 2 (foldl (results_after t) h (map ((!) ?jobs) arrivals)) t (fd_checks e)"
    using tick_outcome [OF assms(2) d(2) assms(4,5)] h by blast
  obtain e' where e': "tick moment ?jobs arrivals' d = (e', Inr (concat (map seen_checks ?jobs)))"
    "tracks 2 (foldl (results_after t) h (map ((!) ?jobs) arrivals')) t (fd_checks e')"
    using tick_outcome [OF assms(2) d(2) assms(6,7)] h by blast
  have fleet: "list_all (in_fleet ?names) ?jobs" by (auto simp: list_all_iff round_jobs_def in_fleet_def)
  have names: "distinct ?names" using assms(3) by (simp add: fleet_names_def distinct_map inj_on_def)
  have "foldl (results_after t) h (map ((!) ?jobs) arrivals) = foldl (results_after t) h (map ((!) ?jobs) arrivals')"
    by (rule results_same_order [OF assms(3) fleet assms(8) arrivals_permute [OF assms(4,5)] arrivals_permute [OF assms(6,7)] one_job_concerns [OF names]])
  then have "down_now t (fd_checks e) = down_now t (fd_checks e')" using e(2) e'(2) by (simp add: tracks_def)
  then show ?thesis using e(1) e'(1) d(1) by (simp add: Let_def)
qed

lemma arrival_order_does_not_matter_witness:
  "snd (tick 1790000000000 (round_jobs [\<lparr>hst_name = ''syrax'', hst_ip = [], hst_has_gpu = False, hst_docker_url = [], hst_plex_url = []\<rparr>,
       \<lparr>hst_name = ''caraxes'', hst_ip = [], hst_has_gpu = False, hst_docker_url = [], hst_plex_url = []\<rparr>]
       (\<lambda>_. Ssh_failed ''timeout'') (\<lambda>_. Http_failed ''refused'')) [1, 0] (fst (perform_all [] empty_fleet)))
   = Inr [host_check ''syrax'' (Ssh_failed ''timeout'') 0, host_check ''caraxes'' (Ssh_failed ''timeout'') 0]"
proof -
  define hosts where "hosts = [\<lparr>hst_name = ''syrax'', hst_ip = [], hst_has_gpu = False, hst_docker_url = [], hst_plex_url = []\<rparr>,
       \<lparr>hst_name = ''caraxes'', hst_ip = [], hst_has_gpu = False, hst_docker_url = [], hst_plex_url = []\<rparr>]"
  let ?jobs = "round_jobs hosts (\<lambda>_. Ssh_failed ''timeout'') (\<lambda>_. Http_failed ''refused'')"
  have jobs: "?jobs = map (\<lambda>h. Vitals h (Ssh_failed ''timeout'')) hosts" by (simp add: round_jobs_def hosts_def)
  then have two: "length ?jobs = 2" by (simp add: hosts_def)
  have names: "map hst_name hosts = [''syrax'', ''caraxes'']" by (simp add: hosts_def)
  have "fleet_names [''syrax'', ''caraxes'']" "stored_instant 1790000000000" by code_simp+
  then have "snd (tick 1790000000000 ?jobs [1, 0] (fst (perform_all [] empty_fleet))) = Inr (concat (map seen_checks ?jobs))"
    using arrival_order_does_not_matter [of "[]" 1790000000000 hosts "[1, 0]" "\<lambda>_. Ssh_failed ''timeout''" "\<lambda>_. Http_failed ''refused''" "[0, 1]" "''host:'' @ ''syrax''"]
    unfolding names two by (auto simp: Let_def fleet_target_def lessThan_Suc numeral_2_eq_2)
  then show ?thesis unfolding hosts_def [symmetric] jobs by (simp add: hosts_def seen_checks_def)
qed

end
