(* ===== verification/PlexProbe.thy ===== *)
theory PlexProbe imports Transport begin

text \<open>
  What the monitor reads out of a Plex server's answers (\<open>apps/fleet-monitor/src/probes/plex.ts\<close>). Every parser
  is total: a row it cannot read is skipped. A number in an answer is an integer, the only kind the code accepts.
\<close>

datatype play_kind = Movie | Episode | Track

datatype quality = Q4k | Q1080p | Q720p | Qsd

definition kind_name :: "play_kind \<Rightarrow> string" where
  "kind_name k = (case k of Movie \<Rightarrow> ''movie'' | Episode \<Rightarrow> ''episode'' | Track \<Rightarrow> ''track'')"

definition KINDS :: "play_kind list" where
  "KINDS = [Movie, Episode, Track]"

definition LEAF_TYPE :: "play_kind \<Rightarrow> nat" where
  "LEAF_TYPE k = (case k of Movie \<Rightarrow> 1 | Episode \<Rightarrow> 4 | Track \<Rightarrow> 10)"

definition QUALITY_RANK :: "quality \<Rightarrow> nat" where
  "QUALITY_RANK q = (case q of Q4k \<Rightarrow> 4 | Q1080p \<Rightarrow> 3 | Q720p \<Rightarrow> 2 | Qsd \<Rightarrow> 1)"

record play_entry =
  pe_history_id :: int
  pe_rating_key :: string
  pe_kind :: play_kind
  pe_title :: string
  pe_section_id :: "string option"
  pe_account_id :: int
  pe_device_id :: "int option"
  pe_viewed_at :: int

record media_item =
  mi_rating_key :: string
  mi_kind :: play_kind
  mi_title :: string
  mi_parent_rating_key :: "string option"
  mi_parent_title :: "string option"
  mi_parent_index :: "int option"
  mi_grandparent_rating_key :: "string option"
  mi_grandparent_title :: "string option"
  mi_index :: "int option"
  mi_year :: "int option"
  mi_section_id :: "string option"
  mi_duration_ms :: "int option"
  mi_video_resolution :: "string option"
  mi_width :: "int option"
  mi_height :: "int option"
  mi_quality :: "quality option"
  mi_thumb :: "string option"
  mi_added_at :: "int option"

record plex_account =
  pa_account_id :: int
  pa_name :: string
  pa_thumb :: "string option"

record plex_device =
  pd_device_id :: int
  pd_name :: string
  pd_platform :: "string option"
  pd_client_identifier :: "string option"

record plex_section =
  ps_section_id :: string
  ps_title :: string
  ps_kind :: play_kind
  ps_locations :: "string list"

record server_info =
  si_friendly_name :: string
  si_machine_id :: string
  si_version :: string

record page_info =
  pi_size :: int
  pi_total_size :: int
  pi_offset :: int

definition SECTION_KIND :: "(string \<times> play_kind) list" where
  "SECTION_KIND = [(''movie'', Movie), (''show'', Episode), (''artist'', Track)]"

definition RESOLUTION_LABELS :: "(string \<times> quality) list" where
  "RESOLUTION_LABELS = [(''4k'', Q4k), (''1080'', Q1080p), (''1080p'', Q1080p), (''1080i'', Q1080p), (''720'', Q720p), (''720p'', Q720p),
     (''sd'', Qsd), (''480'', Qsd), (''576'', Qsd)]"

subsection \<open>Narrowing\<close>

definition kind_of :: "json option \<Rightarrow> play_kind option" where
  \<comment> \<open>\<open>isKind\<close>\<close>
  "kind_of v = (case v of Some (JStr s) \<Rightarrow> List.find (\<lambda>k. kind_name k = s) KINDS | _ \<Rightarrow> None)"

definition plex_container :: "json \<Rightarrow> json_object" where
  \<comment> \<open>\<open>container\<close>\<close>
  "plex_container payload = (case fields_of payload of None \<Rightarrow> [] | Some obj \<Rightarrow> nested obj ''MediaContainer'')"

definition objects_in :: "json option \<Rightarrow> json_object list" where
  \<comment> \<open>\<open>found.filter(isObject)\<close> of an array\<close>
  "objects_in v = (case v of Some (JArr xs) \<Rightarrow> somes (map fields_of xs) | _ \<Rightarrow> [])"

definition plex_rows :: "json \<Rightarrow> string \<Rightarrow> json_object list" where
  \<comment> \<open>\<open>rows\<close>\<close>
  "plex_rows payload key = objects_in (field (plex_container payload) key)"

definition integer_of :: "json option \<Rightarrow> int option" where
  \<comment> \<open>\<open>integer\<close>: \<open>parseInteger\<close> without a plus sign\<close>
  "integer_of v = (case v of
     Some (JNum n) \<Rightarrow> Some n
   | Some (JStr s) \<Rightarrow> (let t = trim s; (negative, ds) = (case t of c # r \<Rightarrow> if c = CHR ''-'' then (True, r) else (False, t) | [] \<Rightarrow> (False, t))
       in if ds \<noteq> [] \<and> list_all is_digit ds then Some (if negative then - int (read_nat ds) else int (read_nat ds)) else None)
   | _ \<Rightarrow> None)"

definition text_of :: "json option \<Rightarrow> string option" where
  \<comment> \<open>\<open>text\<close>\<close>
  "text_of v = (case v of Some (JStr s) \<Rightarrow> if s = [] then None else Some s | _ \<Rightarrow> None)"

definition key_of :: "json option \<Rightarrow> string option" where
  \<comment> \<open>\<open>key\<close>\<close>
  "key_of v = (case v of
     Some (JNum n) \<Rightarrow> Some (show_int n)
   | Some (JStr s) \<Rightarrow> if s \<noteq> [] \<and> list_all is_digit s then Some s else None
   | _ \<Rightarrow> None)"

definition historyId :: "json option \<Rightarrow> int option" where
  "historyId v = (case v of
     Some (JStr s) \<Rightarrow> (let tail = rev (takeWhile (\<lambda>c. c \<noteq> CHR ''/'') (rev s))
       in if tail \<noteq> [] \<and> list_all is_digit tail then Some (int (read_nat tail)) else None)
   | _ \<Rightarrow> None)"

subsection \<open>Answers\<close>

definition pageInfo :: "json \<Rightarrow> page_info option" where
  "pageInfo payload = (let found = plex_container payload in
     case integer_of (field found ''size'') of None \<Rightarrow> None
     | Some rows_here \<Rightarrow> Some \<lparr>pi_size = rows_here,
         pi_total_size = (case integer_of (field found ''totalSize'') of Some n \<Rightarrow> n | None \<Rightarrow> rows_here),
         pi_offset = (case integer_of (field found ''offset'') of Some n \<Rightarrow> n | None \<Rightarrow> 0)\<rparr>)"

definition history_entry :: "json_object \<Rightarrow> play_entry list" where
  "history_entry row =
     (case (kind_of (field row ''type''), historyId (field row ''historyKey''), key_of (field row ''ratingKey''),
            integer_of (field row ''accountID''), integer_of (field row ''viewedAt'')) of
       (Some kind, Some entryId, Some ratingKey, Some account, Some viewedAt) \<Rightarrow>
         [\<lparr>pe_history_id = entryId, pe_rating_key = ratingKey, pe_kind = kind, pe_title = text_or_empty (text_of (field row ''title'')),
           pe_section_id = key_of (field row ''librarySectionID''), pe_account_id = account,
           pe_device_id = integer_of (field row ''deviceID''), pe_viewed_at = viewedAt\<rparr>]
     | _ \<Rightarrow> [])"

definition parseHistory :: "json \<Rightarrow> play_entry list" where
  "parseHistory payload = concat (map history_entry (plex_rows payload ''Metadata''))"

definition qualityBucket :: "string option \<Rightarrow> int option \<Rightarrow> quality option" where
  "qualityBucket videoResolution width =
     (case map_of RESOLUTION_LABELS (toLowerCase (trim (text_or_empty videoResolution))) of
       Some labelled \<Rightarrow> Some labelled
     | None \<Rightarrow> (case width of None \<Rightarrow> None
         | Some w \<Rightarrow> if w \<le> 0 then None else if w \<ge> 3000 then Some Q4k else if w \<ge> 1700 then Some Q1080p
             else if w \<ge> 1200 then Some Q720p else Some Qsd))"

definition version_rank :: "json_object \<Rightarrow> nat" where
  \<comment> \<open>\<open>rank\<close>\<close>
  "version_rank version = (case qualityBucket (text_of (field version ''videoResolution'')) (integer_of (field version ''width'')) of
     None \<Rightarrow> 0 | Some q \<Rightarrow> QUALITY_RANK q)"

definition bestMedia :: "json_object \<Rightarrow> json_object option" where
  "bestMedia row = (case objects_in (field row ''Media'') of [] \<Rightarrow> None
     | v # vs \<Rightarrow> Some (foldl (\<lambda>best version. if version_rank version > version_rank best then version else best) v vs))"

definition item_entry :: "string option \<Rightarrow> json_object \<Rightarrow> media_item list" where
  "item_entry sectionId row = (case (kind_of (field row ''type''), key_of (field row ''ratingKey'')) of
     (Some kind, Some ratingKey) \<Rightarrow>
       (let version = (case bestMedia row of Some v \<Rightarrow> v | None \<Rightarrow> []);
            resolution = text_of (field version ''videoResolution''); width = integer_of (field version ''width'')
        in [\<lparr>mi_rating_key = ratingKey, mi_kind = kind, mi_title = text_or_empty (text_of (field row ''title'')),
          mi_parent_rating_key = key_of (field row ''parentRatingKey''), mi_parent_title = text_of (field row ''parentTitle''),
          mi_parent_index = integer_of (field row ''parentIndex''),
          mi_grandparent_rating_key = key_of (field row ''grandparentRatingKey''),
          mi_grandparent_title = text_of (field row ''grandparentTitle''), mi_index = integer_of (field row ''index''),
          mi_year = integer_of (field row ''year''),
          mi_section_id = (case key_of (field row ''librarySectionID'') of Some k \<Rightarrow> Some k | None \<Rightarrow> sectionId),
          mi_duration_ms = (case integer_of (field row ''duration'') of Some n \<Rightarrow> Some n | None \<Rightarrow> integer_of (field version ''duration'')),
          mi_video_resolution = resolution, mi_width = width, mi_height = integer_of (field version ''height''),
          mi_quality = qualityBucket resolution width, mi_thumb = text_of (field row ''thumb''),
          mi_added_at = integer_of (field row ''addedAt'')\<rparr>])
   | _ \<Rightarrow> [])"

definition parseItems :: "json \<Rightarrow> string option \<Rightarrow> media_item list" where
  "parseItems payload sectionId = concat (map (item_entry sectionId) (plex_rows payload ''Metadata''))"

definition parseAccounts :: "json \<Rightarrow> plex_account list" where
  "parseAccounts payload = concat (map (\<lambda>row. case integer_of (field row ''id'') of None \<Rightarrow> []
     | Some accountId \<Rightarrow> [\<lparr>pa_account_id = accountId, pa_name = text_or_empty (text_of (field row ''name'')), pa_thumb = text_of (field row ''thumb'')\<rparr>])
     (plex_rows payload ''Account''))"

definition parseDevices :: "json \<Rightarrow> plex_device list" where
  "parseDevices payload = concat (map (\<lambda>row. case integer_of (field row ''id'') of None \<Rightarrow> []
     | Some deviceId \<Rightarrow> [\<lparr>pd_device_id = deviceId, pd_name = text_or_empty (text_of (field row ''name'')),
         pd_platform = text_of (field row ''platform''), pd_client_identifier = text_of (field row ''clientIdentifier'')\<rparr>])
     (plex_rows payload ''Device''))"

definition plex_locations :: "json_object \<Rightarrow> string list" where
  \<comment> \<open>\<open>locations\<close>\<close>
  "plex_locations row = somes (map (\<lambda>location. text_of (field location ''path'')) (objects_in (field row ''Location'')))"

definition parseSections :: "json \<Rightarrow> plex_section list" where
  "parseSections payload = concat (map (\<lambda>row. case (key_of (field row ''key''), str_field row ''type'') of
       (Some sectionId, Some kind_text) \<Rightarrow> (case map_of SECTION_KIND kind_text of None \<Rightarrow> []
         | Some kind \<Rightarrow> [\<lparr>ps_section_id = sectionId, ps_title = text_or_empty (text_of (field row ''title'')), ps_kind = kind,
             ps_locations = plex_locations row\<rparr>])
     | _ \<Rightarrow> []) (plex_rows payload ''Directory''))"

definition parseServer :: "json \<Rightarrow> server_info option" where
  "parseServer payload = (let found = plex_container payload in
     case text_of (field found ''machineIdentifier'') of None \<Rightarrow> None
     | Some machineId \<Rightarrow> Some \<lparr>si_friendly_name = text_or_empty (text_of (field found ''friendlyName'')), si_machine_id = machineId,
         si_version = text_or_empty (text_of (field found ''version''))\<rparr>)"

subsection \<open>A row of the ledger as a server writes it\<close>

definition entry_ok :: "play_entry \<Rightarrow> bool" where
  "entry_ok e \<longleftrightarrow> 0 \<le> pe_history_id e \<and> pe_rating_key e \<noteq> [] \<and> list_all is_digit (pe_rating_key e) \<and>
     (case pe_section_id e of None \<Rightarrow> True | Some s \<Rightarrow> s \<noteq> [] \<and> list_all is_digit s)"

definition history_key :: "nat \<Rightarrow> string" where
  "history_key n = ''/status/sessions/history/'' @ show_nat n"

definition history_row :: "play_entry \<Rightarrow> json" where
  "history_row e = JObj ([(''type'', JStr (kind_name (pe_kind e))),
     (''historyKey'', JStr (history_key (nat (pe_history_id e)))),
     (''ratingKey'', JStr (pe_rating_key e)), (''title'', JStr (pe_title e)), (''accountID'', JNum (pe_account_id e)),
     (''viewedAt'', JNum (pe_viewed_at e))] @
     (case pe_section_id e of None \<Rightarrow> [] | Some s \<Rightarrow> [(''librarySectionID'', JStr s)]) @
     (case pe_device_id e of None \<Rightarrow> [] | Some n \<Rightarrow> [(''deviceID'', JNum n)]))"

lemma historyId_written:
  "historyId (Some (JStr (history_key n))) = Some (int n)"
proof -
  have no_slash: "CHR ''/'' \<notin> set (show_nat n)"
    using show_nat_digits [of n] by (auto simp: list_all_iff is_digit_def code_of_def)
  have "takeWhile (\<lambda>c. c \<noteq> CHR ''/'') (rev (show_nat n) @ CHR ''/'' # r) = rev (show_nat n)" for r
    using no_slash by (auto simp: takeWhile_append takeWhile_eq_all_conv)
  then show ?thesis by (simp add: historyId_def history_key_def show_nat_digits read_show_nat)
qed

lemma kind_of_name [simp]: "kind_of (Some (JStr (kind_name k))) = Some k"
  by (cases k) (simp_all add: kind_of_def KINDS_def kind_name_def)

lemma history_entry_written: "entry_ok e \<Longrightarrow> concat (map history_entry (somes [fields_of (history_row e)])) = [e]"
  unfolding history_row_def fields_of.simps somes_simps
  by (cases "pe_section_id e"; cases "pe_device_id e")
    (simp_all add: history_entry_def field_def historyId_written integer_of_def key_of_def text_of_def entry_ok_def)

end
