(* ===== verification/Ledger.thy ===== *)
theory Ledger imports PlexProbe begin

text \<open>
  The ledger of plays (\<open>apps/fleet-monitor/src/plays/ledger.ts\<close>): its tables, every write, and the reads a pass over
  a Plex server needs. A table is its rows in the order they were first written; kinds and qualities are
  stored as text. \<open>INSERT ... ON CONFLICT DO UPDATE\<close> is \<open>upsert\<close>, \<open>INSERT OR IGNORE\<close> is \<open>insert_new\<close>.
\<close>

subsection \<open>Tables\<close>

record plex_server_row =
  psr_host :: string
  psr_friendly_name :: "string option"
  psr_machine_id :: "string option"
  psr_version :: "string option"
  psr_history_cursor :: "int option"
  psr_history_synced_at :: "string option"
  psr_history_ok :: bool
  psr_library_synced_at :: "string option"
  psr_library_ok :: bool
  psr_last_error :: "string option"

record account_row =
  acr_host :: string
  acr_account_id :: int
  acr_name :: string
  acr_thumb :: "string option"

record device_row =
  dvr_host :: string
  dvr_device_id :: int
  dvr_name :: string
  dvr_platform :: "string option"
  dvr_client_identifier :: "string option"

record section_row =
  scr_host :: string
  scr_section_id :: string
  scr_title :: string
  scr_kind :: string
  scr_excluded :: bool

record item_row =
  itr_host :: string
  itr_rating_key :: string
  itr_kind :: string
  itr_title :: string
  itr_item :: "media_item option"   \<comment> \<open>the other columns, null in a stub\<close>
  itr_present :: bool
  itr_seen_at :: string

record play_row =
  plr_host :: string
  plr_history_id :: int
  plr_rating_key :: string
  plr_kind :: string
  plr_title :: string
  plr_section_id :: "string option"
  plr_account_id :: int
  plr_device_id :: "int option"
  plr_viewed_at :: int

record ledger =
  lg_servers :: "plex_server_row list"
  lg_accounts :: "account_row list"
  lg_devices :: "device_row list"
  lg_sections :: "section_row list"
  lg_items :: "item_row list"
  lg_plays :: "play_row list"

record purged =
  pu_plays :: nat
  pu_items :: nat

definition upsert :: "('r \<Rightarrow> 'k) \<Rightarrow> ('r \<Rightarrow> 'r) \<Rightarrow> 'r \<Rightarrow> 'r list \<Rightarrow> 'r list" where
  "upsert key change new rows = (if List.member (map key rows) (key new)
     then map (\<lambda>r. if key r = key new then change r else r) rows else rows @ [new])"

definition insert_new :: "('r \<Rightarrow> 'k) \<Rightarrow> 'r \<Rightarrow> 'r list \<Rightarrow> 'r list" where
  "insert_new key new rows = (if List.member (map key rows) (key new) then rows else rows @ [new])"

subsection \<open>Servers\<close>

definition blank_server :: "string \<Rightarrow> plex_server_row" where
  "blank_server h = \<lparr>psr_host = h, psr_friendly_name = None, psr_machine_id = None, psr_version = None, psr_history_cursor = None,
     psr_history_synced_at = None, psr_history_ok = False, psr_library_synced_at = None, psr_library_ok = False, psr_last_error = None\<rparr>"

definition write_server :: "string \<Rightarrow> (plex_server_row \<Rightarrow> plex_server_row) \<Rightarrow> ledger \<Rightarrow> ledger" where
  \<comment> \<open>the columns given, into a new row or over the one there\<close>
  "write_server h change l = l\<lparr>lg_servers := upsert psr_host change (change (blank_server h)) (lg_servers l)\<rparr>"

definition upsertServer :: "string \<Rightarrow> server_info \<Rightarrow> ledger \<Rightarrow> ledger" where
  "upsertServer h info = write_server h (\<lambda>r. r\<lparr>psr_friendly_name := Some (si_friendly_name info),
     psr_machine_id := Some (si_machine_id info), psr_version := Some (si_version info)\<rparr>)"

definition markHistory :: "string \<Rightarrow> int \<Rightarrow> bool \<Rightarrow> string option \<Rightarrow> ledger \<Rightarrow> ledger" where
  "markHistory h moment fine error_text = write_server h (\<lambda>r. r\<lparr>psr_history_synced_at := Some (isoformat moment),
     psr_history_ok := fine, psr_last_error := error_text\<rparr>)"

definition markLibrary :: "string \<Rightarrow> int \<Rightarrow> bool \<Rightarrow> string option \<Rightarrow> ledger \<Rightarrow> ledger" where
  "markLibrary h moment fine error_text = write_server h (\<lambda>r. r\<lparr>psr_library_synced_at := Some (isoformat moment), psr_library_ok := fine,
     psr_last_error := (case error_text of Some e \<Rightarrow> Some e | None \<Rightarrow> psr_last_error r)\<rparr>)"

definition setHistoryCursor :: "string \<Rightarrow> int \<Rightarrow> ledger \<Rightarrow> ledger" where
  "setHistoryCursor h cursor = write_server h (\<lambda>r. r\<lparr>psr_history_cursor := Some cursor\<rparr>)"

definition historyCursor :: "string \<Rightarrow> ledger \<Rightarrow> int option" where
  "historyCursor h l = (case List.find (\<lambda>r. psr_host r = h) (lg_servers l) of None \<Rightarrow> None | Some r \<Rightarrow> psr_history_cursor r)"

subsection \<open>Accounts, devices and sections\<close>

definition upsertAccounts :: "string \<Rightarrow> plex_account list \<Rightarrow> ledger \<Rightarrow> ledger" where
  "upsertAccounts h accounts l = l\<lparr>lg_accounts := fold (\<lambda>a. upsert (\<lambda>r. (acr_host r, acr_account_id r))
     (\<lambda>r. r\<lparr>acr_name := pa_name a, acr_thumb := pa_thumb a\<rparr>)
     \<lparr>acr_host = h, acr_account_id = pa_account_id a, acr_name = pa_name a, acr_thumb = pa_thumb a\<rparr>) accounts (lg_accounts l)\<rparr>"

definition upsertDevices :: "string \<Rightarrow> plex_device list \<Rightarrow> ledger \<Rightarrow> ledger" where
  "upsertDevices h devices l = l\<lparr>lg_devices := fold (\<lambda>d. upsert (\<lambda>r. (dvr_host r, dvr_device_id r))
     (\<lambda>r. r\<lparr>dvr_name := pd_name d, dvr_platform := pd_platform d, dvr_client_identifier := pd_client_identifier d\<rparr>)
     \<lparr>dvr_host = h, dvr_device_id = pd_device_id d, dvr_name = pd_name d, dvr_platform = pd_platform d,
       dvr_client_identifier = pd_client_identifier d\<rparr>) devices (lg_devices l)\<rparr>"

definition upsertSections :: "string \<Rightarrow> plex_section list \<Rightarrow> string list \<Rightarrow> ledger \<Rightarrow> ledger" where
  "upsertSections h sections excludedIds l = l\<lparr>lg_sections := fold (\<lambda>s. upsert (\<lambda>r. (scr_host r, scr_section_id r))
     (\<lambda>r. r\<lparr>scr_title := ps_title s, scr_kind := kind_name (ps_kind s), scr_excluded := List.member excludedIds (ps_section_id s)\<rparr>)
     \<lparr>scr_host = h, scr_section_id = ps_section_id s, scr_title = ps_title s, scr_kind = kind_name (ps_kind s),
       scr_excluded = List.member excludedIds (ps_section_id s)\<rparr>) sections (lg_sections l)\<rparr>"

definition excludedSectionIds :: "string \<Rightarrow> ledger \<Rightarrow> string list" where
  "excludedSectionIds h l = js_set (map scr_section_id (filter (\<lambda>r. scr_host r = h \<and> scr_excluded r) (lg_sections l)))"

definition in_sections :: "string list \<Rightarrow> string option \<Rightarrow> bool" where
  \<comment> \<open>\<open>section_id IN (...)\<close>\<close>
  "in_sections ids section_id = (case section_id of None \<Rightarrow> False | Some s \<Rightarrow> List.member ids s)"

definition item_section :: "item_row \<Rightarrow> string option" where
  \<comment> \<open>the \<open>section_id\<close> column\<close>
  "item_section r = (case itr_item r of None \<Rightarrow> None | Some i \<Rightarrow> mi_section_id i)"

definition purged_play :: "string \<Rightarrow> string list \<Rightarrow> ledger \<Rightarrow> play_row \<Rightarrow> bool" where
  "purged_play h ids l p \<longleftrightarrow> plr_host p = h \<and> (in_sections ids (plr_section_id p) \<or>
     list_ex (\<lambda>i. itr_host i = h \<and> in_sections ids (item_section i) \<and> itr_rating_key i = plr_rating_key p) (lg_items l))"

definition purgeSections :: "string \<Rightarrow> string list \<Rightarrow> ledger \<Rightarrow> ledger \<times> purged" where
  "purgeSections h ids l = (if ids = [] then (l, \<lparr>pu_plays = 0, pu_items = 0\<rparr>)
     else (l\<lparr>lg_plays := filter (\<lambda>p. \<not> purged_play h ids l p) (lg_plays l),
             lg_items := filter (\<lambda>i. \<not> (itr_host i = h \<and> in_sections ids (item_section i))) (lg_items l)\<rparr>,
           \<lparr>pu_plays = length (filter (purged_play h ids l) (lg_plays l)),
            pu_items = length (filter (\<lambda>i. itr_host i = h \<and> in_sections ids (item_section i)) (lg_items l))\<rparr>))"

subsection \<open>Items\<close>

definition item_key :: "item_row \<Rightarrow> string \<times> string" where
  "item_key r = (itr_host r, itr_rating_key r)"

definition item_row_of :: "string \<Rightarrow> int \<Rightarrow> media_item \<Rightarrow> item_row" where
  "item_row_of h seenAt item = \<lparr>itr_host = h, itr_rating_key = mi_rating_key item, itr_kind = kind_name (mi_kind item),
     itr_title = mi_title item, itr_item = Some item, itr_present = True, itr_seen_at = isoformat seenAt\<rparr>"

definition upsertItems :: "string \<Rightarrow> media_item list \<Rightarrow> int \<Rightarrow> ledger \<Rightarrow> ledger" where
  "upsertItems h items seenAt l = l\<lparr>lg_items := fold (\<lambda>item. upsert item_key (\<lambda>_. item_row_of h seenAt item) (item_row_of h seenAt item))
     items (lg_items l)\<rparr>"

definition min_text :: "string list \<Rightarrow> string" where
  "min_text ts = (case ts of [] \<Rightarrow> [] | t # r \<Rightarrow> foldl min t r)"

definition plays_of_item :: "string \<Rightarrow> string \<Rightarrow> ledger \<Rightarrow> play_row list" where
  "plays_of_item h key l = filter (\<lambda>p. plr_host p = h \<and> plr_rating_key p = key) (lg_plays l)"

definition stub_of :: "string \<Rightarrow> int \<Rightarrow> ledger \<Rightarrow> string \<Rightarrow> item_row" where
  "stub_of h seenAt l key = \<lparr>itr_host = h, itr_rating_key = key, itr_kind = min_text (map plr_kind (plays_of_item h key l)),
     itr_title = min_text (map plr_title (plays_of_item h key l)), itr_item = None, itr_present = False, itr_seen_at = isoformat seenAt\<rparr>"

definition stubMissingItems :: "string \<Rightarrow> string list \<Rightarrow> int \<Rightarrow> ledger \<Rightarrow> ledger" where
  "stubMissingItems h keys seenAt l = l\<lparr>lg_items := fold (\<lambda>key. insert_new item_key (stub_of h seenAt l key))
     (filter (\<lambda>key. plays_of_item h key l \<noteq> []) (sort (remdups keys))) (lg_items l)\<rparr>"

definition retireUnseenItems :: "string \<Rightarrow> int \<Rightarrow> ledger \<Rightarrow> ledger \<times> nat" where
  "retireUnseenItems h seenBefore l = (let unseen = (\<lambda>r. itr_host r = h \<and> itr_present r \<and> itr_seen_at r < isoformat seenBefore)
     in (l\<lparr>lg_items := map (\<lambda>r. if unseen r then r\<lparr>itr_present := False\<rparr> else r) (lg_items l)\<rparr>, length (filter unseen (lg_items l))))"

subsection \<open>Plays\<close>

definition play_key :: "play_row \<Rightarrow> string \<times> int" where
  "play_key r = (plr_host r, plr_history_id r)"

definition play_row_of :: "string \<Rightarrow> play_entry \<Rightarrow> play_row" where
  "play_row_of h e = \<lparr>plr_host = h, plr_history_id = pe_history_id e, plr_rating_key = pe_rating_key e, plr_kind = kind_name (pe_kind e),
     plr_title = pe_title e, plr_section_id = pe_section_id e, plr_account_id = pe_account_id e, plr_device_id = pe_device_id e,
     plr_viewed_at = pe_viewed_at e\<rparr>"

definition insertPlays :: "string \<Rightarrow> play_entry list \<Rightarrow> ledger \<Rightarrow> ledger \<times> nat" where
  "insertPlays h plays l = (let rows = fold (\<lambda>e. insert_new play_key (play_row_of h e)) plays (lg_plays l)
     in (l\<lparr>lg_plays := rows\<rparr>, length rows - length (lg_plays l)))"

definition missing_keys :: "string \<Rightarrow> ledger \<Rightarrow> string list" where
  \<comment> \<open>the keys \<open>missingItemKeys\<close> selects, before its limit\<close>
  "missing_keys h l = sort (remdups (map plr_rating_key (filter (\<lambda>p. plr_host p = h \<and>
     \<not> List.member (map item_key (lg_items l)) (h, plr_rating_key p)) (lg_plays l))))"

definition missingItemKeys :: "string \<Rightarrow> nat \<Rightarrow> ledger \<Rightarrow> string list" where
  "missingItemKeys h limit l = take limit (missing_keys h l)"

definition earliestPlay :: "string option \<Rightarrow> ledger \<Rightarrow> int option" where
  "earliestPlay h l = (case map plr_viewed_at (filter (\<lambda>p. h = None \<or> h = Some (plr_host p)) (lg_plays l)) of
     [] \<Rightarrow> None | t # ts \<Rightarrow> Some (foldl min t ts))"

subsection \<open>Keys\<close>

lemma set_insert_new: "set (insert_new key new rows) = (if key new \<in> key ` set rows then set rows else insert new (set rows))"
  by (auto simp: insert_new_def)

lemma keys_insert_new [simp]: "key ` set (insert_new key new rows) = insert (key new) (key ` set rows)"
  by (auto simp: insert_new_def)

lemma distinct_insert_new [simp]: "distinct (map key (insert_new key new rows)) \<longleftrightarrow> distinct (map key rows)"
  by (auto simp: insert_new_def)

lemma upsert_keys:
  assumes "\<And>r. key r = key new \<Longrightarrow> key (change r) = key new"
  shows "key ` set (upsert key change new rows) = insert (key new) (key ` set rows)"
    "distinct (map key (upsert key change new rows)) \<longleftrightarrow> distinct (map key rows)"
proof -
  have same: "map key (map (\<lambda>r. if key r = key new then change r else r) rows) = map key rows"
    using assms by (induction rows) auto
  then have keys: "key ` set (map (\<lambda>r. if key r = key new then change r else r) rows) = key ` set rows" by (metis set_map)
  show "key ` set (upsert key change new rows) = insert (key new) (key ` set rows)"
  proof (cases "key new \<in> key ` set rows")
    case True
    then have "upsert key change new rows = map (\<lambda>r. if key r = key new then change r else r) rows" by (simp add: upsert_def)
    then show ?thesis using keys True by (simp only: insert_absorb)
  next
    case False
    then show ?thesis by (simp add: upsert_def)
  qed
  show "distinct (map key (upsert key change new rows)) \<longleftrightarrow> distinct (map key rows)"
    using same by (auto simp: upsert_def simp del: map_map)
qed

lemma fold_insert_new:
  "set rows \<subseteq> set (fold (\<lambda>e. insert_new key (f e)) es rows)"
  "key ` set (fold (\<lambda>e. insert_new key (f e)) es rows) = key ` set rows \<union> (\<lambda>e. key (f e)) ` set es"
  "set (fold (\<lambda>e. insert_new key (f e)) es rows) \<subseteq> set rows \<union> f ` set es"
  "distinct (map key (fold (\<lambda>e. insert_new key (f e)) es rows)) \<longleftrightarrow> distinct (map key rows)"
proof -
  have grow: "set rows \<subseteq> set (insert_new key (f e) rows)" "set (insert_new key (f e) rows) \<subseteq> insert (f e) (set rows)" for e rows
    by (auto simp: set_insert_new)
  show "set rows \<subseteq> set (fold (\<lambda>e. insert_new key (f e)) es rows)"
    by (induction es arbitrary: rows) (simp, metis fold_simps(2) grow(1) subset_trans)
  show "key ` set (fold (\<lambda>e. insert_new key (f e)) es rows) = key ` set rows \<union> (\<lambda>e. key (f e)) ` set es"
    by (induction es arbitrary: rows) auto
  show "set (fold (\<lambda>e. insert_new key (f e)) es rows) \<subseteq> set rows \<union> f ` set es"
  proof (induction es arbitrary: rows)
    case (Cons e es)
    show ?case using Cons.IH [of "insert_new key (f e) rows"] grow(2) [of e rows] by auto
  qed simp
  show "distinct (map key (fold (\<lambda>e. insert_new key (f e)) es rows)) \<longleftrightarrow> distinct (map key rows)"
    by (induction es arbitrary: rows) simp_all
qed

lemma fold_upsert_keys:
  assumes "\<And>e r. e \<in> set es \<Longrightarrow> key r = key (f e) \<Longrightarrow> key (change e r) = key (f e)"
  shows "key ` set (fold (\<lambda>e. upsert key (change e) (f e)) es rows) = key ` set rows \<union> (\<lambda>e. key (f e)) ` set es"
    "distinct (map key (fold (\<lambda>e. upsert key (change e) (f e)) es rows)) \<longleftrightarrow> distinct (map key rows)"
proof -
  have "key ` set (fold (\<lambda>e. upsert key (change e) (f e)) es rows) = key ` set rows \<union> (\<lambda>e. key (f e)) ` set es \<and>
    (distinct (map key (fold (\<lambda>e. upsert key (change e) (f e)) es rows)) \<longleftrightarrow> distinct (map key rows))"
    using assms
  proof (induction es arbitrary: rows)
    case Nil
    then show ?case by simp
  next
    case (Cons e es)
    have "key ` set (upsert key (change e) (f e) rows) = insert (key (f e)) (key ` set rows)"
      "distinct (map key (upsert key (change e) (f e) rows)) \<longleftrightarrow> distinct (map key rows)"
      by (rule upsert_keys; use Cons.prems in simp)+
    then show ?case using Cons.IH [of "upsert key (change e) (f e) rows"] Cons.prems by auto
  qed
  then show "key ` set (fold (\<lambda>e. upsert key (change e) (f e)) es rows) = key ` set rows \<union> (\<lambda>e. key (f e)) ` set es"
    "distinct (map key (fold (\<lambda>e. upsert key (change e) (f e)) es rows)) \<longleftrightarrow> distinct (map key rows)" by blast+
qed

subsection \<open>Items behind the plays\<close>

lemma upsertItems_facts [simp]:
  "item_key ` set (lg_items (upsertItems h items seenAt l)) = item_key ` set (lg_items l) \<union> (\<lambda>i. (h, mi_rating_key i)) ` set items"
  "lg_plays (upsertItems h items seenAt l) = lg_plays l" "lg_servers (upsertItems h items seenAt l) = lg_servers l"
  "lg_sections (upsertItems h items seenAt l) = lg_sections l"
  using fold_upsert_keys(1) [of items item_key "item_row_of h seenAt" "\<lambda>item _. item_row_of h seenAt item" "lg_items l"]
  by (auto simp: upsertItems_def item_row_of_def item_key_def)

lemma stubMissingItems_facts [simp]:
  "item_key ` set (lg_items (stubMissingItems h keys seenAt l)) =
     item_key ` set (lg_items l) \<union> (\<lambda>key. (h, key)) ` {key \<in> set keys. plays_of_item h key l \<noteq> []}"
  "lg_plays (stubMissingItems h keys seenAt l) = lg_plays l" "lg_servers (stubMissingItems h keys seenAt l) = lg_servers l"
  "lg_sections (stubMissingItems h keys seenAt l) = lg_sections l"
  using fold_insert_new(2) [of item_key "stub_of h seenAt l" "filter (\<lambda>key. plays_of_item h key l \<noteq> []) (sort (remdups keys))" "lg_items l"]
  by (auto simp: stubMissingItems_def stub_of_def item_key_def)

lemma set_missing_keys: "set (missing_keys h l) = {key. (\<exists>p\<in>set (lg_plays l). plr_host p = h \<and> plr_rating_key p = key) \<and>
    (h, key) \<notin> item_key ` set (lg_items l)}"
  by (auto simp: missing_keys_def)

lemma distinct_missing_keys [simp]: "distinct (missing_keys h l)"
  by (simp add: missing_keys_def)

end
