(* ===== verification/PlexSync.thy ===== *)
theory PlexSync imports Ledger Collector begin

text \<open>
  The passes over a Plex server (\<open>apps/fleet-monitor/src/plexSync\<close>: \<open>client.ts\<close>, \<open>history.ts\<close>,
  \<open>inventory.ts\<close>, \<open>index.ts\<close>). The server is a parameter that is told every request so far, so it may fail or
  change its mind at any point; how its url is spelled, the token and the headers are left to it. A pass that
  pages a listing answers \<open>None\<close> when the server never lets it end.
\<close>

subsection \<open>The client\<close>

record plex_request =
  rq_path :: string
  rq_params :: "(string \<times> string) list"
  rq_start :: "int option"
  rq_size :: "int option"

record plex_env =
  px_JSON_parse :: "string \<Rightarrow> json option"
  px_wire :: "plex_request list \<Rightarrow> plex_request \<Rightarrow> bool \<times> (net_error + (int \<times> string))"
    \<comment> \<open>whether the deadline had passed, and what the request settled with\<close>

record sync_state =
  ss_checks :: checks_db
  ss_ledger :: ledger
  ss_asked :: "plex_request list"

definition answer_of :: "plex_env \<Rightarrow> plex_request list \<Rightarrow> plex_request \<Rightarrow> http_result" where
  \<comment> \<open>\<open>getJson\<close>, with a bare \<open>null\<close> a failure\<close>
  "answer_of env asked req = (let (deadline, settled) = px_wire env asked req in
     case getJson (px_JSON_parse env) deadline False settled of
       Inr (Http_ok JNull) \<Rightarrow> Http_failed ''bad_json''
     | Inr result \<Rightarrow> result
     | Inl _ \<Rightarrow> Http_failed ''bad_json'')"

definition client_get :: "plex_env \<Rightarrow> plex_request \<Rightarrow> sync_state \<Rightarrow> http_result \<times> sync_state" where
  \<comment> \<open>\<open>plexClient(...).get\<close>\<close>
  "client_get env req s = (answer_of env (ss_asked s) req, s\<lparr>ss_asked := ss_asked s @ [req]\<rparr>)"

definition get_path :: "string \<Rightarrow> plex_request" where
  "get_path path = \<lparr>rq_path = path, rq_params = [], rq_start = None, rq_size = None\<rparr>"

definition answeredOrGone :: "http_result \<Rightarrow> bool" where
  "answeredOrGone fetched = (case fetched of Http_ok _ \<Rightarrow> True | Http_failed reason \<Rightarrow> reason = ''http_404'')"

definition payloadOf :: "http_result \<Rightarrow> json option" where
  "payloadOf fetched = (case fetched of Http_ok payload \<Rightarrow> Some payload | Http_failed _ \<Rightarrow> None)"

partial_function (option) pageAll ::
  "plex_env \<Rightarrow> plex_request \<Rightarrow> int \<Rightarrow> (json \<Rightarrow> sync_state \<Rightarrow> sync_state) \<Rightarrow> int \<Rightarrow> sync_state \<Rightarrow> (string \<times> sync_state) option" where
  "pageAll env request pageSize keep start s =
     (case client_get env (request\<lparr>rq_start := Some start, rq_size := Some pageSize\<rparr>) s of (fetched, s1) \<Rightarrow>
      case fetched of
        Http_failed reason \<Rightarrow> Some (reason, s1)
      | Http_ok payload \<Rightarrow>
          (case pageInfo payload of
             None \<Rightarrow> Some ([], keep payload s1)
           | Some info \<Rightarrow> if pi_size info = 0 \<or> start + pi_size info \<ge> pi_total_size info then Some ([], keep payload s1)
               else pageAll env request pageSize keep (start + pi_size info) (keep payload s1)))"

declare pageAll.simps [code]

subsection \<open>The history pass\<close>

definition METADATA_BATCH :: nat where
  "METADATA_BATCH = 25"

definition HISTORY_PAGE :: int where
  "HISTORY_PAGE = 500"

definition OVERLAP_SECONDS :: int where
  "OVERLAP_SECONDS = 2 * 86400"

definition PLEX_HISTORY_INTERVAL :: int where
  "PLEX_HISTORY_INTERVAL = 300"

definition CHECK_GAP_SECONDS :: int where
  "CHECK_GAP_SECONDS = PLEX_HISTORY_INTERVAL * 3"

definition HISTORY_PATH :: string where
  "HISTORY_PATH = ''/status/sessions/history/all''"

definition in_ledger :: "(ledger \<Rightarrow> ledger) \<Rightarrow> sync_state \<Rightarrow> sync_state" where
  "in_ledger f s = s\<lparr>ss_ledger := f (ss_ledger s)\<rparr>"

definition record_pass :: "string \<Rightarrow> int \<Rightarrow> string option \<Rightarrow> sync_state \<Rightarrow> sync_state \<times> (exn + check_result)" where
  \<comment> \<open>the mark and the check a pass ends with; \<open>failed\<close> when there is a reason\<close>
  "record_pass h moment reason s =
     (let check = \<lparr>chk_target = ''plex:'' @ h, chk_ok = (reason = None), chk_reason = text_or_empty reason\<rparr> in
      case record_check check_threshold CHECK_GAP_SECONDS check moment (ss_checks s) of
        Inl e \<Rightarrow> (s, Inl e)
      | Inr (checks, _) \<Rightarrow> (s\<lparr>ss_checks := checks, ss_ledger := markHistory h moment (reason = None) reason (ss_ledger s)\<rparr>, Inr check))"

definition history_request :: "int \<Rightarrow> plex_request" where
  "history_request since = \<lparr>rq_path = HISTORY_PATH, rq_params = [(''sort'', ''viewedAt:asc''), (''viewedAt>'', show_int since)],
     rq_start = None, rq_size = None\<rparr>"

definition kept_entry :: "string list \<Rightarrow> play_entry \<Rightarrow> bool" where
  "kept_entry excluded e \<longleftrightarrow> (case pe_section_id e of None \<Rightarrow> True | Some sec \<Rightarrow> \<not> List.member excluded sec)"

definition keep_entries :: "string \<Rightarrow> string list \<Rightarrow> play_entry list \<Rightarrow> ledger \<Rightarrow> ledger" where
  "keep_entries h excluded entries l = (let l1 = fst (insertPlays h (filter (kept_entry excluded) entries) l)
     in case map pe_viewed_at entries of [] \<Rightarrow> l1 | t # ts \<Rightarrow> setHistoryCursor h (foldl max t ts) l1)"

definition keep_history_page :: "string \<Rightarrow> string list \<Rightarrow> json \<Rightarrow> sync_state \<Rightarrow> sync_state" where
  "keep_history_page h excluded payload = in_ledger (keep_entries h excluded (parseHistory payload))"

definition pageHistory :: "plex_env \<Rightarrow> string \<Rightarrow> int \<Rightarrow> int \<Rightarrow> string list \<Rightarrow> sync_state \<Rightarrow> (string \<times> sync_state) option" where
  "pageHistory env h since pageSize excluded s =
     pageAll env (history_request since) pageSize (keep_history_page h excluded) 0 s"

definition storeAnswered :: "string \<Rightarrow> int \<Rightarrow> string list \<Rightarrow> json option \<Rightarrow> sync_state \<Rightarrow> sync_state" where
  "storeAnswered h moment keys payload = (let items = (case payload of None \<Rightarrow> [] | Some p \<Rightarrow> parseItems p None) in
     in_ledger (\<lambda>l. stubMissingItems h (filter (\<lambda>key. \<not> List.member (map mi_rating_key items) key) keys) moment
       (upsertItems h items moment l)))"

definition metadata_request :: "string list \<Rightarrow> plex_request" where
  "metadata_request keys = get_path (''/library/metadata/'' @ joined '','' keys)"

definition enrich_one :: "plex_env \<Rightarrow> string \<Rightarrow> int \<Rightarrow> string \<Rightarrow> sync_state \<Rightarrow> string \<times> sync_state" where
  "enrich_one env h moment key s = (let (fetched, s1) = client_get env (metadata_request [key]) s in
     case fetched of
       Http_failed reason \<Rightarrow>
         if reason = ''timeout'' then ([], storeAnswered h moment [key] None s1)
         else if \<not> answeredOrGone fetched then (reason, s1)
         else ([], storeAnswered h moment [key] (payloadOf fetched) s1)
     | Http_ok _ \<Rightarrow> ([], storeAnswered h moment [key] (payloadOf fetched) s1))"

definition enrichSingly :: "plex_env \<Rightarrow> string \<Rightarrow> int \<Rightarrow> string list \<Rightarrow> sync_state \<Rightarrow> string \<times> sync_state" where
  "enrichSingly env h moment keys s =
     foldl (\<lambda>(reason, s) key. if reason \<noteq> [] then (reason, s) else enrich_one env h moment key s) ([], s) keys"

definition missing_in :: "string \<Rightarrow> sync_state \<Rightarrow> string list" where
  "missing_in h s = missing_keys h (ss_ledger s)"

lemma client_get_simps [simp]:
  "fst (client_get env req s) = answer_of env (ss_asked s) req"
  "ss_ledger (snd (client_get env req s)) = ss_ledger s" "ss_checks (snd (client_get env req s)) = ss_checks s"
  "ss_asked (snd (client_get env req s)) = ss_asked s @ [req]"
  by (simp_all add: client_get_def)

lemma failed_has_reason: "answer_of env asked req = Http_failed reason \<Longrightarrow> reason \<noteq> []"
proof -
  have "http_classify e \<noteq> []" for e by (simp add: http_classify_def Let_def)
  then show "answer_of env asked req = Http_failed reason \<Longrightarrow> reason \<noteq> []"
    by (auto simp: answer_of_def getJson_def judge_def Let_def split: prod.splits sum.splits option.splits http_result.splits json.splits if_splits)
qed

text \<open>Storing an answer for missing keys leaves none of them missing, and makes no other key missing.\<close>

lemma storeAnswered_missing:
  "set (missing_in h (storeAnswered h moment keys payload s)) \<subseteq> set (missing_in h s) - set keys"
  "lg_plays (ss_ledger (storeAnswered h moment keys payload s)) = lg_plays (ss_ledger s)"
  "ss_asked (storeAnswered h moment keys payload s) = ss_asked s"
  "ss_checks (storeAnswered h moment keys payload s) = ss_checks s"
  "lg_servers (ss_ledger (storeAnswered h moment keys payload s)) = lg_servers (ss_ledger s)"
  "lg_sections (ss_ledger (storeAnswered h moment keys payload s)) = lg_sections (ss_ledger s)"
  by (auto simp: missing_in_def set_missing_keys storeAnswered_def in_ledger_def Let_def plays_of_item_def filter_empty_conv)

text \<open>What asking about items leaves: fewer missing, and nothing else of the ledger's plays, servers or checks changed.\<close>

definition enriches :: "string \<Rightarrow> sync_state \<Rightarrow> sync_state \<Rightarrow> bool" where
  "enriches h s s' \<longleftrightarrow> set (missing_in h s') \<subseteq> set (missing_in h s) \<and> lg_plays (ss_ledger s') = lg_plays (ss_ledger s) \<and>
     lg_servers (ss_ledger s') = lg_servers (ss_ledger s) \<and> lg_sections (ss_ledger s') = lg_sections (ss_ledger s) \<and>
     ss_checks s' = ss_checks s \<and> (\<exists>asked. ss_asked s' = ss_asked s @ asked)"

lemma enriches_refl: "enriches h s s"
  by (simp add: enriches_def)

lemma enriches_trans: "enriches h s s1 \<Longrightarrow> enriches h s1 s2 \<Longrightarrow> enriches h s s2"
  by (auto simp: enriches_def)

lemma enriches_get: "enriches h s (snd (client_get env req s))"
  by (simp add: enriches_def missing_in_def)

lemma enriches_store: "enriches h s (storeAnswered h moment keys payload s)"
  using storeAnswered_missing [of h moment keys payload s] by (auto simp: enriches_def)

lemma enrich_one_missing:
  assumes "enrich_one env h moment key s = (reason, s')"
  shows "enriches h s s'" "reason = [] \<Longrightarrow> key \<notin> set (missing_in h s')" "length (ss_asked s') = Suc (length (ss_asked s))"
proof -
  let ?s1 = "snd (client_get env (metadata_request [key]) s)"
  have "(\<exists>payload. s' = storeAnswered h moment [key] payload ?s1) \<or> (reason \<noteq> [] \<and> s' = ?s1)"
    using assms failed_has_reason [of env "ss_asked s" "metadata_request [key]"]
    by (auto simp: enrich_one_def Let_def client_get_def split: http_result.splits if_splits)
  then have "enriches h ?s1 s' \<and> (reason = [] \<longrightarrow> key \<notin> set (missing_in h s')) \<and> length (ss_asked s') = length (ss_asked ?s1)"
  proof (elim disjE exE conjE)
    fix payload assume "s' = storeAnswered h moment [key] payload ?s1"
    then show ?thesis using storeAnswered_missing(1) [of h moment "[key]" payload ?s1] enriches_store [of h ?s1 moment "[key]" payload]
      by (auto simp: storeAnswered_missing(3))
  qed (simp add: enriches_refl)
  then show "enriches h s s'" "reason = [] \<Longrightarrow> key \<notin> set (missing_in h s')" "length (ss_asked s') = Suc (length (ss_asked s))"
    using enriches_trans [OF enriches_get] by auto
qed

lemma enrichSingly_missing:
  assumes "enrichSingly env h moment keys s = (reason, s')"
  shows "enriches h s s' \<and> (reason = [] \<longrightarrow> set keys \<inter> set (missing_in h s') = {}) \<and> length (ss_asked s') \<le> length (ss_asked s) + length keys"
  using assms
proof (induction keys arbitrary: s' reason rule: rev_induct)
  case Nil
  then show ?case by (simp add: enrichSingly_def enriches_refl)
next
  case (snoc key keys)
  obtain reason1 s1 where one: "enrichSingly env h moment keys s = (reason1, s1)" by fastforce
  have IH: "enriches h s s1 \<and> (reason1 = [] \<longrightarrow> set keys \<inter> set (missing_in h s1) = {}) \<and> length (ss_asked s1) \<le> length (ss_asked s) + length keys"
    by (rule snoc.IH [OF one])
  have last: "enrichSingly env h moment (keys @ [key]) s = (if reason1 \<noteq> [] then (reason1, s1) else enrich_one env h moment key s1)"
    using one by (simp add: enrichSingly_def)
  show ?case
  proof (cases "reason1 = []")
    case True
    then have step: "enrich_one env h moment key s1 = (reason, s')" using last snoc.prems by simp
    have "set (missing_in h s') \<subseteq> set (missing_in h s1)" using enrich_one_missing(1) [OF step] by (simp add: enriches_def)
    then show ?thesis using enrich_one_missing [OF step] True IH enriches_trans by fastforce
  next
    case False
    then show ?thesis using last snoc.prems IH by auto
  qed
qed

lemma fewer_missing:
  assumes "enriches h s s'" "key \<in> set (missing_in h s)" "key \<notin> set (missing_in h s')"
  shows "length (missing_in h s') < length (missing_in h s)"
proof -
  have "set (missing_in h s') \<subset> set (missing_in h s)" using assms by (auto simp: enriches_def)
  then have "card (set (missing_in h s')) < card (set (missing_in h s))" by (simp add: psubset_card_mono)
  then show ?thesis by (simp add: missing_in_def distinct_card)
qed

text \<open>One batch: what is stored, and whether the loop goes on.\<close>

definition enrich_batch :: "plex_env \<Rightarrow> string \<Rightarrow> int \<Rightarrow> string list \<Rightarrow> sync_state \<Rightarrow> string \<times> sync_state" where
  "enrich_batch env h moment keys s = (let (fetched, s1) = client_get env (metadata_request keys) s in
     case fetched of
       Http_failed reason \<Rightarrow>
         if reason = ''timeout'' then enrichSingly env h moment keys s1
         else if \<not> answeredOrGone fetched then (reason, s1)
         else ([], storeAnswered h moment keys (payloadOf fetched) s1)
     | Http_ok _ \<Rightarrow> ([], storeAnswered h moment keys (payloadOf fetched) s1))"

lemma enrich_batch_missing:
  assumes "enrich_batch env h moment keys s = (reason, s')"
  shows "enriches h s s'" "reason = [] \<Longrightarrow> set keys \<inter> set (missing_in h s') = {}"
    "length (ss_asked s') \<le> length (ss_asked s) + 1 + length keys"
proof -
  let ?s1 = "snd (client_get env (metadata_request keys) s)"
  have "(\<exists>payload. s' = storeAnswered h moment keys payload ?s1) \<or> (reason \<noteq> [] \<and> s' = ?s1) \<or>
      enrichSingly env h moment keys ?s1 = (reason, s')"
    using assms failed_has_reason [of env "ss_asked s" "metadata_request keys"]
    by (auto simp: enrich_batch_def Let_def client_get_def split: http_result.splits if_splits)
  then have "enriches h ?s1 s' \<and> (reason = [] \<longrightarrow> set keys \<inter> set (missing_in h s') = {}) \<and> length (ss_asked s') \<le> length (ss_asked ?s1) + length keys"
  proof (elim disjE exE conjE)
    fix payload assume "s' = storeAnswered h moment keys payload ?s1"
    then show ?thesis using storeAnswered_missing(1) [of h moment keys payload ?s1] enriches_store [of h ?s1 moment keys payload]
      by (auto simp: storeAnswered_missing(3))
  next
    assume "reason \<noteq> []" "s' = ?s1"
    then show ?thesis by (simp add: enriches_refl)
  next
    assume "enrichSingly env h moment keys ?s1 = (reason, s')"
    from enrichSingly_missing [OF this] show ?thesis .
  qed
  then show "enriches h s s'" "reason = [] \<Longrightarrow> set keys \<inter> set (missing_in h s') = {}"
    "length (ss_asked s') \<le> length (ss_asked s) + 1 + length keys"
    using enriches_trans [OF enriches_get] by auto
qed

function enrichItems :: "plex_env \<Rightarrow> string \<Rightarrow> int \<Rightarrow> sync_state \<Rightarrow> string \<times> sync_state" where
  "enrichItems env h moment s =
     (let keys = missingItemKeys h METADATA_BATCH (ss_ledger s) in
      if keys = [] then ([], s)
      else case enrich_batch env h moment keys s of
        (reason, s') \<Rightarrow> if reason \<noteq> [] then (reason, s') else enrichItems env h moment s')"
  by pat_completeness auto
termination
proof (relation "measure (\<lambda>(env, h, moment, s). length (missing_in h s))")
  fix env h moment s keys result reason s'
  assume keys: "keys = missingItemKeys h METADATA_BATCH (ss_ledger s)" "keys \<noteq> []"
    and batch: "(reason, s') = enrich_batch env h moment keys s" and go_on: "\<not> reason \<noteq> []"
  have "hd keys \<in> set (missing_in h s)"
    using keys by (auto simp: missingItemKeys_def missing_in_def hd_in_set dest: in_set_takeD)
  moreover have "hd keys \<notin> set (missing_in h s')"
    using enrich_batch_missing(2) [OF batch [symmetric]] go_on keys(2) by (auto simp: disjoint_iff)
  ultimately show "((env, h, moment, s'), env, h, moment, s) \<in> measure (\<lambda>(env, h, moment, s). length (missing_in h s))"
    using fewer_missing [OF enrich_batch_missing(1) [OF batch [symmetric]]] by simp
qed simp

declare enrichItems.simps [simp del]

lemma batch_shrinks:
  assumes "enriches h s s'" "set keys \<subseteq> set (missing_in h s)" "distinct keys" "set keys \<inter> set (missing_in h s') = {}"
  shows "length (missing_in h s') + length keys \<le> length (missing_in h s)"
proof -
  have "set (missing_in h s') \<union> set keys \<subseteq> set (missing_in h s)" using assms(1,2) by (auto simp: enriches_def)
  then have "card (set (missing_in h s') \<union> set keys) \<le> card (set (missing_in h s))" by (simp add: card_mono)
  then show ?thesis using assms(3,4) by (simp add: card_Un_disjoint Int_commute distinct_card missing_in_def)
qed

lemma enrichItems_facts:
  assumes "enrichItems env h moment s = (reason, s')"
  shows "enriches h s s' \<and> (reason = [] \<longrightarrow> missing_in h s' = []) \<and> length (ss_asked s') \<le> length (ss_asked s) + 2 * length (missing_in h s)"
  using assms
proof (induction env h moment s arbitrary: reason s' rule: enrichItems.induct)
  case (1 env h moment s)
  define keys where "keys = missingItemKeys h METADATA_BATCH (ss_ledger s)"
  show ?case
  proof (cases "keys = []")
    case True
    then have "s' = s" "reason = []" "missing_in h s = []"
      using 1 by (simp_all add: enrichItems.simps [of env h moment s] keys_def missingItemKeys_def missing_in_def METADATA_BATCH_def)
    then show ?thesis by (simp add: enriches_refl)
  next
    case False
    obtain reason1 s1 where batch: "enrich_batch env h moment keys s = (reason1, s1)" by fastforce
    have keys: "set keys \<subseteq> set (missing_in h s)" "distinct keys" "1 \<le> length keys"
      using False by (auto simp: keys_def missingItemKeys_def missing_in_def dest: in_set_takeD) (simp add: Suc_le_eq)
    then have "length keys \<le> length (missing_in h s)" by (simp add: keys_def missingItemKeys_def missing_in_def)
    then have asks: "length (ss_asked s1) \<le> length (ss_asked s) + 2 * length keys" "length keys \<le> length (missing_in h s)"
      using enrich_batch_missing(3) [OF batch] keys(3) by auto
    have go: "enrichItems env h moment s = (if reason1 \<noteq> [] then (reason1, s1) else enrichItems env h moment s1)"
      using False batch by (simp add: enrichItems.simps [of env h moment s] keys_def [symmetric])
    show ?thesis
    proof (cases "reason1 = []")
      case True
      then have IH: "enriches h s1 s' \<and> (reason = [] \<longrightarrow> missing_in h s' = []) \<and> length (ss_asked s') \<le> length (ss_asked s1) + 2 * length (missing_in h s1)"
        using 1 go False batch by (simp add: keys_def)
      have "length (missing_in h s1) + length keys \<le> length (missing_in h s)"
        using batch_shrinks [OF enrich_batch_missing(1) [OF batch] keys(1,2)] enrich_batch_missing(2) [OF batch True] by blast
      then show ?thesis using IH asks(1) enriches_trans [OF enrich_batch_missing(1) [OF batch]] by auto
    next
      case other: False
      then show ?thesis using 1 go enrich_batch_missing(1) [OF batch] asks by auto
    qed
  qed
qed

definition items_known :: "string \<Rightarrow> ledger \<Rightarrow> bool" where
  "items_known h l \<longleftrightarrow> list_all (\<lambda>p. List.member (map item_key (lg_items l)) (h, plr_rating_key p)) (filter (\<lambda>p. plr_host p = h) (lg_plays l))"

text \<open>C21: Asking about missing items always ends. Whatever the server answers or fails with, the loop stops; it asks
  at most two requests for each played item that had no row; when it reports no failure every play of the
  host has an item row; and it never touches the plays, the cursor or the checks.\<close>

theorem enrichment_always_ends:
  shows "case enrichItems env h moment s of (reason, s') \<Rightarrow>
    length (ss_asked s') \<le> length (ss_asked s) + 2 * length (missing_keys h (ss_ledger s)) \<and>
    (if reason = [] then items_known h (ss_ledger s') else True) \<and>
    lg_plays (ss_ledger s') = lg_plays (ss_ledger s) \<and> lg_servers (ss_ledger s') = lg_servers (ss_ledger s) \<and> ss_checks s' = ss_checks s"
proof -
  obtain reason s' where run: "enrichItems env h moment s = (reason, s')" by fastforce
  have facts: "enriches h s s'" "reason = [] \<Longrightarrow> missing_in h s' = []"
    "length (ss_asked s') \<le> length (ss_asked s) + 2 * length (missing_in h s)"
    using enrichItems_facts [OF run] by auto
  have "items_known h (ss_ledger s')" if "reason = []"
  proof -
    have "set (missing_keys h (ss_ledger s')) = {}" using facts(2) [OF that] by (simp add: missing_in_def)
    then show ?thesis unfolding set_missing_keys by (auto simp: list_all_iff items_known_def)
  qed
  then show ?thesis using run facts(1,3) by (auto simp: enriches_def missing_in_def)
qed

subsection \<open>The passes\<close>

definition pass_ended :: "string \<Rightarrow> int \<Rightarrow> string option \<Rightarrow> sync_state \<Rightarrow> sync_state \<times> (exn + check_result option)" where
  "pass_ended h now reason s = (case record_pass h now reason s of (s', Inl e) \<Rightarrow> (s', Inl e) | (s', Inr check) \<Rightarrow> (s', Inr (Some check)))"

definition identities :: "plex_env \<Rightarrow> string \<Rightarrow> sync_state \<Rightarrow> sync_state" where
  \<comment> \<open>accounts and devices, best effort: both are asked for before either is stored\<close>
  "identities env h s = (case client_get env (get_path ''/accounts'') s of (accounts, s1) \<Rightarrow>
     case client_get env (get_path ''/devices'') s1 of (devices, s2) \<Rightarrow>
       in_ledger ((case devices of Http_ok p \<Rightarrow> upsertDevices h (parseDevices p) | Http_failed _ \<Rightarrow> (\<lambda>l. l)) \<circ>
         (case accounts of Http_ok p \<Rightarrow> upsertAccounts h (parseAccounts p) | Http_failed _ \<Rightarrow> (\<lambda>l. l))) s2)"

definition after_pages :: "plex_env \<Rightarrow> string \<Rightarrow> int \<Rightarrow> bool \<Rightarrow> string \<times> sync_state \<Rightarrow> sync_state \<times> (exn + check_result option)" where
  "after_pages env h now enrich paged = (case paged of (reason, s) \<Rightarrow>
     if reason \<noteq> [] then pass_ended h now (Some reason) s
     else if enrich then (case enrichItems env h now s of (reason', s') \<Rightarrow>
         if reason' \<noteq> [] then pass_ended h now (Some reason') s' else pass_ended h now None s')
     else pass_ended h now None s)"

definition syncHistory :: "plex_env \<Rightarrow> fleet_host \<Rightarrow> int \<Rightarrow> string \<Rightarrow> int \<Rightarrow> int \<Rightarrow> bool \<Rightarrow> sync_state \<Rightarrow>
    (sync_state \<times> (exn + check_result option)) option" where
  "syncHistory env host now token lookbackDays pageSize enrich s = (let h = hst_name host in
     if hst_plex_url host = [] then Some (s, Inr None)
     else if token = [] then Some (pass_ended h now (Some ''no_token'') s)
     else case client_get env (get_path ''/'') s of (identity, s1) \<Rightarrow>
      (case identity of
         Http_failed reason \<Rightarrow> Some (pass_ended h now (Some reason) s1)
       | Http_ok payload \<Rightarrow>
          (case parseServer payload of
             None \<Rightarrow> Some (pass_ended h now (Some ''bad_json'') s1)
           | Some info \<Rightarrow>
               let s2 = in_ledger (upsertServer h info) s1;
                   cursor = historyCursor h (ss_ledger s2); excluded = excludedSectionIds h (ss_ledger s2);
                   since = (case cursor of Some c \<Rightarrow> c - OVERLAP_SECONDS
                     | None \<Rightarrow> epochSeconds (addSeconds now (- lookbackDays * 86400)))
               in map_option (after_pages env h now enrich) (pageHistory env h since pageSize excluded (identities env h s2)))))"

definition LIBRARY_PAGE :: int where
  "LIBRARY_PAGE = 1000"

definition strip_end_slashes :: "string \<Rightarrow> string" where
  \<comment> \<open>\<open>replace(/\/+$/, '')\<close>\<close>
  "strip_end_slashes s = rev (dropWhile (\<lambda>c. c = CHR ''/'') (rev s))"

definition under_folder :: "string \<Rightarrow> string \<Rightarrow> bool" where
  \<comment> \<open>\<open>under\<close>\<close>
  "under_folder path folder = (let inside = toLowerCase (strip_end_slashes path); outer = toLowerCase (strip_end_slashes folder)
     in inside = outer \<or> starts_with (outer @ ''/'') inside)"

definition excludedSections :: "plex_section list \<Rightarrow> string list \<Rightarrow> string list" where
  "excludedSections sections folders = js_set (map ps_section_id (filter (\<lambda>sec. ps_locations sec \<noteq> [] \<and>
     list_all (\<lambda>path. list_ex (under_folder path) folders) (ps_locations sec)) sections))"

definition section_request :: "plex_section \<Rightarrow> plex_request" where
  "section_request sec = \<lparr>rq_path = ''/library/sections/'' @ ps_section_id sec @ ''/all'',
     rq_params = [(''type'', show_nat (LEAF_TYPE (ps_kind sec))), (''includeGuids'', ''0'')], rq_start = None, rq_size = None\<rparr>"

definition pageSection :: "plex_env \<Rightarrow> string \<Rightarrow> plex_section \<Rightarrow> int \<Rightarrow> int \<Rightarrow> sync_state \<Rightarrow> (string \<times> sync_state) option" where
  "pageSection env h sec now pageSize s = pageAll env (section_request sec) pageSize
     (\<lambda>payload. in_ledger (upsertItems h (parseItems payload (Some (ps_section_id sec))) now)) 0 s"

fun page_sections :: "plex_env \<Rightarrow> string \<Rightarrow> string list \<Rightarrow> int \<Rightarrow> int \<Rightarrow> plex_section list \<Rightarrow> string \<Rightarrow> sync_state \<Rightarrow> (string \<times> sync_state) option" where
  \<comment> \<open>one section after another, every one even after a failure; the last failure is kept\<close>
  "page_sections env h excluded now pageSize [] failure s = Some (failure, s)"
| "page_sections env h excluded now pageSize (sec # secs) failure s =
     (if List.member excluded (ps_section_id sec) then page_sections env h excluded now pageSize secs failure s
      else case pageSection env h sec now pageSize s of
        None \<Rightarrow> None
      | Some (reason, s') \<Rightarrow> page_sections env h excluded now pageSize secs (if reason \<noteq> [] then reason else failure) s')"

definition syncLibrary :: "plex_env \<Rightarrow> fleet_host \<Rightarrow> int \<Rightarrow> string \<Rightarrow> string list \<Rightarrow> int \<Rightarrow> sync_state \<Rightarrow> (sync_state \<times> bool) option" where
  "syncLibrary env host now token folders pageSize s = (let h = hst_name host in
     if hst_plex_url host = [] \<or> token = [] then Some (s, False)
     else case client_get env (get_path ''/library/sections'') s of (sections, s1) \<Rightarrow>
      (case sections of
         Http_failed reason \<Rightarrow> Some (in_ledger (markLibrary h now False (Some reason)) s1, False)
       | Http_ok payload \<Rightarrow>
           let parsed = parseSections payload; excluded = excludedSections parsed folders;
               s2 = in_ledger (\<lambda>l. fst (purgeSections h excluded (upsertSections h parsed excluded l))) s1
           in case page_sections env h excluded now pageSize parsed [] s2 of
                None \<Rightarrow> None
              | Some (failure, s3) \<Rightarrow>
                  let whole = (failure = []);
                      s4 = (if whole then in_ledger (\<lambda>l. fst (retireUnseenItems h now l)) s3 else s3)
                  in Some (in_ledger (markLibrary h now whole (if whole then None else Some failure)) s4, whole)))"

record host_outcome =
  ho_history_ok :: bool
  ho_inventory_ran :: bool
  ho_inventory_complete :: bool

definition syncHost :: "plex_env \<Rightarrow> fleet_host \<Rightarrow> int \<Rightarrow> string \<Rightarrow> int \<Rightarrow> string list \<Rightarrow> bool \<Rightarrow> sync_state \<Rightarrow>
    (sync_state \<times> (exn + host_outcome)) option" where
  "syncHost env host now token lookbackDays folders inventoryDue s =
     (case syncHistory env host now token lookbackDays HISTORY_PAGE (\<not> inventoryDue) s of
        None \<Rightarrow> None
      | Some (s1, Inl e) \<Rightarrow> Some (s1, Inl e)
      | Some (s1, Inr check) \<Rightarrow>
          let historyOk = (case check of Some c \<Rightarrow> chk_ok c | None \<Rightarrow> False) in
          if \<not> (inventoryDue \<and> historyOk)
          then Some (s1, Inr \<lparr>ho_history_ok = historyOk, ho_inventory_ran = False, ho_inventory_complete = False\<rparr>)
          else (case syncLibrary env host now token folders LIBRARY_PAGE s1 of
              None \<Rightarrow> None
            | Some (s2, whole) \<Rightarrow>
                Some (snd (enrichItems env (hst_name host) now s2),
                  Inr \<lparr>ho_history_ok = historyOk, ho_inventory_ran = True, ho_inventory_complete = whole\<rparr>)))"

end
