(* ===== verification/PlexPasses.thy ===== *)
theory PlexPasses imports PlexSync begin

text \<open>
  What the history passes (\<open>plexSync/history.ts\<close>) keep of a server's own ledger: a rule for paging a listing to
  its end, the invariant of the cursor, and that no play is skipped however many passes fail on the way.
\<close>

subsection \<open>Paging to the end\<close>

lemma pageAll_step:
  "pageAll env request pageSize keep start s = (let fetched = answer_of env (ss_asked s) (request\<lparr>rq_start := Some start, rq_size := Some pageSize\<rparr>);
       s1 = s\<lparr>ss_asked := ss_asked s @ [request\<lparr>rq_start := Some start, rq_size := Some pageSize\<rparr>]\<rparr> in
     case fetched of Http_failed reason \<Rightarrow> Some (reason, s1)
     | Http_ok payload \<Rightarrow> (case pageInfo payload of None \<Rightarrow> Some ([], keep payload s1)
         | Some info \<Rightarrow> if pi_size info = 0 \<or> start + pi_size info \<ge> pi_total_size info then Some ([], keep payload s1)
             else pageAll env request pageSize keep (start + pi_size info) (keep payload s1)))"
  by (subst pageAll.simps) (simp add: client_get_def Let_def)

text \<open>What the server owes a listing: each page it answers is the slice asked for, and it says how many there are.\<close>

definition page_of :: "'e list \<Rightarrow> int \<Rightarrow> int \<Rightarrow> 'e list" where
  "page_of rows start pageSize = take (nat pageSize) (drop (nat start) rows)"

definition honest_rows :: "(json \<Rightarrow> 'e list) \<Rightarrow> ('r list \<Rightarrow> 'e list) \<Rightarrow> 'r list \<Rightarrow> int \<Rightarrow> int \<Rightarrow> http_result \<Rightarrow> bool" where
  \<comment> \<open>\<open>readable\<close> is what the parser makes of a slice; the rows it drops count towards its size all the same\<close>
  "honest_rows parse readable rows start pageSize fetched \<longleftrightarrow> (case fetched of Http_failed _ \<Rightarrow> True | Http_ok payload \<Rightarrow>
     parse payload = readable (page_of rows start pageSize) \<and> (case pageInfo payload of None \<Rightarrow> False | Some info \<Rightarrow>
       pi_size info = int (length (page_of rows start pageSize)) \<and> pi_total_size info = int (length rows)))"

definition honest_page :: "(json \<Rightarrow> 'e list) \<Rightarrow> 'e list \<Rightarrow> int \<Rightarrow> int \<Rightarrow> http_result \<Rightarrow> bool" where
  "honest_page parse rows start pageSize fetched \<longleftrightarrow> (case fetched of Http_failed _ \<Rightarrow> True | Http_ok payload \<Rightarrow>
     parse payload = page_of rows start pageSize \<and> (case pageInfo payload of None \<Rightarrow> False | Some info \<Rightarrow>
       pi_size info = int (length (page_of rows start pageSize)) \<and> pi_total_size info = int (length rows)))"

lemma honest_page_rows: "honest_page parse rows start pageSize fetched = honest_rows parse (\<lambda>page. page) rows start pageSize fetched"
  by (simp add: honest_page_def honest_rows_def)

definition page_request :: "plex_request \<Rightarrow> int \<Rightarrow> int \<Rightarrow> plex_request" where
  "page_request request start pageSize = request\<lparr>rq_start := Some start, rq_size := Some pageSize\<rparr>"

lemma page_request_path [simp]: "rq_path (page_request request start pageSize) = rq_path request"
  by (simp add: page_request_def)

text \<open>
  The rule for a loop over pages. \<open>rows\<close> is the listing as it stands when a request is made, \<open>P n s\<close> holds
  once its first \<open>n\<close> rows were handed to \<open>keep\<close>, and between two pages fewer rows are added than a page holds.
\<close>

lemma pageAll_pages:
  fixes parse :: "json \<Rightarrow> 'e list" and readable :: "'r list \<Rightarrow> 'e list"
  assumes size: "0 < pageSize"
    and honest: "\<And>asked start. 0 \<le> start \<Longrightarrow>
      honest_rows parse readable (rows asked) start pageSize (answer_of env asked (page_request request start pageSize))"
    and keeps: "\<And>payload s. ss_asked (keep payload s) = ss_asked s"
    and grows: "\<And>asked start. length (rows (asked @ [page_request request start pageSize])) < length (rows asked) + nat pageSize"
    and start: "P n s" "n \<le> length (rows (ss_asked s))"
    and asks: "\<And>n s start. P n s \<Longrightarrow> n \<le> length (rows (ss_asked s)) \<Longrightarrow>
      P n (s\<lparr>ss_asked := ss_asked s @ [page_request request start pageSize]\<rparr>) \<and> n \<le> length (rows (ss_asked s @ [page_request request start pageSize]))"
    and step: "\<And>n s start payload page. P n s \<Longrightarrow> n \<le> length (rows (ss_asked s)) \<Longrightarrow>
      page = page_of (rows (ss_asked s)) (int n) pageSize \<Longrightarrow> parse payload = readable page \<Longrightarrow>
      P (n + length page) (keep payload (s\<lparr>ss_asked := ss_asked s @ [page_request request start pageSize]\<rparr>)) \<and>
      n + length page \<le> length (rows (ss_asked s @ [page_request request start pageSize]))"
  shows "\<exists>reason s'. pageAll env request pageSize keep (int n) s = Some (reason, s') \<and> (\<exists>n. P n s' \<and> n \<le> length (rows (ss_asked s')) \<and>
    (reason = [] \<longrightarrow> length (rows (butlast (ss_asked s'))) \<le> n)) \<and>
    (\<exists>asked. asked \<noteq> [] \<and> ss_asked s' = ss_asked s @ asked \<and> (\<forall>r\<in>set asked. rq_path r = rq_path request))"
  using start
proof (induction "length (rows (ss_asked s)) - n" arbitrary: n s rule: less_induct)
  case less
  define req where "req = page_request request (int n) pageSize"
  define s1 where "s1 = s\<lparr>ss_asked := ss_asked s @ [req]\<rparr>"
  have s1: "P n s1" "n \<le> length (rows (ss_asked s1))" "rq_path req = rq_path request"
    using asks less.prems by (auto simp: s1_def req_def)
  show ?case
  proof (cases "answer_of env (ss_asked s) req")
    case (Http_failed reason)
    then have "pageAll env request pageSize keep (int n) s = Some (reason, s1)"
      by (simp add: pageAll_step [of env request pageSize keep "int n" s] req_def page_request_def s1_def)
    moreover have "reason \<noteq> []" using failed_has_reason Http_failed by blast
    ultimately show ?thesis using s1 by (auto simp: s1_def)
  next
    case (Http_ok payload)
    let ?page = "page_of (rows (ss_asked s)) (int n) pageSize" and ?s2 = "keep payload s1"
    obtain info where info: "parse payload = readable ?page" "pageInfo payload = Some info" "pi_size info = int (length ?page)"
        "pi_total_size info = int (length (rows (ss_asked s)))"
      using honest [of "int n" "ss_asked s"] Http_ok by (auto simp: honest_rows_def req_def split: option.splits)
    have s2: "P (n + length ?page) ?s2" "n + length ?page \<le> length (rows (ss_asked ?s2))" "ss_asked ?s2 = ss_asked s @ [req]"
      using step [OF less.prems refl info(1), of "int n"] by (auto simp: s1_def req_def keeps)
    show ?thesis
    proof (cases "pi_size info = 0 \<or> int n + pi_size info \<ge> pi_total_size info")
      case True
      then have "pageAll env request pageSize keep (int n) s = Some ([], ?s2)"
        using Http_ok info(2) by (simp add: pageAll_step [of env request pageSize keep "int n" s] req_def page_request_def s1_def)
      moreover have "length (rows (ss_asked s)) \<le> n + length ?page"
        using True info(3,4) less.prems(2) size by (auto simp: page_of_def)
      ultimately show ?thesis using s2 s1(3) by (intro exI [of _ "[]"] exI [of _ ?s2]) auto
    next
      case False
      then have go: "pageAll env request pageSize keep (int n) s = pageAll env request pageSize keep (int (n + length ?page)) ?s2"
        using Http_ok info(2,3) by (simp add: pageAll_step [of env request pageSize keep "int n" s] req_def page_request_def s1_def)
      have "length ?page = nat pageSize" using False info(3,4) by (auto simp: page_of_def)
      then have "length (rows (ss_asked ?s2)) - (n + length ?page) < length (rows (ss_asked s)) - n"
        using grows [of "ss_asked s" "int n"] s2(3) False info(3,4) size by (auto simp: req_def)
      from less.hyps [OF this s2(1,2)] show ?thesis using go s2(3) s1(3) by auto
    qed
  qed
qed

subsection \<open>What a page of history leaves behind\<close>

lemma write_server_facts [simp]:
  "lg_plays (write_server h change l) = lg_plays l" "lg_items (write_server h change l) = lg_items l"
  "lg_sections (write_server h change l) = lg_sections l"
  by (simp_all add: write_server_def)

lemma historyCursor_write_server:
  assumes "\<And>r. psr_host r = h \<Longrightarrow> psr_host (change r) = h"
  shows "historyCursor h (write_server h change l) = psr_history_cursor (change (case List.find (\<lambda>r. psr_host r = h) (lg_servers l) of None \<Rightarrow> blank_server h | Some r \<Rightarrow> r))"
proof -
  have found: "List.find (\<lambda>r. psr_host r = h) (map (\<lambda>r. if psr_host r = h then change r else r) rows) =
      map_option change (List.find (\<lambda>r. psr_host r = h) rows)" for rows
    using assms by (induction rows) auto
  have appended: "h \<notin> psr_host ` set rows \<Longrightarrow> List.find (\<lambda>r. psr_host r = h) (rows @ [new]) = (if psr_host new = h then Some new else None)"
    "h \<notin> psr_host ` set rows \<Longrightarrow> List.find (\<lambda>r. psr_host r = h) rows = None" for rows new
    by (induction rows) auto
  have blank: "psr_host (change (blank_server h)) = h" using assms by (simp add: blank_server_def)
  show ?thesis
  proof (cases "h \<in> psr_host ` set (lg_servers l)")
    case True
    then have "List.find (\<lambda>r. psr_host r = h) (lg_servers l) \<noteq> None" by (auto simp: find_None_iff)
    then show ?thesis using True blank by (auto simp: historyCursor_def write_server_def upsert_def found)
  next
    case False
    then show ?thesis using blank appended(1) [OF False, of "change (blank_server h)"] appended(2) [OF False]
      by (simp add: historyCursor_def write_server_def upsert_def)
  qed
qed

lemma historyCursor_writes [simp]:
  "historyCursor h (setHistoryCursor h c l) = Some c"
  "historyCursor h (upsertServer h info l) = historyCursor h l"
  "historyCursor h (markHistory h moment fine reason l) = historyCursor h l"
  "historyCursor h (markLibrary h moment fine reason l) = historyCursor h l"
  unfolding setHistoryCursor_def upsertServer_def markHistory_def markLibrary_def
  by (subst historyCursor_write_server; auto simp: historyCursor_def blank_server_def split: option.splits)+

lemma foldl_max_in: "foldl max (t :: int) ts \<in> set (t # ts)"
proof (induction ts arbitrary: t)
  case (Cons u ts)
  show ?case using Cons.IH [of "max t u"] by (auto simp: max_def)
qed simp

lemma keep_entries_facts:
  "lg_sections (keep_entries h excluded entries l) = lg_sections l"
  "set (lg_plays l) \<subseteq> set (lg_plays (keep_entries h excluded entries l))"
  "set (lg_plays (keep_entries h excluded entries l)) \<subseteq> set (lg_plays l) \<union> play_row_of h ` set entries"
  "e \<in> set entries \<Longrightarrow> kept_entry excluded e \<Longrightarrow> (h, pe_history_id e) \<in> play_key ` set (lg_plays (keep_entries h excluded entries l))"
  "entries = [] \<Longrightarrow> historyCursor h (keep_entries h excluded entries l) = historyCursor h l"
  "entries \<noteq> [] \<Longrightarrow> \<exists>e\<in>set entries. historyCursor h (keep_entries h excluded entries l) = Some (pe_viewed_at e)"
proof -
  have plays: "lg_plays (keep_entries h excluded entries l) =
      fold (\<lambda>e. insert_new play_key (play_row_of h e)) (filter (kept_entry excluded) entries) (lg_plays l)"
    by (simp add: keep_entries_def insertPlays_def setHistoryCursor_def Let_def split: list.splits)
  note folded = fold_insert_new [where rows = "lg_plays l" and key = play_key and f = "play_row_of h" and es = "filter (kept_entry excluded) entries"]
  show "lg_sections (keep_entries h excluded entries l) = lg_sections l"
    by (simp add: keep_entries_def insertPlays_def setHistoryCursor_def Let_def split: list.splits)
  show "set (lg_plays l) \<subseteq> set (lg_plays (keep_entries h excluded entries l))" using folded(1) by (simp add: plays)
  show "set (lg_plays (keep_entries h excluded entries l)) \<subseteq> set (lg_plays l) \<union> play_row_of h ` set entries"
    using folded(3) by (auto simp: plays)
  show "e \<in> set entries \<Longrightarrow> kept_entry excluded e \<Longrightarrow> (h, pe_history_id e) \<in> play_key ` set (lg_plays (keep_entries h excluded entries l))"
    unfolding plays folded(2) by (force simp: play_key_def play_row_of_def)
  show "entries = [] \<Longrightarrow> historyCursor h (keep_entries h excluded entries l) = historyCursor h l"
    by (simp add: keep_entries_def insertPlays_def historyCursor_def)
  show "entries \<noteq> [] \<Longrightarrow> \<exists>e\<in>set entries. historyCursor h (keep_entries h excluded entries l) = Some (pe_viewed_at e)"
  proof -
    assume "entries \<noteq> []"
    then obtain t ts where ts: "map pe_viewed_at entries = t # ts" by (cases entries) auto
    then have "foldl max t ts \<in> pe_viewed_at ` set entries" using foldl_max_in [of t ts] by (metis set_map)
    then show ?thesis by (auto simp: keep_entries_def ts Let_def)
  qed
qed

subsection \<open>What the ledger holds of a server's history\<close>

text \<open>A row of a server's history: a completed view of something the ledger logs, or one the parser drops, a
  clip, a photo, a trailer or a malformed row.\<close>

datatype history_line = View play_entry | Other int

fun line_at :: "history_line \<Rightarrow> int" where
  "line_at (View e) = pe_viewed_at e"
| "line_at (Other viewedAt) = viewedAt"

fun plays_in :: "history_line list \<Rightarrow> play_entry list" where
  "plays_in [] = []"
| "plays_in (View e # rows) = e # plays_in rows"
| "plays_in (Other viewedAt # rows) = plays_in rows"

lemma set_plays_in: "e \<in> set (plays_in rows) \<longleftrightarrow> View e \<in> set rows"
  by (induction rows rule: plays_in.induct) auto

lemma plays_in_append [simp]: "plays_in (xs @ ys) = plays_in xs @ plays_in ys"
  by (induction xs rule: plays_in.induct) auto

text \<open>
  \<open>history_inv\<close>: a host's plays are rows of its listing, and once there is a cursor every listed play from
  \<open>horizon\<close> up to where the next pass will read from is stored, excluded libraries apart. \<open>read_up_to n\<close>: in a
  pass that reads from \<open>since\<close>, the plays among the first \<open>n\<close> listed rows from there on are stored too.
\<close>

definition history_inv :: "string \<Rightarrow> string list \<Rightarrow> int \<Rightarrow> play_entry list \<Rightarrow> ledger \<Rightarrow> bool" where
  "history_inv h excluded horizon listed l \<longleftrightarrow>
     (\<forall>r\<in>set (lg_plays l). plr_host r = h \<longrightarrow> r \<in> play_row_of h ` set listed) \<and>
     (case historyCursor h l of None \<Rightarrow> True | Some c \<Rightarrow> (\<exists>e\<in>set listed. c \<le> pe_viewed_at e) \<and>
        (\<forall>e\<in>set listed. horizon \<le> pe_viewed_at e \<and> pe_viewed_at e < c - OVERLAP_SECONDS \<and> kept_entry excluded e \<longrightarrow>
           play_row_of h e \<in> set (lg_plays l)))"

definition since_rows :: "int \<Rightarrow> history_line list \<Rightarrow> history_line list" where
  "since_rows since = filter (\<lambda>row. since \<le> line_at row)"

definition read_up_to :: "string \<Rightarrow> string list \<Rightarrow> int \<Rightarrow> int \<Rightarrow> history_line list \<Rightarrow> nat \<Rightarrow> ledger \<Rightarrow> bool" where
  "read_up_to h excluded horizon since rows n l \<longleftrightarrow> history_inv h excluded horizon (plays_in rows) l \<and>
     (since \<le> horizon \<or> (\<exists>row\<in>set rows. since \<le> line_at row)) \<and>
     (\<forall>e\<in>set (plays_in rows). horizon \<le> pe_viewed_at e \<and> pe_viewed_at e < since \<and> kept_entry excluded e \<longrightarrow> play_row_of h e \<in> set (lg_plays l)) \<and>
     (\<forall>e\<in>set (plays_in (take n (since_rows since rows))). kept_entry excluded e \<longrightarrow> play_row_of h e \<in> set (lg_plays l))"

definition listing_ok :: "history_line list \<Rightarrow> bool" where
  "listing_ok rows \<longleftrightarrow> sorted (map line_at rows) \<and> distinct (map pe_history_id (plays_in rows))"

text \<open>A listing that gained rows, none of them older than two days before any it had.\<close>

definition joined_by :: "history_line list \<Rightarrow> history_line list \<Rightarrow> bool" where
  "joined_by rows rows' \<longleftrightarrow> set rows \<subseteq> set rows' \<and>
     (\<forall>x\<in>set rows. \<forall>y\<in>set rows' - set rows. line_at x - 2 * 86400 \<le> line_at y)"

lemma joined_by_refl [simp]: "joined_by rows rows"
  by (simp add: joined_by_def)

lemma joined_by_trans: "joined_by r1 r2 \<Longrightarrow> joined_by r2 r3 \<Longrightarrow> joined_by r1 r3"
  unfolding joined_by_def by blast

lemma extra_is_later:
  assumes "listing_ok (rows @ extra)" "x \<in> set rows" "y \<in> set extra"
  shows "line_at x \<le> line_at y"
  using assms by (auto simp: listing_ok_def sorted_append)

lemma joined_by_append:
  assumes "listing_ok (rows @ extra)"
  shows "joined_by rows (rows @ extra)"
proof -
  have "line_at x - 2 * 86400 \<le> line_at y" if "x \<in> set rows" "y \<in> set extra" for x y
    using extra_is_later [OF assms that] by simp
  then show ?thesis by (auto simp: joined_by_def)
qed

lemma history_inv_grows:
  assumes inv: "history_inv h excluded horizon (plays_in rows) l" and joined: "joined_by rows rows'"
  shows "history_inv h excluded horizon (plays_in rows') l"
proof -
  have more: "set (plays_in rows) \<subseteq> set (plays_in rows')" using joined by (auto simp: joined_by_def set_plays_in)
  have "play_row_of h e \<in> set (lg_plays l)"
    if c: "historyCursor h l = Some c" and e: "e \<in> set (plays_in rows')" "horizon \<le> pe_viewed_at e" "pe_viewed_at e < c - OVERLAP_SECONDS" "kept_entry excluded e" for c e
  proof -
    obtain x where x: "View x \<in> set rows" "c \<le> pe_viewed_at x" using inv c by (auto simp: history_inv_def set_plays_in)
    have "View e \<in> set rows"
    proof (rule ccontr)
      assume "View e \<notin> set rows"
      then have "line_at (View x) - 2 * 86400 \<le> line_at (View e)" using joined x(1) e(1) unfolding joined_by_def set_plays_in by blast
      then show False using e(3) x(2) by (simp add: OVERLAP_SECONDS_def)
    qed
    then show ?thesis using inv c e by (auto simp: history_inv_def set_plays_in)
  qed
  then show ?thesis using inv more unfolding history_inv_def by (fastforce split: option.splits)
qed

lemma history_inv_cong:
  assumes "lg_plays l' = lg_plays l" "historyCursor h l' = historyCursor h l"
  shows "history_inv h excluded horizon listed l' \<longleftrightarrow> history_inv h excluded horizon listed l"
  by (simp only: history_inv_def assms)

lemma history_inv_mono: "history_inv h excluded horizon listed l \<Longrightarrow> horizon \<le> horizon' \<Longrightarrow> history_inv h excluded horizon' listed l"
  by (fastforce simp: history_inv_def split: option.splits)

lemma read_up_to_grows:
  assumes read: "read_up_to h excluded horizon since rows n l" and ok: "listing_ok (rows @ extra)"
    and n: "n \<le> length (since_rows since rows)"
  shows "read_up_to h excluded horizon since (rows @ extra) n l"
proof -
  have inv: "history_inv h excluded horizon (plays_in (rows @ extra)) l"
    using history_inv_grows [OF _ joined_by_append [OF ok]] read unfolding read_up_to_def by blast
  have same: "take n (since_rows since (rows @ extra)) = take n (since_rows since rows)"
    using n by (simp add: since_rows_def)
  have early: "e \<in> set (plays_in rows)"
    if e: "e \<in> set (plays_in (rows @ extra))" "horizon \<le> pe_viewed_at e" "pe_viewed_at e < since" for e
  proof (rule ccontr)
    assume "e \<notin> set (plays_in rows)"
    then have "View e \<in> set extra" using e(1) by (simp add: set_plays_in)
    then show False using extra_is_later [OF ok _ \<open>View e \<in> set extra\<close>] read e(2,3) unfolding read_up_to_def by fastforce
  qed
  show ?thesis using inv read early unfolding read_up_to_def same by auto
qed

lemma before_a_page_entry:
  assumes "listing_ok rows" "x \<in> set (take n (since_rows since rows))" "y \<in> set rows" "since \<le> line_at y" "line_at y < line_at x"
  shows "y \<in> set (take n (since_rows since rows))"
proof -
  let ?rows = "since_rows since rows"
  have sorted: "sorted (map line_at ?rows)" using assms(1) by (simp add: since_rows_def listing_ok_def sorted_filter)
  have "y \<in> set ?rows" using assms(3,4) by (simp add: since_rows_def)
  then obtain i where i: "i < length ?rows" "?rows ! i = y" by (auto simp: in_set_conv_nth)
  obtain j where j: "j < length ?rows" "j < n" "?rows ! j = x" using assms(2) by (auto simp: in_set_conv_nth)
  have "i < n"
  proof (rule ccontr)
    assume "\<not> i < n"
    then have "line_at x \<le> line_at y" using sorted_nth_mono [OF sorted, of j i] i j by auto
    then show False using assms(5) by simp
  qed
  then show ?thesis using i by (auto simp: in_set_conv_nth)
qed

lemma stored_entry:
  assumes ok: "listing_ok rows" and mine: "\<forall>r\<in>set (lg_plays l). plr_host r = h \<longrightarrow> r \<in> play_row_of h ` set (plays_in rows)"
    and e: "e \<in> set (plays_in rows)" "(h, pe_history_id e) \<in> play_key ` set (lg_plays l)"
  shows "play_row_of h e \<in> set (lg_plays l)"
proof -
  obtain r where r: "r \<in> set (lg_plays l)" "plr_host r = h" "plr_history_id r = pe_history_id e"
    using e(2) by (auto simp: play_key_def)
  then obtain e' where e': "e' \<in> set (plays_in rows)" "r = play_row_of h e'" using mine by blast
  have "inj_on pe_history_id (set (plays_in rows))" using ok by (simp add: listing_ok_def distinct_map)
  moreover have "pe_history_id e' = pe_history_id e" using r(3) e'(2) by (simp add: play_row_of_def)
  ultimately have "e' = e" using e'(1) e(1) by (auto dest: inj_onD)
  then show ?thesis using r(1) e'(2) by simp
qed

lemma read_up_to_page:
  assumes read: "read_up_to h excluded horizon since rows n l" and ok: "listing_ok rows"
    and page: "page = take k (drop n (since_rows since rows))"
  shows "read_up_to h excluded horizon since rows (n + length page) (keep_entries h excluded (plays_in page) l)"
proof -
  let ?l = "keep_entries h excluded (plays_in page) l" and ?read = "take (n + length page) (since_rows since rows)"
  have "set page \<subseteq> set (since_rows since rows)"
    unfolding page by (meson set_take_subset set_drop_subset subset_trans)
  then have "set page \<subseteq> set rows" by (auto simp: since_rows_def)
  then have listed: "set (plays_in page) \<subseteq> set (plays_in rows)" by (auto simp: set_plays_in)
  have "take (length page) (drop n (since_rows since rows)) = page"
    by (cases "k \<le> length (drop n (since_rows since rows))") (simp_all add: page)
  then have through: "?read = take n (since_rows since rows) @ page" by (simp add: take_add)
  have mine: "\<forall>r\<in>set (lg_plays ?l). plr_host r = h \<longrightarrow> r \<in> play_row_of h ` set (plays_in rows)"
    using read keep_entries_facts(3) [of h excluded "plays_in page" l] listed unfolding read_up_to_def history_inv_def by blast
  have kept: "play_row_of h e \<in> set (lg_plays ?l)" if "play_row_of h e \<in> set (lg_plays l)" for e
    using keep_entries_facts(2) that by blast
  have new: "play_row_of h e \<in> set (lg_plays ?l)" if "e \<in> set (plays_in page)" "kept_entry excluded e" for e
    using stored_entry [OF ok mine, of e] keep_entries_facts(4) [OF that] listed that(1) by blast
  have stored: "play_row_of h e \<in> set (lg_plays ?l)" if "e \<in> set (plays_in ?read)" "kept_entry excluded e" for e
    using that read new kept by (auto simp: through read_up_to_def)
  have early: "play_row_of h e \<in> set (lg_plays ?l)"
    if "e \<in> set (plays_in rows)" "horizon \<le> pe_viewed_at e" "pe_viewed_at e < since" "kept_entry excluded e" for e
    using that read kept by (auto simp: read_up_to_def)
  have "history_inv h excluded horizon (plays_in rows) ?l"
  proof (cases "plays_in page = []")
    case True
    have "historyCursor h ?l = historyCursor h l" by (rule keep_entries_facts(5) [OF True])
    then show ?thesis using mine read kept unfolding read_up_to_def history_inv_def by (auto split: option.splits)
  next
    case False
    then obtain x where x: "x \<in> set (plays_in page)" "historyCursor h ?l = Some (pe_viewed_at x)" using keep_entries_facts(6) by blast
    have "play_row_of h e \<in> set (lg_plays ?l)"
      if e: "e \<in> set (plays_in rows)" "horizon \<le> pe_viewed_at e" "pe_viewed_at e < pe_viewed_at x" "kept_entry excluded e" for e
    proof (cases "since \<le> pe_viewed_at e")
      case True
      then have "View e \<in> set ?read"
        using before_a_page_entry [OF ok, of "View x" "n + length page" since "View e"] e x(1) by (simp add: through set_plays_in)
      then show ?thesis using stored e(4) by (simp add: set_plays_in)
    qed (use early e in simp)
    then show ?thesis using mine x listed unfolding history_inv_def OVERLAP_SECONDS_def by auto
  qed
  then show ?thesis using read stored early unfolding read_up_to_def by blast
qed

subsection \<open>The server behind a history pass\<close>

text \<open>
  \<open>history_server\<close>: what the pass relies on. \<open>listing asked\<close> is the server's history once it was asked
  \<open>asked\<close>: oldest first, each play under an id of its own. While the history itself is being paged new rows come
  only at its end, and fewer of them between two pages than a page holds; between one reading and the next they
  may also turn up late, dated up to two days before rows that are listed already. The server may fail any request; a page it
  answers is the slice asked for, and a row the parser drops counts towards its size.
\<close>

definition history_server :: "plex_env \<Rightarrow> int \<Rightarrow> (plex_request list \<Rightarrow> history_line list) \<Rightarrow> bool" where
  "history_server env pageSize listing \<longleftrightarrow> 0 < pageSize \<and> (\<forall>asked. listing_ok (listing asked)) \<and>
     (\<forall>asked req. if rq_path req = HISTORY_PATH
        then \<exists>extra. listing (asked @ [req]) = listing asked @ extra \<and> length extra < nat pageSize
        else joined_by (listing asked) (listing (asked @ [req]))) \<and>
     (\<forall>asked since start. 0 \<le> start \<longrightarrow> honest_rows parseHistory plays_in (since_rows since (listing asked)) start pageSize
        (answer_of env asked (page_request (history_request since) start pageSize)))"

lemma listing_joins:
  assumes "history_server env pageSize listing"
  shows "joined_by (listing asked) (listing (asked @ reqs))"
proof (induction reqs rule: rev_induct)
  case (snoc req reqs)
  have "joined_by (listing (asked @ reqs)) (listing ((asked @ reqs) @ [req]))"
  proof (cases "rq_path req = HISTORY_PATH")
    case True
    then obtain extra where "listing ((asked @ reqs) @ [req]) = listing (asked @ reqs) @ extra"
      using assms unfolding history_server_def by meson
    then show ?thesis using joined_by_append assms unfolding history_server_def by metis
  next
    case False
    then show ?thesis using assms unfolding history_server_def by meson
  qed
  with snoc show ?case by (auto intro: joined_by_trans)
qed simp

lemma listing_appends:
  assumes "history_server env pageSize listing" "\<forall>r\<in>set reqs. rq_path r = HISTORY_PATH"
  shows "\<exists>extra. listing (asked @ reqs) = listing asked @ extra"
  using assms(2)
proof (induction reqs rule: rev_induct)
  case (snoc req reqs)
  then obtain extra where "listing (asked @ reqs) = listing asked @ extra" by auto
  moreover have "rq_path req = HISTORY_PATH" using snoc.prems by simp
  then obtain more where "listing ((asked @ reqs) @ [req]) = listing (asked @ reqs) @ more"
    using assms(1) unfolding history_server_def by meson
  ultimately show ?case by simp
qed simp

definition page_state :: "string \<Rightarrow> string list \<Rightarrow> int \<Rightarrow> int \<Rightarrow> (plex_request list \<Rightarrow> history_line list) \<Rightarrow> ledger \<Rightarrow> nat \<Rightarrow> sync_state \<Rightarrow> bool" where
  "page_state h excluded horizon since listing l n s \<longleftrightarrow> read_up_to h excluded horizon since (listing (ss_asked s)) n (ss_ledger s) \<and>
     set (lg_plays l) \<subseteq> set (lg_plays (ss_ledger s)) \<and> lg_sections (ss_ledger s) = lg_sections l"

lemma page_state_asks:
  assumes server: "history_server env pageSize listing" and state: "page_state h excluded horizon since listing l n s"
    and n: "n \<le> length (since_rows since (listing (ss_asked s)))" and path: "rq_path req = HISTORY_PATH"
  shows "page_state h excluded horizon since listing l n (s\<lparr>ss_asked := ss_asked s @ [req]\<rparr>)"
    "n \<le> length (since_rows since (listing (ss_asked s @ [req])))"
proof -
  obtain extra where extra: "listing (ss_asked s @ [req]) = listing (ss_asked s) @ extra"
    using listing_appends [OF server, of "[req]"] path by auto
  have ok: "listing_ok (listing (ss_asked s) @ extra)" using server extra by (metis history_server_def)
  show "page_state h excluded horizon since listing l n (s\<lparr>ss_asked := ss_asked s @ [req]\<rparr>)"
    using read_up_to_grows [OF _ ok n] state by (simp add: page_state_def extra)
  show "n \<le> length (since_rows since (listing (ss_asked s @ [req])))" using n by (simp add: extra since_rows_def)
qed

lemma page_state_step:
  assumes server: "history_server env pageSize listing" and state: "page_state h excluded horizon since listing l n s"
    and n: "n \<le> length (since_rows since (listing (ss_asked s)))" and path: "rq_path req = HISTORY_PATH"
    and page: "page = page_of (since_rows since (listing (ss_asked s))) (int n) pageSize" "parseHistory payload = plays_in page"
  shows "page_state h excluded horizon since listing l (n + length page) (keep_history_page h excluded payload (s\<lparr>ss_asked := ss_asked s @ [req]\<rparr>))"
    "n + length page \<le> length (since_rows since (listing (ss_asked s @ [req])))"
proof -
  let ?s = "s\<lparr>ss_ledger := keep_entries h excluded (plays_in page) (ss_ledger s)\<rparr>"
  have ok: "listing_ok (listing (ss_asked s))" using server by (simp add: history_server_def)
  have read: "read_up_to h excluded horizon since (listing (ss_asked s)) (n + length page) (ss_ledger ?s)"
    using read_up_to_page [OF _ ok] state page(1) by (simp add: page_state_def page_of_def)
  then have after: "page_state h excluded horizon since listing l (n + length page) ?s"
    using state keep_entries_facts(2) [of "ss_ledger s" h excluded "plays_in page"]
    by (auto simp: page_state_def keep_entries_facts(1))
  have count: "n + length page \<le> length (since_rows since (listing (ss_asked ?s)))"
    using page(1) n by (simp add: page_of_def)
  show "page_state h excluded horizon since listing l (n + length page) (keep_history_page h excluded payload (s\<lparr>ss_asked := ss_asked s @ [req]\<rparr>))"
    using page_state_asks(1) [OF server after count path] by (simp add: page_state_def keep_history_page_def in_ledger_def page(2))
  show "n + length page \<le> length (since_rows since (listing (ss_asked s @ [req])))"
    using page_state_asks(2) [OF server after count path] by simp
qed

lemma keep_history_page_asked: "ss_asked (keep_history_page h excluded payload s) = ss_asked s"
  by (simp add: keep_history_page_def in_ledger_def)

lemma history_request_path [simp]: "rq_path (history_request since) = HISTORY_PATH"
  by (simp add: history_request_def)

lemma history_pages:
  assumes server: "history_server env pageSize listing"
    and read: "read_up_to h excluded horizon since (listing (ss_asked s)) 0 (ss_ledger s)"
  obtains reason s' n asked where "pageHistory env h since pageSize excluded s = Some (reason, s')"
    "page_state h excluded horizon since listing (ss_ledger s) n s'" "asked \<noteq> []" "ss_asked s' = ss_asked s @ asked"
    "\<forall>r\<in>set asked. rq_path r = HISTORY_PATH" "reason = [] \<longrightarrow> length (since_rows since (listing (butlast (ss_asked s')))) \<le> n"
proof -
  let ?rows = "\<lambda>asked. since_rows since (listing asked)"
  have grows: "length (?rows (asked @ [page_request (history_request since) start pageSize])) < length (?rows asked) + nat pageSize" for asked start
  proof -
    obtain extra where "listing (asked @ [page_request (history_request since) start pageSize]) = listing asked @ extra" "length extra < nat pageSize"
      using server unfolding history_server_def by (metis history_request_path page_request_path)
    moreover from this(2) have "length (since_rows since extra) < nat pageSize"
      unfolding since_rows_def by (metis length_filter_le order_le_less_trans)
    ultimately show ?thesis by (simp add: since_rows_def)
  qed
  have "\<exists>reason s'. pageAll env (history_request since) pageSize (keep_history_page h excluded) (int 0) s = Some (reason, s') \<and>
    (\<exists>n. page_state h excluded horizon since listing (ss_ledger s) n s' \<and> n \<le> length (?rows (ss_asked s')) \<and>
    (reason = [] \<longrightarrow> length (?rows (butlast (ss_asked s'))) \<le> n)) \<and>
    (\<exists>asked. asked \<noteq> [] \<and> ss_asked s' = ss_asked s @ asked \<and> (\<forall>r\<in>set asked. rq_path r = rq_path (history_request since)))"
  proof (rule pageAll_pages [where parse = parseHistory and readable = plays_in and rows = ?rows
        and P = "page_state h excluded horizon since listing (ss_ledger s)"])
    show "page_state h excluded horizon since listing (ss_ledger s) 0 s" using read by (simp add: page_state_def)
  qed (use server grows page_state_asks [OF server] page_state_step [OF server] in
      \<open>simp_all add: history_server_def keep_history_page_asked\<close>)
  then show thesis using that unfolding pageHistory_def by auto
qed

lemma pageHistory_reads:
  assumes server: "history_server env pageSize listing"
    and read: "read_up_to h excluded horizon since (listing (ss_asked s)) 0 (ss_ledger s)"
  shows "\<exists>reason s'. pageHistory env h since pageSize excluded s = Some (reason, s') \<and>
    (\<exists>n. page_state h excluded horizon since listing (ss_ledger s) n s') \<and>
    (\<exists>asked. asked \<noteq> [] \<and> ss_asked s' = ss_asked s @ asked \<and> (\<forall>r\<in>set asked. rq_path r = HISTORY_PATH)) \<and>
    (reason = [] \<longrightarrow> (\<forall>e\<in>set (plays_in (listing (ss_asked s))). horizon \<le> pe_viewed_at e \<and> kept_entry excluded e \<longrightarrow>
       play_row_of h e \<in> set (lg_plays (ss_ledger s'))))"
proof -
  obtain reason s' n asked where paged: "pageHistory env h since pageSize excluded s = Some (reason, s')"
    and state: "page_state h excluded horizon since listing (ss_ledger s) n s'"
    and asked: "asked \<noteq> []" "ss_asked s' = ss_asked s @ asked" "\<forall>r\<in>set asked. rq_path r = HISTORY_PATH"
    and n: "reason = [] \<longrightarrow> length (since_rows since (listing (butlast (ss_asked s')))) \<le> n"
    by (rule history_pages [OF server read])
  have read': "read_up_to h excluded horizon since (listing (ss_asked s')) n (ss_ledger s')" using state by (simp add: page_state_def)
  have "\<forall>r\<in>set (butlast asked). rq_path r = HISTORY_PATH" using asked(3) by (meson in_set_butlastD)
  from listing_appends [OF server this] obtain early where
    early: "listing (butlast (ss_asked s')) = listing (ss_asked s) @ early" using asked(1,2) by (metis butlast_append)
  have "\<forall>r\<in>set [last asked]. rq_path r = HISTORY_PATH" using asked(1,3) by simp
  from listing_appends [OF server this, of "butlast (ss_asked s')"] obtain extra where
    after: "listing (ss_asked s') = listing (ss_asked s) @ early @ extra"
    using asked(1,2) early by (metis append.assoc append_butlast_last_id append_is_Nil_conv last_appendR)
  have "play_row_of h e \<in> set (lg_plays (ss_ledger s'))"
    if "reason = []" and e: "e \<in> set (plays_in (listing (ss_asked s)))" "horizon \<le> pe_viewed_at e" "kept_entry excluded e" for e
  proof (cases "since \<le> pe_viewed_at e")
    case True
    let ?rows = "since_rows since (listing (ss_asked s'))"
    have "View e \<in> set (since_rows since (listing (ss_asked s) @ early))" using e(1) True by (auto simp: since_rows_def set_plays_in)
    moreover have "take n ?rows = since_rows since (listing (ss_asked s) @ early) @ take (n - length (since_rows since (listing (ss_asked s) @ early))) (since_rows since extra)"
      using n that(1) by (simp add: after early since_rows_def)
    ultimately have "e \<in> set (plays_in (take n ?rows))" by (simp add: set_plays_in)
    then show ?thesis using read' e(3) unfolding read_up_to_def by blast
  next
    case False
    then show ?thesis using read' e by (auto simp: read_up_to_def after)
  qed
  then show ?thesis using paged state asked by blast
qed

subsection \<open>A history pass\<close>

text \<open>Steps that ask the server and write other tables leave the plays, the cursor and the sections alone.\<close>

definition leaves_history :: "string \<Rightarrow> sync_state \<Rightarrow> sync_state \<Rightarrow> bool" where
  "leaves_history h s s' \<longleftrightarrow> lg_plays (ss_ledger s') = lg_plays (ss_ledger s) \<and> lg_sections (ss_ledger s') = lg_sections (ss_ledger s) \<and>
     historyCursor h (ss_ledger s') = historyCursor h (ss_ledger s) \<and> (\<exists>asked. ss_asked s' = ss_asked s @ asked)"

lemma leaves_history_refl [simp]: "leaves_history h s s"
  by (simp add: leaves_history_def)

lemma leaves_history_trans: "leaves_history h s s1 \<Longrightarrow> leaves_history h s1 s2 \<Longrightarrow> leaves_history h s s2"
  by (auto simp: leaves_history_def)

lemma leaves_history_get: "client_get env req s = (fetched, s') \<Longrightarrow> leaves_history h s s'"
  by (auto simp: leaves_history_def client_get_def)

lemma leaves_history_write:
  "lg_plays (f (ss_ledger s)) = lg_plays (ss_ledger s) \<Longrightarrow> lg_sections (f (ss_ledger s)) = lg_sections (ss_ledger s) \<Longrightarrow>
   historyCursor h (f (ss_ledger s)) = historyCursor h (ss_ledger s) \<Longrightarrow> leaves_history h s (in_ledger f s)"
  by (simp add: leaves_history_def in_ledger_def)

lemma leaves_history_enrich: "enrichItems env h moment s = (reason, s') \<Longrightarrow> leaves_history h s s'"
  using enrichItems_facts [of env h moment s reason s'] by (simp add: enriches_def leaves_history_def historyCursor_def)

lemma leaves_history_record:
  assumes "record_pass h moment reason s = (s', r)"
  shows "leaves_history h s s'" "r = Inr check \<Longrightarrow> chk_ok check = (reason = None)"
  using assms by (auto simp: record_pass_def Let_def leaves_history_def markHistory_def [of h] split: sum.splits prod.splits)
    (simp_all add: markHistory_def [symmetric])

text \<open>What a host's ledger promises of its server's history, as the server stands.\<close>

definition tracks_history :: "string \<Rightarrow> string list \<Rightarrow> int \<Rightarrow> (plex_request list \<Rightarrow> history_line list) \<Rightarrow> sync_state \<Rightarrow> bool" where
  "tracks_history h excluded horizon listing s \<longleftrightarrow> history_inv h excluded horizon (plays_in (listing (ss_asked s))) (ss_ledger s) \<and>
     excludedSectionIds h (ss_ledger s) = excluded"

lemma tracks_history_leaves:
  assumes server: "history_server env pageSize listing" and tracks: "tracks_history h excluded horizon listing s" and left: "leaves_history h s s'"
  shows "tracks_history h excluded horizon listing s'"
proof -
  obtain asked where asked: "ss_asked s' = ss_asked s @ asked" using left by (auto simp: leaves_history_def)
  have "history_inv h excluded horizon (plays_in (listing (ss_asked s'))) (ss_ledger s)"
    using history_inv_grows [OF _ listing_joins [OF server]] tracks by (simp add: asked tracks_history_def)
  moreover have "lg_plays (ss_ledger s') = lg_plays (ss_ledger s)" "historyCursor h (ss_ledger s') = historyCursor h (ss_ledger s)"
    "excludedSectionIds h (ss_ledger s') = excludedSectionIds h (ss_ledger s)"
    using left by (simp_all add: leaves_history_def excludedSectionIds_def)
  ultimately show ?thesis using tracks history_inv_cong [of "ss_ledger s'" "ss_ledger s"] by (simp add: tracks_history_def)
qed

lemma tracks_history_reads:
  assumes "tracks_history h excluded horizon listing s"
    and "since = (case historyCursor h (ss_ledger s) of Some c \<Rightarrow> c - OVERLAP_SECONDS | None \<Rightarrow> horizon)"
  shows "read_up_to h excluded horizon since (listing (ss_asked s)) 0 (ss_ledger s)"
proof (cases "historyCursor h (ss_ledger s)")
  case None
  then show ?thesis using assms by (auto simp: tracks_history_def read_up_to_def)
next
  case (Some c)
  then obtain e where e: "View e \<in> set (listing (ss_asked s))" "c \<le> pe_viewed_at e"
    using assms(1) by (auto simp: tracks_history_def history_inv_def set_plays_in)
  have "since \<le> c" using assms(2) Some by (simp add: OVERLAP_SECONDS_def)
  then have "\<exists>row\<in>set (listing (ss_asked s)). since \<le> line_at row" using e by force
  then show ?thesis using assms Some by (simp add: tracks_history_def read_up_to_def history_inv_def)
qed

definition lookback_start :: "int \<Rightarrow> int \<Rightarrow> int" where
  "lookback_start now lookbackDays = epochSeconds (addSeconds now (- lookbackDays * 86400))"

definition history_stored :: "string \<Rightarrow> string list \<Rightarrow> int \<Rightarrow> play_entry list \<Rightarrow> ledger \<Rightarrow> bool" where
  "history_stored h excluded horizon listed l \<longleftrightarrow> list_all (\<lambda>e. horizon \<le> pe_viewed_at e \<longrightarrow> kept_entry excluded e \<longrightarrow>
     play_row_of h e \<in> set (lg_plays l)) listed"

text \<open>The requests up to the first page of history that a pass asked for.\<close>

definition up_to_first_page :: "plex_request list \<Rightarrow> plex_request list \<Rightarrow> plex_request list \<Rightarrow> bool" where
  "up_to_first_page asked first after \<longleftrightarrow> (\<exists>identity page more. first = asked @ identity \<and> after = first @ page # more \<and>
     list_all (\<lambda>r. rq_path r \<noteq> HISTORY_PATH) identity \<and> rq_path page = HISTORY_PATH)"

definition pass_keeps :: "string \<Rightarrow> string list \<Rightarrow> int \<Rightarrow> (plex_request list \<Rightarrow> history_line list) \<Rightarrow> sync_state \<Rightarrow> sync_state \<Rightarrow> bool \<Rightarrow> bool" where
  "pass_keeps h excluded horizon listing s s' fine \<longleftrightarrow> tracks_history h excluded horizon listing s' \<and>
     set (lg_plays (ss_ledger s)) \<subseteq> set (lg_plays (ss_ledger s')) \<and> (\<exists>asked. ss_asked s' = ss_asked s @ asked) \<and>
     (fine \<longrightarrow> (\<exists>first. up_to_first_page (ss_asked s) first (ss_asked s') \<and>
        history_stored h excluded horizon (plays_in (listing first)) (ss_ledger s')))"

lemma leaves_history_identities: "leaves_history h s (identities env h s)"
  by (auto simp: identities_def client_get_def leaves_history_def in_ledger_def historyCursor_def upsertAccounts_def upsertDevices_def
      split: http_result.splits)

lemma identities_asked: "ss_asked (identities env h s) = ss_asked s @ [get_path ''/accounts'', get_path ''/devices'']"
  by (simp add: identities_def client_get_def in_ledger_def)

lemma pass_ended_leaves:
  assumes "pass_ended h now reason s = (s', r)"
  shows "leaves_history h s s'" "r = Inr (Some check) \<Longrightarrow> chk_ok check = (reason = None)"
  using assms leaves_history_record [of h now reason s] by (auto simp: pass_ended_def split: prod.splits sum.splits)

definition went_well :: "exn + check_result option \<Rightarrow> bool" where
  "went_well r \<longleftrightarrow> (case r of Inr (Some check) \<Rightarrow> chk_ok check | _ \<Rightarrow> False)"

lemma after_pages_leaves:
  assumes "after_pages env h now enrich (reason, s) = (s', r)"
  shows "leaves_history h s s'" "went_well r \<Longrightarrow> reason = []"
proof -
  obtain reason' s1 where enriched: "enrichItems env h now s = (reason', s1)" by fastforce
  have "\<exists>why s2. leaves_history h s s2 \<and> pass_ended h now why s2 = (s', r) \<and> (why = None \<longrightarrow> reason = [])"
    using assms leaves_history_enrich [OF enriched] leaves_history_refl [of h s]
    by (simp add: after_pages_def enriched split: if_splits) (metis leaves_history_refl)+
  then obtain why s2 where ended: "leaves_history h s s2" "pass_ended h now why s2 = (s', r)" "why = None \<longrightarrow> reason = []" by blast
  show "leaves_history h s s'" using leaves_history_trans [OF ended(1) pass_ended_leaves(1) [OF ended(2)]] .
  show "went_well r \<Longrightarrow> reason = []"
    using pass_ended_leaves(2) [OF ended(2)] ended(3) by (auto simp: went_well_def split: sum.splits option.splits)
qed

lemma pass_keeps_quiet:
  assumes "history_server env pageSize listing" "tracks_history h excluded horizon listing s" "leaves_history h s s'"
  shows "pass_keeps h excluded horizon listing s s' False"
  using assms tracks_history_leaves [OF assms] by (auto simp: pass_keeps_def leaves_history_def)

lemma pass_fails:
  assumes "history_server env pageSize listing" "tracks_history h excluded horizon listing s" "leaves_history h s s1"
  shows "\<exists>s' r. Some (pass_ended h now (Some reason) s1) = Some (s', r) \<and> pass_keeps h excluded horizon listing s s' (went_well r)"
proof -
  obtain s' r where ended: "pass_ended h now (Some reason) s1 = (s', r)" by fastforce
  then have "leaves_history h s s'" using leaves_history_trans [OF assms(3) pass_ended_leaves(1)] by blast
  moreover have "went_well r = False" using pass_ended_leaves(2) [OF ended] by (auto simp: went_well_def split: sum.splits option.splits)
  ultimately show ?thesis using pass_keeps_quiet [OF assms(1,2)] ended by auto
qed

lemma pass_pages:
  assumes server: "history_server env pageSize listing" and tracks: "tracks_history h excluded horizon listing s"
    and left: "leaves_history h s s1"
    and identity: "ss_asked s1 = ss_asked s @ identity" "list_all (\<lambda>r. rq_path r \<noteq> HISTORY_PATH) identity"
    and since: "since = (case historyCursor h (ss_ledger s1) of Some c \<Rightarrow> c - OVERLAP_SECONDS | None \<Rightarrow> horizon)"
  shows "\<exists>s' r. map_option (after_pages env h now enrich) (pageHistory env h since pageSize excluded s1) = Some (s', r) \<and>
    pass_keeps h excluded horizon listing s s' (went_well r)"
proof -
  have tracks1: "tracks_history h excluded horizon listing s1" by (rule tracks_history_leaves [OF server tracks left])
  from pageHistory_reads [OF server tracks_history_reads [OF tracks1 since]]
  obtain reason s2 n asked2 where paged: "pageHistory env h since pageSize excluded s1 = Some (reason, s2)"
    and state: "page_state h excluded horizon since listing (ss_ledger s1) n s2"
    and asked2: "asked2 \<noteq> []" "ss_asked s2 = ss_asked s1 @ asked2" "\<forall>r\<in>set asked2. rq_path r = HISTORY_PATH"
    and stored: "reason = [] \<longrightarrow> (\<forall>e\<in>set (plays_in (listing (ss_asked s1))). horizon \<le> pe_viewed_at e \<and> kept_entry excluded e \<longrightarrow>
       play_row_of h e \<in> set (lg_plays (ss_ledger s2)))" by blast
  obtain s3 r where ended: "after_pages env h now enrich (reason, s2) = (s3, r)" by fastforce
  obtain asked3 where asked3: "ss_asked s3 = ss_asked s2 @ asked3" using after_pages_leaves(1) [OF ended] by (auto simp: leaves_history_def)
  have tracks2: "tracks_history h excluded horizon listing s2"
    using state tracks1 by (simp add: page_state_def read_up_to_def tracks_history_def excludedSectionIds_def)
  have tracks3: "tracks_history h excluded horizon listing s3" by (rule tracks_history_leaves [OF server tracks2 after_pages_leaves(1) [OF ended]])
  have plays: "lg_plays (ss_ledger s3) = lg_plays (ss_ledger s2)" "lg_plays (ss_ledger s1) = lg_plays (ss_ledger s)"
    using after_pages_leaves(1) [OF ended] left by (simp_all add: leaves_history_def)
  have "went_well r \<longrightarrow> history_stored h excluded horizon (plays_in (listing (ss_asked s1))) (ss_ledger s3)"
    using stored after_pages_leaves(2) [OF ended] by (auto simp: history_stored_def list_all_iff plays)
  moreover have "up_to_first_page (ss_asked s) (ss_asked s1) (ss_asked s3)"
    unfolding up_to_first_page_def
    by (intro exI [of _ identity] exI [of _ "hd asked2"] exI [of _ "tl asked2 @ asked3"]) (use identity asked2 asked3 in auto)
  ultimately have "pass_keeps h excluded horizon listing s s3 (went_well r)"
    using tracks3 state identity(1) asked2(2) asked3 plays by (auto simp: pass_keeps_def page_state_def)
  then show ?thesis using paged ended by simp
qed

lemma syncHistory_pass:
  assumes server: "history_server env pageSize listing"
    and tracks: "tracks_history (hst_name host) excluded (lookback_start now lookbackDays) listing s"
  shows "\<exists>s' r. syncHistory env host now token lookbackDays pageSize enrich s = Some (s', r) \<and>
    pass_keeps (hst_name host) excluded (lookback_start now lookbackDays) listing s s' (went_well r)"
proof -
  let ?h = "hst_name host" and ?horizon = "lookback_start now lookbackDays"
  obtain identity s1 where got: "client_get env (get_path ''/'') s = (identity, s1)" by fastforce
  have left1: "leaves_history ?h s s1" by (rule leaves_history_get [OF got])
  note failing = pass_fails [OF server tracks, of _ now]
  have paging: "\<exists>s' r. map_option (after_pages env ?h now enrich) (pageHistory env ?h
        (case historyCursor ?h (ss_ledger s2) of Some c \<Rightarrow> c - OVERLAP_SECONDS | None \<Rightarrow> ?horizon) pageSize
        (excludedSectionIds ?h (ss_ledger s2)) (identities env ?h s2)) = Some (s', r) \<and>
      pass_keeps ?h excluded ?horizon listing s s' (went_well r)" if "s2 = in_ledger (upsertServer ?h info) s1" for info s2
  proof -
    have left2: "leaves_history ?h s s2"
      unfolding that by (rule leaves_history_trans [OF left1 leaves_history_write]) (simp_all, simp_all add: upsertServer_def)
    have "excludedSectionIds ?h (ss_ledger s2) = excluded" using left2 tracks by (simp add: tracks_history_def leaves_history_def excludedSectionIds_def)
    moreover have "historyCursor ?h (ss_ledger (identities env ?h s2)) = historyCursor ?h (ss_ledger s2)"
      using leaves_history_identities by (simp add: leaves_history_def)
    moreover have "ss_asked (identities env ?h s2) = ss_asked s @ [get_path ''/'', get_path ''/accounts'', get_path ''/devices'']"
      using got by (auto simp: identities_asked that in_ledger_def client_get_def)
    moreover have "list_all (\<lambda>r. rq_path r \<noteq> HISTORY_PATH) [get_path ''/'', get_path ''/accounts'', get_path ''/devices'']"
      by (simp add: get_path_def HISTORY_PATH_def)
    ultimately show ?thesis
      using pass_pages [OF server tracks leaves_history_trans [OF left2 leaves_history_identities [where h = ?h and s = s2 and env = env]] _ _ refl,
        where now = now and enrich = enrich]
      by (simp only:)
  qed
  have skipped: "\<exists>s' r. Some (s, Inr None) = Some (s', r) \<and> pass_keeps ?h excluded ?horizon listing s s' (went_well r)"
    using pass_keeps_quiet [OF server tracks leaves_history_refl] by (simp add: went_well_def)
  show ?thesis
    unfolding syncHistory_def Let_def got lookback_start_def [symmetric] prod.case
    by (split if_split, split if_split, split http_result.split, split option.split)
      (use failing [OF leaves_history_refl] failing [OF left1] paging [OF refl] skipped in blast)
qed

subsection \<open>Pass after pass\<close>

record history_round =
  hr_now :: int
  hr_token :: string
  hr_enrich :: bool

fun history_rounds :: "plex_env \<Rightarrow> fleet_host \<Rightarrow> int \<Rightarrow> history_round list \<Rightarrow> sync_state \<Rightarrow> sync_state option" where
  \<comment> \<open>one pass after another, whatever each of them came to\<close>
  "history_rounds env host lookbackDays [] s = Some s"
| "history_rounds env host lookbackDays (r # rs) s =
     (case syncHistory env host (hr_now r) (hr_token r) lookbackDays HISTORY_PAGE (hr_enrich r) s of
        None \<Rightarrow> None | Some (s', _) \<Rightarrow> history_rounds env host lookbackDays rs s')"

definition no_history_yet :: "string \<Rightarrow> ledger \<Rightarrow> bool" where
  "no_history_yet h l \<longleftrightarrow> historyCursor h l = None \<and> list_all (\<lambda>p. plr_host p \<noteq> h) (lg_plays l)"

lemma lookback_mono: "now \<le> now' \<Longrightarrow> lookback_start now lookbackDays \<le> lookback_start now' lookbackDays"
  by (simp add: lookback_start_def epochSeconds_def addSeconds_def zdiv_mono1)

lemma tracks_history_mono: "tracks_history h excluded horizon listing s \<Longrightarrow> horizon \<le> horizon' \<Longrightarrow> tracks_history h excluded horizon' listing s"
  using history_inv_mono by (auto simp: tracks_history_def)

lemma history_rounds_track:
  assumes server: "history_server env HISTORY_PAGE listing"
  shows "tracks_history (hst_name host) excluded (lookback_start t lookbackDays) listing s \<Longrightarrow> sorted (t # map hr_now rs @ [now]) \<Longrightarrow>
    \<exists>s'. history_rounds env host lookbackDays rs s = Some s' \<and> tracks_history (hst_name host) excluded (lookback_start now lookbackDays) listing s' \<and>
      set (lg_plays (ss_ledger s)) \<subseteq> set (lg_plays (ss_ledger s'))"
proof (induction rs arbitrary: s t)
  case Nil
  then show ?case using tracks_history_mono lookback_mono by auto
next
  case (Cons r rs)
  have "tracks_history (hst_name host) excluded (lookback_start (hr_now r) lookbackDays) listing s"
    using tracks_history_mono [OF Cons.prems(1)] lookback_mono Cons.prems(2) by auto
  from syncHistory_pass [OF server this, of "hr_token r" "hr_enrich r"]
  obtain s1 x where pass: "syncHistory env host (hr_now r) (hr_token r) lookbackDays HISTORY_PAGE (hr_enrich r) s = Some (s1, x)"
    "pass_keeps (hst_name host) excluded (lookback_start (hr_now r) lookbackDays) listing s s1 (went_well x)" by blast
  have "sorted (hr_now r # map hr_now rs @ [now])" using Cons.prems(2) by simp
  moreover have after: "tracks_history (hst_name host) excluded (lookback_start (hr_now r) lookbackDays) listing s1"
    "set (lg_plays (ss_ledger s)) \<subseteq> set (lg_plays (ss_ledger s1))" using pass(2) by (simp_all add: pass_keeps_def)
  ultimately obtain s' where "history_rounds env host lookbackDays rs s1 = Some s'"
    "tracks_history (hst_name host) excluded (lookback_start now lookbackDays) listing s'"
    "set (lg_plays (ss_ledger s1)) \<subseteq> set (lg_plays (ss_ledger s'))" using Cons.IH [OF after(1)] by blast
  then show ?case using pass(1) after(2) by auto
qed

text \<open>C13: No play is skipped. A server lists its views oldest first, among rows of other kinds, and may fail any
  request at any point; new rows come at the end of the listing, fewer between two page requests than the 500 a page holds,
  and outside a paging run rows may also turn up late, dated up to two days before rows listed already. Passes run
  one after another over a host whose ledger starts empty, each failing or not. Each pass ends; no pass
  takes back a stored play; every play stored for the host is a row of the listing; and after a pass that
  reports success, every play listed when it asked for its first page, and so every one listed when it began, back to the
  start of the look-back and outside the excluded libraries, is stored as the server listed it.\<close>

theorem no_play_is_skipped:
  assumes server: "history_server env HISTORY_PAGE listing" and fresh: "no_history_yet (hst_name host) (ss_ledger s0)"
    and in_time: "sorted (map hr_now rounds @ [now])"
  shows "\<exists>s s' outcome. history_rounds env host lookbackDays rounds s0 = Some s \<and>
    syncHistory env host now token lookbackDays HISTORY_PAGE enrich s = Some (s', outcome) \<and>
    set (lg_plays (ss_ledger s0)) \<subseteq> set (lg_plays (ss_ledger s)) \<and> set (lg_plays (ss_ledger s)) \<subseteq> set (lg_plays (ss_ledger s')) \<and>
    (\<forall>p\<in>set (lg_plays (ss_ledger s')). plr_host p = hst_name host \<longrightarrow> p \<in> play_row_of (hst_name host) ` set (plays_in (listing (ss_asked s')))) \<and>
    (went_well outcome \<longrightarrow> (\<exists>first. up_to_first_page (ss_asked s) first (ss_asked s') \<and>
      set (plays_in (listing (ss_asked s))) \<subseteq> set (plays_in (listing first)) \<and>
      history_stored (hst_name host) (excludedSectionIds (hst_name host) (ss_ledger s0))
        (lookback_start now lookbackDays) (plays_in (listing first)) (ss_ledger s')))"
proof -
  let ?h = "hst_name host" and ?t = "hd (map hr_now rounds @ [now])"
  define excluded where "excluded = excludedSectionIds ?h (ss_ledger s0)"
  have start: "tracks_history ?h excluded (lookback_start ?t lookbackDays) listing s0"
    using fresh by (auto simp: tracks_history_def history_inv_def no_history_yet_def excluded_def list_all_iff)
  have "sorted (?t # map hr_now rounds @ [now])" using in_time by (cases rounds) auto
  from history_rounds_track [OF server start this]
  obtain s where s: "history_rounds env host lookbackDays rounds s0 = Some s" "tracks_history ?h excluded (lookback_start now lookbackDays) listing s"
    "set (lg_plays (ss_ledger s0)) \<subseteq> set (lg_plays (ss_ledger s))" by blast
  from syncHistory_pass [OF server s(2), of token enrich]
  obtain s' outcome where pass: "syncHistory env host now token lookbackDays HISTORY_PAGE enrich s = Some (s', outcome)"
    "pass_keeps ?h excluded (lookback_start now lookbackDays) listing s s' (went_well outcome)" by blast
  have "set (plays_in (listing (ss_asked s))) \<subseteq> set (plays_in (listing first))" if "up_to_first_page (ss_asked s) first after" for first after
    using that listing_joins [OF server, of "ss_asked s"] by (fastforce simp: up_to_first_page_def joined_by_def set_plays_in)
  then show ?thesis using s(1,3) pass unfolding pass_keeps_def tracks_history_def history_inv_def excluded_def by blast
qed

subsection \<open>A server with a late play\<close>

text \<open>A page of history as a server writes it, rows of other kinds included.\<close>

fun line_row :: "history_line \<Rightarrow> json" where
  "line_row (View e) = history_row e"
| "line_row (Other viewedAt) = JObj [(''type'', JStr ''clip''), (''historyKey'', JStr (history_key 9)), (''ratingKey'', JStr ''77''),
     (''title'', JStr ''Trailer''), (''accountID'', JNum 1), (''viewedAt'', JNum viewedAt)]"

definition written_page :: "history_line list \<Rightarrow> json" where
  "written_page rows = JObj [(''MediaContainer'', JObj [(''size'', JNum (int (length rows))), (''totalSize'', JNum (int (length rows))),
     (''Metadata'', JArr (map line_row rows))])]"

lemma parse_written_page:
  assumes "list_all entry_ok (plays_in rows)"
  shows "parseHistory (written_page rows) = plays_in rows"
proof -
  have "concat (map history_entry (somes (map (fields_of \<circ> line_row) rows))) = plays_in rows"
    using assms
  proof (induction rows rule: plays_in.induct)
    case (2 e rows)
    obtain os where os: "fields_of (history_row e) = Some os" by (simp add: history_row_def)
    have "entry_ok e" using 2(2) by simp
    then show ?case using 2 os history_entry_written [of e] by simp
  next
    case (3 viewedAt rows)
    then show ?case by (simp add: history_entry_def field_def kind_of_def KINDS_def kind_name_def)
  qed simp
  then show ?thesis
    by (simp add: parseHistory_def written_page_def plex_rows_def plex_container_def nested_def field_def objects_in_def)
qed

lemma info_written_page: "pageInfo (written_page rows) = Some \<lparr>pi_size = int (length rows), pi_total_size = int (length rows), pi_offset = 0\<rparr>"
  by (simp add: pageInfo_def written_page_def plex_container_def nested_def field_def integer_of_def)

text \<open>A server whose ledger holds a play and a trailer, and where a second play turns up a day late, once the
  first pass is over.\<close>

definition sample_play :: play_entry where
  "sample_play = \<lparr>pe_history_id = 7, pe_rating_key = ''31'', pe_kind = Movie, pe_title = ''Heat'', pe_section_id = Some ''1'',
     pe_account_id = 1, pe_device_id = None, pe_viewed_at = 172900\<rparr>"

definition late_play :: play_entry where
  "late_play = \<lparr>pe_history_id = 8, pe_rating_key = ''32'', pe_kind = Movie, pe_title = ''Ronin'', pe_section_id = Some ''1'',
     pe_account_id = 1, pe_device_id = None, pe_viewed_at = 86400\<rparr>"

definition later :: "plex_request list \<Rightarrow> bool" where
  "later asked \<longleftrightarrow> 2 \<le> length (filter (\<lambda>r. rq_path r = ''/'') asked)"

definition sample_history :: "plex_request list \<Rightarrow> history_line list" where
  "sample_history asked = (if later asked then [View late_play] else []) @ [View sample_play, Other 172950]"

definition sample_plex :: plex_env where
  "sample_plex = \<lparr>px_JSON_parse = (\<lambda>text. if text = ''views'' then Some (written_page (sample_history []))
       else if text = ''more'' then Some (written_page [View late_play, View sample_play, Other 172950])
       else if text = ''root'' then Some (JObj [(''MediaContainer'', JObj [(''machineIdentifier'', JStr ''abc'')])]) else None),
     px_wire = (\<lambda>asked req. (False,
       if rq_path req = ''/'' then Inr (200, ''root'')
       else if req = page_request (history_request 0) 0 HISTORY_PAGE \<and> \<not> later asked then Inr (200, ''views'')
       else if req = page_request (history_request 100) 0 HISTORY_PAGE \<and> later asked then Inr (200, ''more'')
       else Inr (503, [])))\<rparr>"

definition sample_plex_host :: fleet_host where
  "sample_plex_host = \<lparr>hst_name = ''nyx'', hst_ip = ''10.0.0.2'', hst_has_gpu = False, hst_docker_url = [], hst_plex_url = ''http://10.0.0.2:32400''\<rparr>"

definition empty_sync :: sync_state where
  "empty_sync = \<lparr>ss_checks = \<lparr>cdb_incidents = [], cdb_next_id = 1, cdb_streaks = []\<rparr>,
     ss_ledger = \<lparr>lg_servers = [], lg_accounts = [], lg_devices = [], lg_sections = [], lg_items = [], lg_plays = []\<rparr>, ss_asked = []\<rparr>"

lemma show_int_inj: "0 \<le> b \<Longrightarrow> show_int a = show_int b \<Longrightarrow> a = b"
proof -
  assume b: "0 \<le> b" and same: "show_int a = show_int b"
  have "list_all is_digit (show_int b)" using b by (simp add: show_int_def show_nat_digits)
  then have "list_all is_digit (show_int a)" using same by simp
  then have "0 \<le> a" by (cases "a < 0") (simp_all add: show_int_def is_digit_def code_of_def)
  then have "show_nat (nat a) = show_nat (nat b)" using same b by (simp add: show_int_def)
  then have "nat a = nat b" by (metis read_show_nat)
  then show "a = b" using b \<open>0 \<le> a\<close> by simp
qed

lemma page_request_same:
  assumes "0 \<le> b" "page_request (history_request a) start k = page_request (history_request b) start' k"
  shows "a = b \<and> start = start'"
  using assms show_int_inj [OF assms(1), of a] by (auto simp: page_request_def history_request_def)

lemma sample_rows: "plays_in (sample_history asked) = (if later asked then [late_play] else []) @ [sample_play]"
  "list_all entry_ok (plays_in (sample_history asked))" "listing_ok (sample_history asked)"
  "joined_by [View sample_play, Other 172950] [View late_play, View sample_play, Other 172950]"
  by (auto simp: sample_history_def sample_play_def late_play_def entry_ok_def is_digit_def code_of_def listing_ok_def joined_by_def)

lemma sample_page_honest:
  "honest_rows parseHistory plays_in (since_rows since (sample_history asked)) start HISTORY_PAGE
     (answer_of sample_plex asked (page_request (history_request since) start HISTORY_PAGE))"
proof -
  have all: "since_rows t (sample_history asked) = sample_history asked" if "t \<le> 100" for t
    using that by (simp add: since_rows_def sample_history_def sample_play_def late_play_def)
  have page: "page_of (sample_history asked) 0 HISTORY_PAGE = sample_history asked"
    by (simp add: page_of_def HISTORY_PAGE_def sample_history_def)
  have written: "\<exists>os. written_page rows = JObj os" for rows by (simp add: written_page_def)
  have answered: "answer_of sample_plex asked (page_request (history_request since) start HISTORY_PAGE) = Http_ok (written_page (sample_history asked))"
    if "start = 0" "since = (if later asked then 100 else 0)"
    using that page_request_same [of 0 100 0 HISTORY_PAGE 0] written [of "sample_history asked"]
    by (auto simp: answer_of_def sample_plex_def getJson_def judge_def HISTORY_PATH_def sample_history_def later_def)
  show ?thesis
  proof (cases "start = 0 \<and> since = (if later asked then 100 else 0)")
    case True
    then show ?thesis
      using answered all [of since] page parse_written_page [OF sample_rows(2)] by (auto simp: honest_rows_def info_written_page)
  next
    case False
    then have "px_wire sample_plex asked (page_request (history_request since) start HISTORY_PAGE) = (False, Inr (503, []))"
      using page_request_same [of 0 since start HISTORY_PAGE 0] page_request_same [of 100 since start HISTORY_PAGE 0]
      by (auto simp: sample_plex_def HISTORY_PATH_def split: if_splits)
    then show ?thesis by (simp add: honest_rows_def answer_of_def getJson_def judge_def)
  qed
qed

lemma sample_plex_honest: "history_server sample_plex HISTORY_PAGE sample_history"
proof -
  have "\<exists>extra. sample_history (asked @ [req]) = sample_history asked @ extra \<and> length extra < nat HISTORY_PAGE"
    if "rq_path req = HISTORY_PATH" for asked req
    using that by (intro exI [of _ "[]"]) (simp add: sample_history_def later_def HISTORY_PATH_def HISTORY_PAGE_def)
  moreover have "joined_by (sample_history asked) (sample_history (asked @ [req]))" for asked req
    using sample_rows(4) by (auto simp: sample_history_def later_def)
  ultimately show ?thesis using sample_page_honest sample_rows(3) by (simp add: history_server_def HISTORY_PAGE_def)
qed

theorem no_play_is_skipped_witness:
  "\<exists>s s' outcome. history_rounds sample_plex sample_plex_host 365 [\<lparr>hr_now = 31536000000, hr_token = ''t'', hr_enrich = False\<rparr>] empty_sync = Some s \<and>
    syncHistory sample_plex sample_plex_host 31536300000 ''t'' 365 HISTORY_PAGE False s = Some (s', outcome) \<and>
    set (lg_plays (ss_ledger s)) \<subseteq> set (lg_plays (ss_ledger s')) \<and>
    (went_well outcome \<longrightarrow> (\<exists>first. up_to_first_page (ss_asked s) first (ss_asked s') \<and>
      history_stored ''nyx'' [] (lookback_start 31536300000 365) (plays_in (sample_history first)) (ss_ledger s')))"
proof -
  have "no_history_yet (hst_name sample_plex_host) (ss_ledger empty_sync)"
    by (simp add: no_history_yet_def historyCursor_def empty_sync_def)
  moreover have "hst_name sample_plex_host = ''nyx''" "excludedSectionIds ''nyx'' (ss_ledger empty_sync) = []"
    by (simp_all add: sample_plex_host_def empty_sync_def excludedSectionIds_def)
  ultimately show ?thesis
    using no_play_is_skipped [OF sample_plex_honest, of sample_plex_host empty_sync
        "[\<lparr>hr_now = 31536000000, hr_token = ''t'', hr_enrich = False\<rparr>]" 31536300000 365 "''t''" False] by simp blast
qed

end
