(* ===== verification/PlexInventory.thy ===== *)
theory PlexInventory imports PlexPasses begin

text \<open>
  What the inventory pass (\<open>plexSync/inventory.ts\<close>) leaves of a host's items: a complete run makes the items
  present exactly those the server lists, and a run that fails anywhere retires nothing.
\<close>

subsection \<open>Items seen so far\<close>

text \<open>\<open>counted old found l\<close>: the rows are those of \<open>old\<close>, but for a row of this run for each item of \<open>found\<close>.\<close>

definition counted :: "string \<Rightarrow> int \<Rightarrow> item_row set \<Rightarrow> media_item set \<Rightarrow> ledger \<Rightarrow> bool" where
  "counted h now old found l \<longleftrightarrow>
     set (lg_items l) \<subseteq> old \<union> item_row_of h now ` found \<and>
     (\<forall>i\<in>found. \<exists>i'\<in>found. mi_rating_key i' = mi_rating_key i \<and> item_row_of h now i' \<in> set (lg_items l)) \<and>
     (\<forall>r\<in>old. r \<in> set (lg_items l) \<or> (\<exists>i\<in>found. item_key r = (h, mi_rating_key i)))"

lemma countedD:
  assumes "counted h now old found l"
  shows "r \<in> set (lg_items l) \<Longrightarrow> r \<in> old \<or> (\<exists>i\<in>found. r = item_row_of h now i)"
    "i \<in> found \<Longrightarrow> \<exists>i'\<in>found. mi_rating_key i' = mi_rating_key i \<and> item_row_of h now i' \<in> set (lg_items l)"
    "r \<in> old \<Longrightarrow> r \<in> set (lg_items l) \<or> (\<exists>i\<in>found. item_key r = (h, mi_rating_key i))"
  using assms by (auto simp: counted_def)

lemma set_upsert_row: "set (upsert key (\<lambda>_. new) new rows) = insert new {r \<in> set rows. key r \<noteq> key new}"
proof (cases "key new \<in> key ` set rows")
  case False
  then have "{r \<in> set rows. key r \<noteq> key new} = set rows" by (auto simp: rev_image_eqI)
  then show ?thesis using False by (simp add: upsert_def)
qed (auto simp: upsert_def)

lemma item_key_row [simp]: "item_key (item_row_of h now i) = (h, mi_rating_key i)"
  by (simp add: item_key_def item_row_of_def)

lemma counted_item:
  assumes "counted h now old found l"
  shows "counted h now old (insert i found) (l\<lparr>lg_items := upsert item_key (\<lambda>_. item_row_of h now i) (item_row_of h now i) (lg_items l)\<rparr>)"
proof -
  let ?l = "l\<lparr>lg_items := upsert item_key (\<lambda>_. item_row_of h now i) (item_row_of h now i) (lg_items l)\<rparr>"
  have rows: "set (lg_items ?l) = insert (item_row_of h now i) {r \<in> set (lg_items l). item_key r \<noteq> (h, mi_rating_key i)}"
    by (simp add: set_upsert_row)
  have "\<exists>i'\<in>insert i found. mi_rating_key i' = mi_rating_key j \<and> item_row_of h now i' \<in> set (lg_items ?l)" if j: "j \<in> insert i found" for j
  proof (cases "mi_rating_key j = mi_rating_key i")
    case True
    then show ?thesis unfolding rows by auto
  next
    case False
    then obtain i' where "i' \<in> found" "mi_rating_key i' = mi_rating_key j" "item_row_of h now i' \<in> set (lg_items l)"
      using assms j unfolding counted_def by blast
    then show ?thesis using False unfolding rows by (intro bexI [of _ i']) auto
  qed
  moreover have "set (lg_items ?l) \<subseteq> old \<union> item_row_of h now ` insert i found" using assms unfolding rows counted_def by auto
  moreover have "\<forall>r\<in>old. r \<in> set (lg_items ?l) \<or> (\<exists>i\<in>insert i found. item_key r = (h, mi_rating_key i))"
    using assms unfolding rows counted_def by auto
  ultimately show ?thesis unfolding counted_def by blast
qed

lemma counted_upsertItems: "counted h now old found l \<Longrightarrow> counted h now old (found \<union> set items) (upsertItems h items now l)"
proof (induction items arbitrary: found l)
  case Nil
  then show ?case by (simp add: upsertItems_def)
next
  case (Cons i items)
  have "upsertItems h (i # items) now l =
      upsertItems h items now (l\<lparr>lg_items := upsert item_key (\<lambda>_. item_row_of h now i) (item_row_of h now i) (lg_items l)\<rparr>)"
    by (simp add: upsertItems_def)
  then show ?case using Cons.IH [OF counted_item [OF Cons.prems, of i]] by simp
qed

lemma counted_start: "counted h now (set (lg_items l)) {} l"
  by (simp add: counted_def)

subsection \<open>Sections\<close>

definition library_server :: "plex_env \<Rightarrow> int \<Rightarrow> (plex_section \<Rightarrow> media_item list) \<Rightarrow> bool" where
  "library_server env pageSize library \<longleftrightarrow> 0 < pageSize \<and> (\<forall>asked sec start. 0 \<le> start \<longrightarrow>
     honest_page (\<lambda>payload. parseItems payload (Some (ps_section_id sec))) (library sec) start pageSize
       (answer_of env asked ((section_request sec)\<lparr>rq_start := Some start, rq_size := Some pageSize\<rparr>)))"

lemma pageSection_counts:
  assumes server: "library_server env pageSize library" and before: "counted h now old found (ss_ledger s)"
  shows "\<exists>reason s' n. pageSection env h sec now pageSize s = Some (reason, s') \<and>
    counted h now old (found \<union> set (take n (library sec))) (ss_ledger s') \<and> (reason = [] \<longrightarrow> length (library sec) \<le> n)"
proof -
  have "\<exists>reason s'. pageAll env (section_request sec) pageSize
      (\<lambda>payload. in_ledger (upsertItems h (parseItems payload (Some (ps_section_id sec))) now)) (int 0) s = Some (reason, s') \<and>
    (\<exists>n. counted h now old (found \<union> set (take n (library sec))) (ss_ledger s') \<and> n \<le> length (library sec) \<and>
    (reason = [] \<longrightarrow> length (library sec) \<le> n)) \<and>
    (\<exists>asked. asked \<noteq> [] \<and> ss_asked s' = ss_asked s @ asked \<and> (\<forall>r\<in>set asked. rq_path r = rq_path (section_request sec)))"
  proof (rule pageAll_pages [where parse = "\<lambda>payload. parseItems payload (Some (ps_section_id sec))" and readable = "\<lambda>page. page"
        and rows = "\<lambda>_. library sec" and P = "\<lambda>n s. counted h now old (found \<union> set (take n (library sec))) (ss_ledger s)"])
    fix n :: nat and s :: sync_state and start :: int and payload :: json and page
    assume counted: "counted h now old (found \<union> set (take n (library sec))) (ss_ledger s)" and n: "n \<le> length (library sec)"
      and page: "page = page_of (library sec) (int n) pageSize" "parseItems payload (Some (ps_section_id sec)) = page"
    have "take (n + length page) (library sec) = take n (library sec) @ page"
      unfolding page(1) by (cases "nat pageSize \<le> length (drop n (library sec))") (simp_all add: page_of_def take_add)
    then show "counted h now old (found \<union> set (take (n + length page) (library sec)))
        (ss_ledger (in_ledger (upsertItems h (parseItems payload (Some (ps_section_id sec))) now)
          (s\<lparr>ss_asked := ss_asked s @ [page_request (section_request sec) start pageSize]\<rparr>))) \<and>
      n + length page \<le> length (library sec)"
      using counted_upsertItems [OF counted, of page] n
      by (simp add: in_ledger_def page(2) Un_assoc) (simp add: page(1) page_of_def)
  qed (use server before in \<open>simp_all add: library_server_def in_ledger_def honest_page_rows page_request_def\<close>)
  then show ?thesis unfolding pageSection_def by auto
qed

definition listed_items :: "string list \<Rightarrow> (plex_section \<Rightarrow> media_item list) \<Rightarrow> plex_section list \<Rightarrow> media_item set" where
  "listed_items excluded library secs = \<Union> (set ` library ` {sec \<in> set secs. \<not> List.member excluded (ps_section_id sec)})"

lemma page_sections_count:
  assumes server: "library_server env pageSize library"
  shows "counted h now old found (ss_ledger s) \<Longrightarrow> \<exists>failure' s' found'. page_sections env h excluded now pageSize secs failure s = Some (failure', s') \<and>
    counted h now old found' (ss_ledger s') \<and> (failure' = [] \<longrightarrow> failure = [] \<and> found' = found \<union> listed_items excluded library secs)"
proof (induction secs arbitrary: found s failure)
  case Nil
  then show ?case by (auto simp: listed_items_def)
next
  case (Cons sec secs)
  show ?case
  proof (cases "List.member excluded (ps_section_id sec)")
    case True
    then have "listed_items excluded library (sec # secs) = listed_items excluded library secs" by (auto simp: listed_items_def)
    then show ?thesis using Cons True by simp
  next
    case False
    obtain reason s1 n where paged: "pageSection env h sec now pageSize s = Some (reason, s1)"
      "counted h now old (found \<union> set (take n (library sec))) (ss_ledger s1)" "reason = [] \<longrightarrow> length (library sec) \<le> n"
      using pageSection_counts [OF server Cons.prems] by blast
    have "listed_items excluded library (sec # secs) = set (library sec) \<union> listed_items excluded library secs"
      using False by (auto simp: listed_items_def)
    then show ?thesis using Cons.IH [OF paged(2), of "if reason \<noteq> [] then reason else failure"] False paged
      by (auto simp: Un_assoc split: if_splits)
  qed
qed

subsection \<open>A run\<close>

definition sections_now :: "plex_env \<Rightarrow> sync_state \<Rightarrow> plex_section list" where
  \<comment> \<open>the libraries the run is told about\<close>
  "sections_now env s = (case answer_of env (ss_asked s) (get_path ''/library/sections'') of Http_ok payload \<Rightarrow> parseSections payload | Http_failed _ \<Rightarrow> [])"

definition present_keys :: "string \<Rightarrow> ledger \<Rightarrow> string set" where
  "present_keys h l = itr_rating_key ` {r \<in> set (lg_items l). itr_host r = h \<and> itr_present r}"

definition seen_before :: "string \<Rightarrow> int \<Rightarrow> ledger \<Rightarrow> bool" where
  "seen_before h now l \<longleftrightarrow> list_all (\<lambda>r. itr_host r = h \<longrightarrow> itr_seen_at r < isoformat now) (lg_items l)"

definition after_purge :: "string \<Rightarrow> string list \<Rightarrow> ledger \<Rightarrow> item_row set" where
  "after_purge h excluded l = {r \<in> set (lg_items l). \<not> (itr_host r = h \<and> in_sections excluded (item_section r))}"

lemma items_after_purge:
  "set (lg_items (fst (purgeSections h excluded (upsertSections h sections ids l)))) = after_purge h excluded l"
  by (auto simp: purgeSections_def upsertSections_def after_purge_def in_sections_def split: option.splits)

lemma present_after_retire:
  "present_keys h (fst (retireUnseenItems h now l)) =
    itr_rating_key ` {r \<in> set (lg_items l). itr_host r = h \<and> itr_present r \<and> \<not> itr_seen_at r < isoformat now}"
proof -
  define f :: "item_row \<Rightarrow> item_row" where "f = (\<lambda>r. if itr_host r = h \<and> itr_present r \<and> itr_seen_at r < isoformat now then r\<lparr>itr_present := False\<rparr> else r)"
  have rows: "set (lg_items (fst (retireUnseenItems h now l))) = f ` set (lg_items l)"
    by (simp add: retireUnseenItems_def f_def Let_def)
  have f: "itr_host (f r) = itr_host r" "itr_rating_key (f r) = itr_rating_key r"
    "itr_present (f r) \<longleftrightarrow> itr_present r \<and> \<not> (itr_host r = h \<and> itr_seen_at r < isoformat now)" for r
    by (auto simp: f_def)
  have "{r \<in> f ` set (lg_items l). itr_host r = h \<and> itr_present r} =
      f ` {r \<in> set (lg_items l). itr_host r = h \<and> itr_present r \<and> \<not> itr_seen_at r < isoformat now}"
    by (auto simp: f)
  then show ?thesis unfolding present_keys_def rows by (simp add: image_image f(2))
qed

lemma counted_retired:
  assumes counted: "counted h now (after_purge h excluded l0) found l" and old: "seen_before h now l0"
  shows "present_keys h (fst (retireUnseenItems h now l)) = mi_rating_key ` found"
proof -
  have fresh: "itr_host r = h" "itr_present r" "\<not> itr_seen_at r < isoformat now" "itr_rating_key r = mi_rating_key i"
    if "r = item_row_of h now i" for r i by (simp_all add: that item_row_of_def)
  have known: "r \<in> after_purge h excluded l0 \<or> (\<exists>i\<in>found. r = item_row_of h now i)" if "r \<in> set (lg_items l)" for r
    using countedD(1) [OF counted that] .
  have stale: "itr_seen_at r < isoformat now" if "r \<in> after_purge h excluded l0" "itr_host r = h" for r
    using old that by (simp add: after_purge_def seen_before_def list_all_iff)
  show ?thesis unfolding present_after_retire
  proof (intro equalityI subsetI)
    fix key assume "key \<in> itr_rating_key ` {r \<in> set (lg_items l). itr_host r = h \<and> itr_present r \<and> \<not> itr_seen_at r < isoformat now}"
    then obtain r where r: "r \<in> set (lg_items l)" "itr_host r = h" "\<not> itr_seen_at r < isoformat now" "itr_rating_key r = key" by auto
    then obtain i where "i \<in> found" "r = item_row_of h now i" using known [OF r(1)] stale [of r] by auto
    then show "key \<in> mi_rating_key ` found" using fresh(4) r(4) by (metis image_eqI)
  next
    fix key assume "key \<in> mi_rating_key ` found"
    then obtain i where i: "i \<in> found" "key = mi_rating_key i" by blast
    then obtain i' where i': "mi_rating_key i' = key" "item_row_of h now i' \<in> set (lg_items l)"
      using countedD(2) [OF counted i(1)] by auto
    show "key \<in> itr_rating_key ` {r \<in> set (lg_items l). itr_host r = h \<and> itr_present r \<and> \<not> itr_seen_at r < isoformat now}"
      by (rule image_eqI [of _ _ "item_row_of h now i'"]) (use i' fresh [OF refl, of i'] in simp_all)
  qed
qed

lemma counted_still:
  assumes "counted h now old found l"
  shows "itr_rating_key ` {r \<in> old. itr_host r = h \<and> itr_present r} \<subseteq> present_keys h l"
proof
  fix key assume "key \<in> itr_rating_key ` {r \<in> old. itr_host r = h \<and> itr_present r}"
  then obtain r where r: "r \<in> old" "itr_host r = h" "itr_present r" "itr_rating_key r = key" by blast
  show "key \<in> present_keys h l"
  proof (cases "r \<in> set (lg_items l)")
    case False
    then obtain i where i: "i \<in> found" "mi_rating_key i = key"
      using countedD(3) [OF assms r(1)] r(4) by (auto simp: item_key_def)
    then obtain i' where i': "mi_rating_key i' = key" "item_row_of h now i' \<in> set (lg_items l)"
      using countedD(2) [OF assms i(1)] by auto
    show ?thesis unfolding present_keys_def
      by (rule image_eqI [of _ _ "item_row_of h now i'"]) (use i' in \<open>simp_all add: item_row_of_def\<close>)
  qed (use r in \<open>auto simp: present_keys_def\<close>)
qed

lemma present_after_mark [simp]: "present_keys h (markLibrary h now fine reason l) = present_keys h l"
  by (simp add: present_keys_def markLibrary_def)

lemma untouched_keeps:
  "lg_items l' = lg_items l \<Longrightarrow> itr_rating_key ` {r \<in> after_purge h excluded l. itr_host r = h \<and> itr_present r} \<subseteq> present_keys h l'"
  by (auto simp: present_keys_def after_purge_def)

text \<open>C14: A run of the inventory ends and reports whether it was complete. After a complete run the items present on the
  host are exactly the ones the server lists in its libraries outside the excluded folders, so an item the
  library lost is retired and one that came back is present again. A run that failed anywhere retires nothing:
  every item present before, outside the excluded libraries, is present after.\<close>

theorem complete_inventory_is_the_library:
  assumes server: "library_server env LIBRARY_PAGE library" and old: "seen_before (hst_name host) now (ss_ledger s)"
  shows "\<exists>s' whole. syncLibrary env host now token folders LIBRARY_PAGE s = Some (s', whole) \<and>
    (if whole then present_keys (hst_name host) (ss_ledger s') =
         mi_rating_key ` listed_items (excludedSections (sections_now env s) folders) library (sections_now env s)
     else itr_rating_key ` {r \<in> after_purge (hst_name host) (excludedSections (sections_now env s) folders) (ss_ledger s).
         itr_host r = hst_name host \<and> itr_present r} \<subseteq> present_keys (hst_name host) (ss_ledger s'))"
proof (cases "hst_plex_url host = [] \<or> token = []")
  case True
  then have "syncLibrary env host now token folders LIBRARY_PAGE s = Some (s, False)" by (auto simp: syncLibrary_def Let_def)
  then show ?thesis using untouched_keeps [OF refl] by auto
next
  case reachable: False
  let ?h = "hst_name host" and ?s1 = "snd (client_get env (get_path ''/library/sections'') s)"
  show ?thesis
  proof (cases "answer_of env (ss_asked s) (get_path ''/library/sections'')")
    case (Http_failed reason)
    then have "syncLibrary env host now token folders LIBRARY_PAGE s =
        Some (in_ledger (markLibrary ?h now False (Some reason)) ?s1, False)"
      using reachable by (simp add: syncLibrary_def Let_def client_get_def)
    then show ?thesis using untouched_keeps [OF refl] by (auto simp: in_ledger_def)
  next
    case (Http_ok payload)
    define secs where "secs = parseSections payload"
    define excluded where "excluded = excludedSections secs folders"
    have now: "sections_now env s = secs" by (simp add: sections_now_def Http_ok secs_def)
    define s2 where "s2 = in_ledger (\<lambda>l. fst (purgeSections ?h excluded (upsertSections ?h secs excluded l))) ?s1"
    have "counted ?h now (after_purge ?h excluded (ss_ledger s)) {} (ss_ledger s2)"
      using counted_start [of ?h now "ss_ledger s2"] by (simp add: s2_def in_ledger_def items_after_purge)
    from page_sections_count [OF server this, of excluded secs "[]"]
    obtain failure s3 found where paged: "page_sections env ?h excluded now LIBRARY_PAGE secs [] s2 = Some (failure, s3)"
      and counted: "counted ?h now (after_purge ?h excluded (ss_ledger s)) found (ss_ledger s3)"
      and found: "failure = [] \<Longrightarrow> found = listed_items excluded library secs" by auto
    define s4 where "s4 = (if failure = [] then in_ledger (\<lambda>l. fst (retireUnseenItems ?h now l)) s3 else s3)"
    have run: "syncLibrary env host now token folders LIBRARY_PAGE s =
        Some (in_ledger (markLibrary ?h now (failure = []) (if failure = [] then None else Some failure)) s4, failure = [])"
      using reachable Http_ok paged
      by (simp add: syncLibrary_def Let_def client_get_def secs_def [symmetric] excluded_def [symmetric] s2_def s4_def)
    show ?thesis
      using counted_retired [OF counted old] counted_still [OF counted] found
      by (simp add: run now excluded_def [symmetric] in_ledger_def s4_def)
  qed
qed

text \<open>A server with one library of one film.\<close>

definition sample_listing :: json where
  "sample_listing = JObj [(''MediaContainer'', JObj [(''size'', JNum 1), (''totalSize'', JNum 1),
     (''Metadata'', JArr [JObj [(''type'', JStr ''movie''), (''ratingKey'', JStr ''31''), (''title'', JStr ''Heat'')]])])]"

definition sample_sections :: json where
  "sample_sections = JObj [(''MediaContainer'', JObj [(''Directory'', JArr [JObj [(''key'', JStr ''1''), (''type'', JStr ''movie''),
     (''title'', JStr ''Films'')]])])]"

definition sample_library :: plex_env where
  "sample_library = \<lparr>px_JSON_parse = (\<lambda>text. if text = ''items'' then Some sample_listing
       else if text = ''sections'' then Some sample_sections else None),
     px_wire = (\<lambda>asked req. (False,
       if rq_path req = ''/library/sections'' then Inr (200, ''sections'')
       else if rq_path req = ''/library/sections/1/all'' \<and> rq_start req = Some 0 then Inr (200, ''items'')
       else Inr (503, [])))\<rparr>"

lemma sample_listing_one: "length (parseItems sample_listing section) = 1"
  by (simp add: parseItems_def sample_listing_def plex_rows_def plex_container_def nested_def field_def objects_in_def item_entry_def Let_def
      kind_of_def KINDS_def kind_name_def key_of_def is_digit_def code_of_def)

lemma sample_library_honest:
  "library_server sample_library LIBRARY_PAGE (\<lambda>sec. parseItems sample_listing (Some (ps_section_id sec)))"
proof -
  let ?rows = "\<lambda>sec. parseItems sample_listing (Some (ps_section_id sec))"
  have listing: "pageInfo sample_listing = Some \<lparr>pi_size = 1, pi_total_size = 1, pi_offset = 0\<rparr>"
    by (simp add: pageInfo_def sample_listing_def plex_container_def nested_def field_def integer_of_def)
  have got: "sample_listing \<noteq> JNull"
    by (simp add: sample_listing_def)
  have page: "page_of (?rows sec) 0 LIBRARY_PAGE = ?rows sec" for sec
    using sample_listing_one [of "Some (ps_section_id sec)"] by (simp add: page_of_def LIBRARY_PAGE_def)
  have "honest_page (\<lambda>payload. parseItems payload (Some (ps_section_id sec))) (?rows sec) start LIBRARY_PAGE
      (answer_of sample_library asked ((section_request sec)\<lparr>rq_start := Some start, rq_size := Some LIBRARY_PAGE\<rparr>))" for asked sec start
  proof (cases "ps_section_id sec = ''1'' \<and> start = 0")
    case True
    then have "answer_of sample_library asked ((section_request sec)\<lparr>rq_start := Some start, rq_size := Some LIBRARY_PAGE\<rparr>) = Http_ok sample_listing"
      using got by (simp add: answer_of_def sample_library_def getJson_def judge_def section_request_def split: json.splits)
    then show ?thesis using True listing page [of sec] sample_listing_one [of "Some (ps_section_id sec)"] by (simp add: honest_page_def)
  next
    case False
    then show ?thesis by (auto simp: honest_page_def answer_of_def sample_library_def getJson_def judge_def section_request_def)
  qed
  then show ?thesis by (simp add: library_server_def LIBRARY_PAGE_def)
qed

theorem complete_inventory_is_the_library_witness:
  "\<exists>s' whole. syncLibrary sample_library sample_plex_host 1767312000000 ''t'' [] LIBRARY_PAGE empty_sync = Some (s', whole) \<and>
    (if whole then present_keys ''nyx'' (ss_ledger s') =
         mi_rating_key ` listed_items (excludedSections (sections_now sample_library empty_sync) [])
           (\<lambda>sec. parseItems sample_listing (Some (ps_section_id sec))) (sections_now sample_library empty_sync)
     else True)"
proof -
  have "seen_before (hst_name sample_plex_host) 1767312000000 (ss_ledger empty_sync)" by (simp add: seen_before_def empty_sync_def)
  from complete_inventory_is_the_library [OF sample_library_honest this, of "''t''" "[]"]
  moreover have "hst_name sample_plex_host = ''nyx''" by (simp add: sample_plex_host_def)
  ultimately show ?thesis by (metis (no_types, lifting))
qed

end
