(* ===== verification/Spec2Isabelle.thy ===== *)
theory Spec2Isabelle imports InviteOnce Actions Webhook Loops Queries Snapshot Incidents Income Twins LibraryAccess Samples Collector PlexInventory begin

text \<open>
  Wizteros sells access to a group of Plex servers. Four programs make it up. The \<^emph>\<open>bridge\<close>
  (\<open>apps/stripe-bridge\<close>) turns Stripe events into Wizarr invites, extends, flags and disables accounts, and
  answers the admin portal. The \<^emph>\<open>monitor\<close> (\<open>apps/fleet-monitor\<close>) checks the servers and their
  containers and keeps samples, outages and play history. The \<^emph>\<open>portal\<close> (\<open>apps/admin-portal\<close>) is a React
  page over both. \<open>libs/server-common\<close> and \<open>libs/wire\<close> are what they share. Bridge and monitor do not
  call each other; the portal reads both over HTTP.

  \<^bold>\<open>Modelling.\<close> Code that calls a service, the store or the clock is a computation of type \<open>'a run\<close>
  (theory \<open>Effects\<close>, instantiated in \<open>Ports\<close>): it takes the tables and the log of every request so far and
  answers an exception or a value together with the state it left, so what was done before a throw is kept.
  Stripe, Wizarr, plex.tv, SMTP and the failures of SQLite are the functions of the record \<open>env\<close>; each is
  told the whole history, so any service may fail or change its answer at any point. Pure code is a function;
  code that throws without waiting answers \<open>exn + 'a\<close>. A \<open>Date\<close> is an integer count of milliseconds, text
  is a list of bytes, an insertion-ordered \<open>Map\<close> or \<open>Set\<close> an association list or a list, and the
  fractional numbers of the monitor are exact rationals.

  \<^bold>\<open>The shared layer.\<close> \<open>Prelude\<close> holds the vocabulary of JavaScript and its lemmas; \<open>IsoTime\<close> the
  calendar and timestamps of \<open>libs/server-common/src/time.ts\<close>, with their round trip and order; \<open>Json\<close> the
  narrowing of parsed JSON.

  \<^bold>\<open>The bridge, bottom up.\<close>
  \<^item> Pure rules: \<open>Tiers\<close> (\<open>tiers.ts\<close>, \<open>tierHealth.ts\<close>: which libraries a tier opens),
    \<open>Standing\<close> (\<open>standing.ts\<close>, \<open>subscriptionStatus.ts\<close>), \<open>Identity\<close> (\<open>identity.ts\<close>,
    \<open>memberLinks.ts\<close>: which addresses and records are one person), \<open>Types\<close>.
  \<^item> The tables: \<open>Store\<close> (\<open>store/*.ts\<close>). The locale \<open>address_table\<close> states what the three override
    tables promise and is interpreted on each; the relation \<open>store_step\<close> is every write the store offers, with
    the keys and the bindings it keeps.
  \<^item> The clients: \<open>WizarrClient\<close>, \<open>PlexClient\<close>, \<open>StripeClient\<close>, \<open>Mailer\<close>, \<open>Alerts\<close>
    (\<open>clients/*.ts\<close>, \<open>alerts.ts\<close>).
  \<^item> The flows: \<open>Members\<close>, \<open>Invites\<close>, \<open>Duplicates\<close>, \<open>Handlers\<close> (\<open>webhook/handlers.ts\<close>),
    \<open>Sweeps\<close> (\<open>sweeps.ts\<close>, \<open>changeAlert.ts\<close>), \<open>Reconcile\<close>, \<open>Baseline\<close>, \<open>Loops\<close>,
    \<open>Billing\<close>, \<open>Actions\<close> (\<open>admin/*.ts\<close>), \<open>Roster\<close>, \<open>Queries\<close>, \<open>Snapshot\<close>,
    \<open>Webhook\<close> (\<open>webhook/webhookController.ts\<close> with the queue that runs deliveries one at a time).
  \<^item> What the flows guarantee: \<open>AccessSafety\<close> (who is never invited, extended or disabled) and
    \<open>InviteOnce\<close> (an invite per checkout, across retries). Both rest on the calculi of \<open>Effects\<close>: \<open>wp\<close>
    for what an outcome satisfies and the locale \<open>frame\<close> for the relations every step keeps, interpreted for the
    requests a computation may make, the tables it leaves alone and the durable rows of the store.
  \<^item> \<open>Sample\<close> is the concrete environment the witnesses run in.

  \<^bold>\<open>The monitor.\<close> \<open>PythonMath\<close> (\<open>pythonMath.ts\<close>: the rounding and division the first monitor, in
  Python, did) and \<open>Incidents\<close> (\<open>incidents.ts\<close>: the streaks, outages and availability), where the tables are
  shown to implement the abstract hysteresis over the history of checks.

  \<^bold>\<open>Bounds.\<close> No definition uses fuel: every loop of the source that is modelled runs over a list or a bounded
  count, or is a step relation. Timestamps are proved to round trip for years 100 to 9999 and to sort for
  years 0 to 9999; local time is a fixed offset from UTC.

  \<^bold>\<open>Not modelled.\<close> The React components of the portal and their stores; the NestJS modules, controllers and
  HTTP plumbing; reading the environment; the operator command line; logging; the zod schemas; and what a
  library does (the Stripe signature, XML and JSON parsing, SMTP, SQLite's own storage), which are parameters.
\<close>

end
